(* ===== verification/Prelude.thy ===== *)
theory Prelude
  imports Main "HOL-Library.Word" "HOL-Library.AList" "HOL-Library.List_Lexorder"
    "HOL-Library.Char_ord" "HOL-Library.Multiset"
begin

text \<open>
  Shared vocabulary of the development. Rust's \<open>String\<close> is the list of its UTF-8
  bytes (Isabelle's \<open>string\<close>, whose \<open>char\<close> is one byte), so \<open>length\<close> is
  \<open>str::len\<close> and the order of \<open>List_Lexorder\<close> is the byte order of \<open>str\<close>.
  A \<open>HashMap\<close> is an association list read with \<open>map_of\<close> and written with
  \<open>AList.update\<close> and \<open>AList.delete\<close>. A panic of the code is \<open>None\<close>.
  A \<open>DateTime<Utc>\<close> is its number of nanoseconds since the epoch, an \<open>f64\<close> its
  64 bits. The \<open>Vec\<close> operations below (position, remove, insert, the first
  element found by \<open>iter_mut().find\<close>) are the ones several components call.
\<close>

section \<open>Types shared by the components\<close>

type_synonym u8 = "8 word"
type_synonym u32 = "32 word"
type_synonym u64 = "64 word"
type_synonym f64 = "64 word"
type_synonym time = int
type_synonym ('k, 'v) hmap = "('k \<times> 'v) list"

text \<open>\<open>serde_json::Value\<close>: the constructors the code builds and inspects.\<close>

datatype json =
    JNull
  | JBool bool
  | JInt int
  | JFloat f64
  | JStr string
  | JArr "json list"
  | JObj "(string \<times> json) list"

section \<open>Collections of proof rules\<close>

named_theorems vec_simps "equations for the Vec operations"
named_theorems str_simps "equations for the string operations"

section \<open>Operations on Vec\<close>

fun position :: "('a \<Rightarrow> bool) \<Rightarrow> 'a list \<Rightarrow> nat option" where
  "position P [] = None"
| "position P (x # xs) = (if P x then Some 0 else map_option Suc (position P xs))"

definition remove_at :: "nat \<Rightarrow> 'a list \<Rightarrow> 'a list" where
  "remove_at i xs = take i xs @ drop (Suc i) xs"

definition insert_at :: "nat \<Rightarrow> 'a \<Rightarrow> 'a list \<Rightarrow> 'a list" where
  "insert_at i x xs = take i xs @ x # drop i xs"

text \<open>\<open>position(..)\<close> followed by \<open>Vec::remove\<close>, as every id-keyed store of the code
  removes an entry.\<close>

definition take_out :: "('a \<Rightarrow> bool) \<Rightarrow> 'a list \<Rightarrow> 'a option \<times> 'a list" where
  "take_out P xs =
     (case position P xs of
        None \<Rightarrow> (None, xs)
      | Some i \<Rightarrow> (Some (xs ! i), remove_at i xs))"

text \<open>\<open>iter_mut().find(P)\<close> and a mutation of the element found.\<close>

fun update_first :: "('a \<Rightarrow> bool) \<Rightarrow> ('a \<Rightarrow> 'a) \<Rightarrow> 'a list \<Rightarrow> 'a list" where
  "update_first P f [] = []"
| "update_first P f (x # xs) = (if P x then f x # xs else x # update_first P f xs)"

text \<open>\<open>slice::partition_point\<close>: the number of leading elements that satisfy the predicate,
  for a slice partitioned by it (the documented precondition).\<close>

definition partition_point :: "('a \<Rightarrow> bool) \<Rightarrow> 'a list \<Rightarrow> nat" where
  "partition_point P xs = length (takeWhile P xs)"

definition partitioned :: "('a \<Rightarrow> bool) \<Rightarrow> 'a list \<Rightarrow> bool" where
  "partitioned P xs \<longleftrightarrow> (\<forall>x \<in> set (dropWhile P xs). \<not> P x)"

text \<open>A sequence of steps any of which may panic or not return.\<close>

fun fold_opt :: "('a \<Rightarrow> 's \<Rightarrow> 's option) \<Rightarrow> 'a list \<Rightarrow> 's \<Rightarrow> 's option" where
  "fold_opt f [] s = Some s"
| "fold_opt f (x # xs) s = (case f x s of None \<Rightarrow> None | Some s' \<Rightarrow> fold_opt f xs s')"

subsection \<open>Lemmas\<close>

lemma position_None [vec_simps]: "position P xs = None \<longleftrightarrow> (\<forall>x \<in> set xs. \<not> P x)"
  by (induction xs) auto

lemma position_SomeD:
  "position P xs = Some i \<Longrightarrow> i < length xs \<and> P (xs ! i) \<and> (\<forall>j < i. \<not> P (xs ! j))"
proof (induction xs arbitrary: i)
  case Nil
  then show ?case by simp
next
  case (Cons x xs)
  then show ?case
    by (auto split: if_splits simp: less_Suc_eq_0_disj)
qed

lemma length_remove_at [vec_simps]: "i < length xs \<Longrightarrow> length (remove_at i xs) = length xs - 1"
  by (simp add: remove_at_def)

lemma mset_remove_at: "i < length xs \<Longrightarrow> add_mset (xs ! i) (mset (remove_at i xs)) = mset xs"
  unfolding remove_at_def
  by (metis Cons_nth_drop_Suc append_take_drop_id mset.simps(2) mset_append union_mset_add_mset_right)

lemma set_remove_at: "set (remove_at i xs) \<subseteq> set xs"
  unfolding remove_at_def by (auto dest: in_set_takeD in_set_dropD)

lemma mset_insert_at [vec_simps]: "mset (insert_at i x xs) = add_mset x (mset xs)"
  unfolding insert_at_def
  by (metis append_take_drop_id mset.simps(2) mset_append union_mset_add_mset_right)

lemma length_insert_at [vec_simps]: "length (insert_at i x xs) = Suc (length xs)"
  by (metis mset_insert_at size_add_mset size_mset)

lemma take_out_Cons [vec_simps]:
  "take_out P (x # xs) =
     (if P x then (Some x, xs) else (fst (take_out P xs), x # snd (take_out P xs)))"
  by (auto simp: take_out_def remove_at_def split: option.splits)

lemma take_out_Nil [vec_simps]: "take_out P [] = (None, [])"
  by (simp add: take_out_def)

text \<open>A removal takes out the first element that matches and nothing else.\<close>

lemma take_out_None [vec_simps]: "fst (take_out P xs) = None \<longleftrightarrow> (\<forall>x \<in> set xs. \<not> P x)"
  by (induction xs) (auto simp: vec_simps)

lemma take_out_find: "fst (take_out P xs) = List.find P xs"
  by (induction xs) (auto simp: vec_simps)

lemma take_out_absent: "\<forall>x \<in> set xs. \<not> P x \<Longrightarrow> take_out P xs = (None, xs)"
  by (induction xs) (auto simp: vec_simps)

lemma take_out_split:
  "take_out P xs = (Some x, ys) \<Longrightarrow>
     \<exists>us vs. xs = us @ x # vs \<and> ys = us @ vs \<and> P x \<and> (\<forall>u \<in> set us. \<not> P u)"
proof (induction xs arbitrary: ys)
  case Nil
  then show ?case by (simp add: vec_simps)
next
  case (Cons a xs)
  show ?case
  proof (cases "P a")
    case True
    with Cons.prems have "a = x" "ys = xs" by (auto simp: vec_simps)
    with True show ?thesis by (intro exI [of _ "[]"] exI [of _ xs]) simp
  next
    case False
    with Cons.prems obtain zs where z: "take_out P xs = (Some x, zs)" and ys: "ys = a # zs"
      by (cases "take_out P xs") (auto simp: vec_simps)
    from Cons.IH [OF z] obtain us vs
      where "xs = us @ x # vs" "zs = us @ vs" "P x" "\<forall>u \<in> set us. \<not> P u" by blast
    with ys False show ?thesis by (intro exI [of _ "a # us"] exI [of _ vs]) auto
  qed
qed

lemma take_out_snd_set: "set (snd (take_out P xs)) \<subseteq> set xs"
  by (induction xs) (auto simp: vec_simps split: if_splits)

lemma take_out_mset:
  "mset xs = (case fst (take_out P xs) of None \<Rightarrow> {#} | Some x \<Rightarrow> {#x#}) + mset (snd (take_out P xs))"
  by (induction xs) (auto simp: vec_simps split: option.splits)

text \<open>Where keys are distinct, the first match is the only one, so removal filters.\<close>

lemma take_out_distinct:
  "distinct (map f xs) \<Longrightarrow> snd (take_out (\<lambda>x. f x = k) xs) = filter (\<lambda>x. f x \<noteq> k) xs"
proof (induction xs)
  case Nil
  then show ?case by (simp add: vec_simps)
next
  case (Cons x xs)
  show ?case
  proof (cases "f x = k")
    case True
    with Cons.prems have "filter (\<lambda>y. f y \<noteq> k) xs = xs"
      by (auto intro!: filter_True simp: image_iff)
    with True show ?thesis by (simp add: vec_simps)
  next
    case False
    with Cons show ?thesis by (simp add: vec_simps)
  qed
qed

lemma sorted_wrt_take_out: "sorted_wrt R xs \<Longrightarrow> sorted_wrt R (snd (take_out P xs))"
  by (induction xs) (auto simp: vec_simps dest: subsetD [OF take_out_snd_set])

lemma map_update_first: "(\<And>x. P x \<Longrightarrow> g (f x) = g x) \<Longrightarrow> map g (update_first P f xs) = map g xs"
  by (induction xs) auto

lemma length_update_first [vec_simps]: "length (update_first P f xs) = length xs"
  by (induction xs) auto

lemma update_first_absent: "\<forall>x \<in> set xs. \<not> P x \<Longrightarrow> update_first P f xs = xs"
  by (induction xs) auto

lemma find_update_first:
  "(\<And>x. P x \<Longrightarrow> P (f x)) \<Longrightarrow> List.find P (update_first P f xs) = map_option f (List.find P xs)"
  by (induction xs) auto

lemma filter_update_first: "(\<And>x. P x \<Longrightarrow> P (f x)) \<Longrightarrow> filter (\<lambda>x. \<not> P x) (update_first P f xs) = filter (\<lambda>x. \<not> P x) xs"
  by (induction xs) auto

lemma find_append: "List.find P (xs @ ys) = (case List.find P xs of None \<Rightarrow> List.find P ys | Some x \<Rightarrow> Some x)"
  by (induction xs) auto

lemma partitioned_Cons: "partitioned P (x # xs) \<longleftrightarrow> (if P x then partitioned P xs else \<forall>y \<in> set xs. \<not> P y)"
  by (auto simp: partitioned_def)

lemma partitioned_takeWhile: "partitioned P xs \<Longrightarrow> takeWhile P xs = filter P xs"
  by (induction xs) (auto simp: partitioned_Cons split: if_splits)

lemma partitioned_dropWhile: "partitioned P xs \<Longrightarrow> dropWhile P xs = filter (\<lambda>x. \<not> P x) xs"
  by (induction xs) (auto simp: partitioned_Cons split: if_splits)

text \<open>A slice sorted by a key is partitioned by every lower set of keys.\<close>

lemma sorted_partitioned_le: "sorted (map f xs) \<Longrightarrow> partitioned (\<lambda>x. f x \<le> (k :: 'b :: linorder)) xs"
proof (induction xs)
  case Nil
  then show ?case by (simp add: partitioned_def)
next
  case (Cons a xs)
  then show ?case by (fastforce simp: partitioned_Cons dest: order_trans)
qed

text \<open>The documented contract fixes the result: any index with satisfying elements before it
  and none after it is the partition point, whatever way the search takes.\<close>

lemma partition_point_unique:
  assumes "i \<le> length xs" "\<forall>j < i. P (xs ! j)" "\<forall>j. i \<le> j \<and> j < length xs \<longrightarrow> \<not> P (xs ! j)"
  shows "partition_point P xs = i"
proof (cases "i < length xs")
  case True
  with assms show ?thesis
    unfolding partition_point_def
    by (metis length_takeWhile_less_P_nth linorder_neqE_nat nat_less_le nth_length_takeWhile
        order.refl takeWhile_nth dual_order.strict_trans2 length_takeWhile_le set_takeWhileD nth_mem)
next
  case False
  with assms(1) have "i = length xs" by simp
  moreover from this assms(2) have "\<forall>x \<in> set xs. P x" by (simp add: all_set_conv_all_nth)
  then have "takeWhile P xs = xs" by simp
  ultimately show ?thesis by (simp only: partition_point_def)
qed

lemma take_partition_point: "take (partition_point P xs) xs = takeWhile P xs"
  by (simp add: partition_point_def takeWhile_eq_take [symmetric])

lemma drop_partition_point: "drop (partition_point P xs) xs = dropWhile P xs"
  by (simp add: partition_point_def dropWhile_eq_drop [symmetric])

lemma fold_opt_invariant:
  "\<lbrakk>fold_opt f xs s = Some s'; P s; \<And>x s s'. \<lbrakk>f x s = Some s'; P s\<rbrakk> \<Longrightarrow> P s'\<rbrakk> \<Longrightarrow> P s'"
  by (induction xs arbitrary: s) (auto split: option.splits)

end
