(* ===== verification/Ids.thy ===== *)
theory Ids
  imports Rust_Str
begin

text \<open>
  Short ids: \<open>AgentId\<close> and \<open>IdGenerator\<close> of src/src/types.rs. The counter is a
  \<open>u64\<close> word; an id is the low 16 bits of the counter times an odd constant, in
  four hexadecimal digits. The increment is the word's (the code's debug build would
  panic after 2^64 - 1 ids; that point is not reached).
\<close>

section \<open>State and operations\<close>

datatype agent_id = AgentId (aid: string)

record id_generator =
  counter :: u64

definition id_generator_new :: id_generator where
  "id_generator_new = \<lparr>counter = 0\<rparr>"

definition shuffle :: "u64 \<Rightarrow> u64" where
  "shuffle n = and (n * 0x9E3779B97F4A7C15) 0xFFFF"

definition next_id :: "id_generator \<Rightarrow> agent_id \<times> id_generator" where
  "next_id g =
     (let n = counter g;
          g' = g\<lparr>counter := n + 1\<rparr>;
          shuffled = shuffle n
      in (AgentId (show_hex 4 (unat shuffled)), g'))"

text \<open>The ids of \<open>k\<close> calls in a row.\<close>

fun gen_ids :: "nat \<Rightarrow> id_generator \<Rightarrow> agent_id list \<times> id_generator" where
  "gen_ids 0 g = ([], g)"
| "gen_ids (Suc k) g =
     (let (i, g') = next_id g; (is, g'') = gen_ids k g' in (i # is, g''))"

instantiation agent_id :: linorder
begin

definition less_eq_agent_id :: "agent_id \<Rightarrow> agent_id \<Rightarrow> bool" where
  "less_eq_agent_id a b \<longleftrightarrow> aid a \<le> aid b"

definition less_agent_id :: "agent_id \<Rightarrow> agent_id \<Rightarrow> bool" where
  "less_agent_id a b \<longleftrightarrow> aid a < aid b"

instance
  by standard (auto simp: less_eq_agent_id_def less_agent_id_def agent_id.expand)

end

section \<open>Lemmas\<close>

lemma unat_shuffle: "unat (shuffle n) = (unat n * 31765) mod 65536"
proof -
  have m: "(0xFFFF :: u64) = mask 16" by (simp add: mask_eq_exp_minus_1)
  have "shuffle n = take_bit 16 (n * 0x9E3779B97F4A7C15)"
    by (simp only: shuffle_def m take_bit_eq_mask)
  then have "unat (shuffle n) = unat (n * 0x9E3779B97F4A7C15) mod 65536"
    by (simp only: unsigned_take_bit_eq) (simp add: take_bit_eq_mod)
  also have "\<dots> = (unat n * 0x9E3779B97F4A7C15) mod 65536"
    by (simp add: unat_word_ariths mod_mod_cancel)
  also have "\<dots> = (unat n * 31765) mod 65536"
    using mod_mult_right_eq [of "unat n" "0x9E3779B97F4A7C15" 65536] by simp
  finally show ?thesis .
qed

lemma unat_shuffle_less: "unat (shuffle n) < 65536"
  by (simp add: unat_shuffle)

text \<open>The multiplier is odd, so it has an inverse modulo 2^16 (29501) and the shuffle
  forgets nothing of the counter's low 16 bits.\<close>

lemma mult_inverse: "(((a * 31765) mod 65536) * 29501) mod 65536 = a mod (65536 :: nat)"
proof -
  have "(((a * 31765) mod 65536) * 29501) mod 65536 = (a * (31765 * 29501)) mod 65536"
    by (simp add: mod_mult_left_eq mult.assoc)
  also have "\<dots> = a mod 65536"
    using mod_mult_right_eq [of a "31765 * 29501" 65536] by simp
  finally show ?thesis .
qed

lemma shuffle_eq_iff: "shuffle m = shuffle n \<longleftrightarrow> unat m mod 65536 = unat n mod 65536"
proof
  assume "shuffle m = shuffle n"
  then have "(unat m * 31765) mod 65536 = (unat n * 31765) mod 65536"
    by (simp flip: unat_shuffle)
  then show "unat m mod 65536 = unat n mod 65536" by (metis mult_inverse)
next
  assume "unat m mod 65536 = unat n mod 65536"
  then have "unat (shuffle m) = unat (shuffle n)"
    unfolding unat_shuffle by (metis mod_mult_left_eq)
  then show "shuffle m = shuffle n" by (rule unsigned_word_eqI)
qed

lemma next_id_simps:
  "fst (next_id g) = AgentId (show_hex 4 (unat (shuffle (counter g))))"
  "counter (snd (next_id g)) = counter g + 1"
  by (simp_all add: next_id_def Let_def)

lemma gen_ids_nth:
  "i < k \<Longrightarrow> fst (gen_ids k g) ! i = AgentId (show_hex 4 (unat (shuffle (counter g + of_nat i))))"
proof (induction k arbitrary: g i)
  case 0
  then show ?case by simp
next
  case (Suc k)
  show ?case
  proof (cases i)
    case 0
    then show ?thesis by (simp add: split_beta next_id_simps)
  next
    case (Suc j)
    with Suc.prems Suc.IH [of j "snd (next_id g)"] show ?thesis
      by (simp add: split_beta next_id_simps add.assoc)
  qed
qed

lemma length_gen_ids: "length (fst (gen_ids k g)) = k"
  by (induction k arbitrary: g) (simp_all add: split_beta)

lemma unat_add_mod: "unat (c + of_nat i :: u64) mod 65536 = (unat c + i) mod 65536"
proof -
  have "unat (of_nat i :: u64) mod 65536 = i mod 65536"
    by (simp add: unat_of_nat mod_mod_cancel)
  then have "(unat c + unat (of_nat i :: u64)) mod 65536 = (unat c + i) mod 65536"
    by (metis mod_add_right_eq)
  then show ?thesis by (simp add: unat_word_ariths mod_mod_cancel)
qed

lemma id_eq_iff:
  "AgentId (show_hex 4 (unat (shuffle (c + of_nat i)))) = AgentId (show_hex 4 (unat (shuffle (c + of_nat j))))
     \<longleftrightarrow> (unat c + i) mod 65536 = (unat c + j) mod 65536"
proof -
  have "show_hex 4 (unat a) = show_hex 4 (unat b) \<longleftrightarrow> a = b" for a b :: u64
    by (auto dest: show_hex_inj simp: unsigned_word_eqI)
  then show ?thesis by (simp add: shuffle_eq_iff unat_add_mod)
qed

lemma mod_shift_eq:
  assumes "i < M" "j < M" "(a + i) mod M = (a + j) mod (M :: nat)"
  shows "i = j"
proof -
  have "(int i - int j) mod int M = 0"
    using assms(3) by (metis add_diff_cancel_left mod_eq_dvd_iff dvd_imp_mod_0 of_nat_add of_nat_mod)
  moreover have "\<bar>int i - int j\<bar> < int M" using assms(1,2) by simp
  ultimately have "int i - int j = 0"
    using dvd_imp_le_int [of "int i - int j" "int M"] by (auto simp: mod_eq_0_iff_dvd)
  then show ?thesis by simp
qed

text \<open>Two ids of one run coincide exactly when their positions are congruent modulo 2^16.\<close>

lemma gen_ids_nth_eq:
  assumes "i < k" "j < k" "k \<le> 65536" "fst (gen_ids k g) ! i = fst (gen_ids k g) ! j"
  shows "i = j"
proof (rule mod_shift_eq)
  show "(unat (counter g) + i) mod 65536 = (unat (counter g) + j) mod 65536"
    using assms gen_ids_nth id_eq_iff by simp
qed (use assms in simp_all)

section \<open>Properties\<close>

text \<open>C36: within any run of at most 65536 calls the generator never repeats an id, from
  whatever counter it starts (a restored one included), and every id has four digits.\<close>

theorem ids_distinct_in_window:
  assumes "k \<le> 65536"
  shows "distinct (fst (gen_ids k g)) \<and> (\<forall>i \<in> set (fst (gen_ids k g)). length (aid i) = 4)"
proof
  show "distinct (fst (gen_ids k g))"
    unfolding distinct_conv_nth length_gen_ids
    using assms gen_ids_nth_eq by blast
  show "\<forall>i \<in> set (fst (gen_ids k g)). length (aid i) = 4"
    using unat_shuffle_less by (auto simp: in_set_conv_nth length_gen_ids gen_ids_nth length_show_hex)
qed

theorem ids_distinct_in_window_witness: "distinct (fst (gen_ids 3 id_generator_new))"
  using ids_distinct_in_window [of 3 id_generator_new] by simp

text \<open>The id produced 65536 calls later is the same id, so ids are unique within a
  window only, not over the life of a daemon.\<close>

theorem ids_repeat_after_window:
  "fst (next_id g) = fst (next_id (g\<lparr>counter := counter g + 65536\<rparr>))"
  using id_eq_iff [of "counter g" 0 65536] by (simp add: next_id_simps)

end
