(* ===== verification/Keyed_Store.thy ===== *)
theory Keyed_Store
  imports Prelude
begin

text \<open>
  The interface of the id-keyed stores of src/src/types.rs (\<open>WorkQueue\<close>,
  \<open>EventHistory\<close>, \<open>TimerManager\<close>): entries in a \<open>Vec\<close>, removal by id of the
  first entry that carries it, insertion of an entry. The clients' facts (what a removal
  leaves, what a lookup finds after an insertion) are proved here once, from the laws.
\<close>

section \<open>Removal by key\<close>

locale keyed_store =
  fixes elems :: "'s \<Rightarrow> 'a list"
    and key :: "'a \<Rightarrow> 'k"
    and del :: "'k \<Rightarrow> 's \<Rightarrow> 'a option \<times> 's"
  assumes del_result: "fst (del k s) = fst (take_out (\<lambda>x. key x = k) (elems s))"
    and del_elems: "elems (snd (del k s)) = snd (take_out (\<lambda>x. key x = k) (elems s))"
begin

lemma del_absent:
  assumes "k \<notin> key ` set (elems s)"
  shows "fst (del k s) = None" "elems (snd (del k s)) = elems s"
proof -
  have "\<forall>x \<in> set (elems s). \<not> key x = k" using assms by blast
  then have "take_out (\<lambda>x. key x = k) (elems s) = (None, elems s)" by (rule take_out_absent)
  then show "fst (del k s) = None" "elems (snd (del k s)) = elems s"
    by (simp_all add: del_result del_elems)
qed

lemma del_found: "k \<in> key ` set (elems s) \<Longrightarrow> \<exists>x \<in> set (elems s). key x = k \<and> fst (del k s) = Some x"
  using take_out_None [of "\<lambda>x. key x = k" "elems s"]
  by (cases "fst (take_out (\<lambda>x. key x = k) (elems s))")
    (auto simp: del_result take_out_find find_Some_iff)

lemma del_mset:
  "mset (elems s) =
     (case fst (del k s) of None \<Rightarrow> {#} | Some x \<Rightarrow> {#x#}) + mset (elems (snd (del k s)))"
  unfolding del_result del_elems by (rule take_out_mset)

lemma del_subset: "set (elems (snd (del k s))) \<subseteq> set (elems s)"
  unfolding del_elems by (rule take_out_snd_set)

lemma del_sorted_wrt: "sorted_wrt R (elems s) \<Longrightarrow> sorted_wrt R (elems (snd (del k s)))"
  unfolding del_elems by (rule sorted_wrt_take_out)

lemma del_distinct: "distinct (map key (elems s)) \<Longrightarrow> elems (snd (del k s)) = filter (\<lambda>x. key x \<noteq> k) (elems s)"
  unfolding del_elems by (rule take_out_distinct)

lemma del_gone: "distinct (map key (elems s)) \<Longrightarrow> k \<notin> key ` set (elems (snd (del k s)))"
  by (auto simp: del_distinct)

text \<open>Removing a list of ids one after the other, as the batch removals do.\<close>

lemma del_fold_distinct:
  "distinct (map key (elems s)) \<Longrightarrow>
     elems (fold (\<lambda>k s. snd (del k s)) ks s) = filter (\<lambda>x. key x \<notin> set ks) (elems s)"
proof (induction ks arbitrary: s)
  case Nil
  then show ?case by simp
next
  case (Cons k ks)
  have "distinct (map key (elems (snd (del k s))))"
    using Cons.prems by (simp add: del_distinct distinct_map_filter)
  from Cons.IH [OF this] show ?case
    using Cons.prems by (auto simp: del_distinct intro!: filter_cong)
qed

end

section \<open>Stores with an insertion\<close>

text \<open>An insertion adds the entry somewhere and keeps the rest.\<close>

locale keyed_bag = keyed_store +
  fixes ins :: "'a \<Rightarrow> 's \<Rightarrow> 's"
  assumes ins_mset: "mset (elems (ins x s)) = add_mset x (mset (elems s))"
begin

lemma ins_set: "set (elems (ins x s)) = insert x (set (elems s))"
  using ins_mset [of x s] by (metis set_mset_add_mset_insert set_mset_mset)

lemma ins_length: "length (elems (ins x s)) = Suc (length (elems s))"
  using ins_mset [of x s] by (metis size_add_mset size_mset)

lemma ins_distinct:
  "key x \<notin> key ` set (elems s) \<Longrightarrow> distinct (map key (elems s)) \<Longrightarrow> distinct (map key (elems (ins x s)))"
  using mset_eq_imp_distinct_iff [of "map key (elems (ins x s))" "key x # map key (elems s)"] ins_mset
  by simp

text \<open>A fresh entry comes back when its id is removed, and the store is as before.\<close>

lemma ins_del:
  assumes "key x \<notin> key ` set (elems s)"
  shows "fst (del (key x) (ins x s)) = Some x"
    and "mset (elems (snd (del (key x) (ins x s)))) = mset (elems s)"
proof -
  have "key x \<in> key ` set (elems (ins x s))" by (simp add: ins_set)
  from del_found [OF this] obtain y
    where y: "y \<in> set (elems (ins x s))" "key y = key x" "fst (del (key x) (ins x s)) = Some y" by blast
  with assms have "y = x" by (metis imageI ins_set insertE)
  with y show "fst (del (key x) (ins x s)) = Some x" by simp
  then show "mset (elems (snd (del (key x) (ins x s)))) = mset (elems s)"
    using del_mset [of "ins x s" "key x"] by (simp add: ins_mset)
qed

end

text \<open>An insertion at the end keeps the order as well.\<close>

locale keyed_log = keyed_store +
  fixes app :: "'a \<Rightarrow> 's \<Rightarrow> 's"
  assumes app_elems: "elems (app x s) = elems s @ [x]"

sublocale keyed_log \<subseteq> keyed_bag elems key del app
  by unfold_locales (simp add: app_elems)

end
