(* ===== verification/Work_Queue.thy ===== *)
theory Work_Queue
  imports Ids Keyed_Store
begin

text \<open>
  Work items and the work queue (\<open>WorkItemType\<close>, \<open>WorkItem\<close>, \<open>WorkQueue\<close> of
  src/src/types.rs). The queue is a vector sorted by priority, highest first, and by
  arrival within one priority; \<open>push\<close> finds its place with \<open>partition_point\<close>.
\<close>

section \<open>Data\<close>

datatype work_item_type =
    UserMessage (um_chat_id: string) (um_user: string) (um_content: string) (um_message_ref: "string option")
  | TimerFired agent_id "nat option" string \<comment> \<open>timer\_id, every (nanoseconds), description\<close>
  | ProcessCompleted agent_id int "string option" string \<comment> \<open>pid, exit\_code, output\_preview, description\<close>
  | ProcessFailed agent_id string "string option" string \<comment> \<open>pid, error, output\_preview, description\<close>
  | ProcessTimeout agent_id
  | ChildAgentCompleted string "(string, json) hmap" u32 bool string f64 u8
      \<comment> \<open>child\_name, result, turns\_used, success, summary, cost\_usd, cache\_hit\_pct\<close>
  | AgentMessage string string \<comment> \<open>from, content\<close>
  | ExternalEvent string string json \<comment> \<open>source, event\_type, data\<close>
  | View "string list"
  | Compaction
  | AgentStartup "string option"
  | HookException string string json \<comment> \<open>hook\_name, error, original\<close>

record work_item =
  wi_id :: agent_id
  wi_priority :: u8
  wi_time :: time
  wi_type :: work_item_type
  wi_attachments :: "string list"

record work_queue =
  wq_items :: "work_item list"

section \<open>Operations\<close>

definition wq_new :: work_queue where
  "wq_new = \<lparr>wq_items = []\<rparr>"

text \<open>The closure given to \<open>partition_point\<close>: does the existing item stay before the new one?\<close>

definition stays_before :: "work_item \<Rightarrow> work_item \<Rightarrow> bool" where
  "stays_before existing item =
     (if wi_priority existing \<noteq> wi_priority item
      then wi_priority existing > wi_priority item
      else wi_time existing \<le> wi_time item)"

definition wq_push :: "work_item \<Rightarrow> work_queue \<Rightarrow> work_queue" where
  "wq_push item q =
     (let pos = partition_point (\<lambda>existing. stays_before existing item) (wq_items q)
      in q\<lparr>wq_items := insert_at pos item (wq_items q)\<rparr>)"

definition wq_remove :: "agent_id \<Rightarrow> work_queue \<Rightarrow> work_item option \<times> work_queue" where
  "wq_remove i q =
     (case position (\<lambda>item. wi_id item = i) (wq_items q) of
        Some pos \<Rightarrow> (Some (wq_items q ! pos), q\<lparr>wq_items := remove_at pos (wq_items q)\<rparr>)
      | None \<Rightarrow> (None, q))"

definition wq_is_empty :: "work_queue \<Rightarrow> bool" where
  "wq_is_empty q \<longleftrightarrow> wq_items q = []"

definition wq_len :: "work_queue \<Rightarrow> nat" where
  "wq_len q = length (wq_items q)"

definition wq_get :: "work_queue \<Rightarrow> nat \<Rightarrow> work_item option" where
  "wq_get q i = (if i < length (wq_items q) then Some (wq_items q ! i) else None)"

section \<open>The order of the queue\<close>

text \<open>An item's place is decided by its key: priority descending, then time ascending.\<close>

datatype queue_key = QKey u8 time

instantiation queue_key :: linorder
begin

fun less_eq_queue_key :: "queue_key \<Rightarrow> queue_key \<Rightarrow> bool" where
  "less_eq_queue_key (QKey p t) (QKey p' t') \<longleftrightarrow> p > p' \<or> (p = p' \<and> t \<le> t')"

fun less_queue_key :: "queue_key \<Rightarrow> queue_key \<Rightarrow> bool" where
  "less_queue_key (QKey p t) (QKey p' t') \<longleftrightarrow> p > p' \<or> (p = p' \<and> t < t')"

instance
proof
  fix x y z :: queue_key
  show "(x < y) = (x \<le> y \<and> \<not> y \<le> x)" by (cases x; cases y) auto
  show "x \<le> x" by (cases x) simp
  show "x \<le> y \<Longrightarrow> y \<le> z \<Longrightarrow> x \<le> z" by (cases x; cases y; cases z) auto
  show "x \<le> y \<Longrightarrow> y \<le> x \<Longrightarrow> x = y" by (cases x; cases y) auto
  show "x \<le> y \<or> y \<le> x" by (cases x; cases y) auto
qed

end

definition wi_key :: "work_item \<Rightarrow> queue_key" where
  "wi_key item = QKey (wi_priority item) (wi_time item)"

definition queue_sorted :: "work_queue \<Rightarrow> bool" where
  "queue_sorted q \<longleftrightarrow> sorted (map wi_key (wq_items q))"

section \<open>Lemmas\<close>

lemma stays_before_key: "stays_before e x \<longleftrightarrow> wi_key e \<le> wi_key x"
  by (auto simp: stays_before_def wi_key_def)

lemma wq_push_items:
  "wq_items (wq_push x q) =
     takeWhile (\<lambda>e. wi_key e \<le> wi_key x) (wq_items q) @ x # dropWhile (\<lambda>e. wi_key e \<le> wi_key x) (wq_items q)"
  by (simp add: wq_push_def Let_def insert_at_def stays_before_key take_partition_point drop_partition_point)

text \<open>The precondition of \<open>partition_point\<close> holds on a sorted queue.\<close>

lemma sorted_partitioned: "queue_sorted q \<Longrightarrow> partitioned (\<lambda>e. stays_before e x) (wq_items q)"
  unfolding queue_sorted_def stays_before_key by (rule sorted_partitioned_le)

lemma push_filter:
  assumes "queue_sorted q"
  shows "wq_items (wq_push x q) =
     filter (\<lambda>e. wi_key e \<le> wi_key x) (wq_items q) @ x # filter (\<lambda>e. \<not> wi_key e \<le> wi_key x) (wq_items q)"
  using sorted_partitioned [OF assms, of x]
  by (simp only: wq_push_items stays_before_key partitioned_takeWhile partitioned_dropWhile)

lemma queue_sorted_new [simp]: "queue_sorted wq_new"
  by (simp add: queue_sorted_def wq_new_def)

lemma queue_sorted_push: "queue_sorted q \<Longrightarrow> queue_sorted (wq_push x q)"
  using push_filter [of q x]
  by (auto simp: queue_sorted_def sorted_append not_le intro: sorted_filter less_imp_le order_trans)

interpretation wq: keyed_bag wq_items wi_id wq_remove wq_push
proof unfold_locales
  fix k s x
  show "fst (wq_remove k s) = fst (take_out (\<lambda>x. wi_id x = k) (wq_items s))"
    and "wq_items (snd (wq_remove k s)) = snd (take_out (\<lambda>x. wi_id x = k) (wq_items s))"
    by (auto simp: wq_remove_def take_out_def split: option.splits)
  show "mset (wq_items (wq_push x s)) = add_mset x (mset (wq_items s))"
    by (simp add: wq_push_def Let_def mset_insert_at)
qed

lemma queue_sorted_remove: "queue_sorted q \<Longrightarrow> queue_sorted (snd (wq_remove i q))"
  unfolding queue_sorted_def sorted_map by (rule wq.del_sorted_wrt)

lemmas queue_sorted_intros [intro] = queue_sorted_new queue_sorted_push queue_sorted_remove

text \<open>The head of a sorted queue is its best item.\<close>

lemma queue_head_best: "queue_sorted q \<Longrightarrow> wq_get q 0 = Some h \<Longrightarrow> e \<in> set (wq_items q) \<Longrightarrow> wi_key h \<le> wi_key e"
  by (cases "wq_items q") (auto simp: queue_sorted_def wq_get_def)

section \<open>Properties\<close>

text \<open>C18: pushing into a sorted queue keeps it sorted, puts the new item behind every item
  of the same or a better key (first in, first out within one priority and time) and before
  all others, and moves nothing else.\<close>

theorem push_sorted_stable:
  assumes "queue_sorted q"
  shows "queue_sorted (wq_push x q) \<and>
     wq_items (wq_push x q) =
       filter (\<lambda>e. wi_priority e > wi_priority x \<or> (wi_priority e = wi_priority x \<and> wi_time e \<le> wi_time x)) (wq_items q)
       @ x # filter (\<lambda>e. wi_priority e < wi_priority x \<or> (wi_priority e = wi_priority x \<and> wi_time x < wi_time e)) (wq_items q)"
proof -
  have k: "wi_key e \<le> wi_key x \<longleftrightarrow>
      wi_priority e > wi_priority x \<or> (wi_priority e = wi_priority x \<and> wi_time e \<le> wi_time x)"
    "\<not> wi_key e \<le> wi_key x \<longleftrightarrow>
      wi_priority e < wi_priority x \<or> (wi_priority e = wi_priority x \<and> wi_time x < wi_time e)" for e
    by (auto simp: wi_key_def not_less)
  show ?thesis
    using push_filter [OF assms, of x] queue_sorted_push [OF assms, of x] 
    by (simp only: k(2)) (simp only: k(1) simp_thms)
qed

definition sample_item :: "nat \<Rightarrow> u8 \<Rightarrow> time \<Rightarrow> work_item" where
  "sample_item n p t =
     \<lparr>wi_id = AgentId (show_nat n), wi_priority = p, wi_time = t, wi_type = Compaction, wi_attachments = []\<rparr>"

theorem push_sorted_stable_witness:
  "queue_sorted (wq_push (sample_item 2 5 20) (wq_push (sample_item 1 5 20) wq_new))"
proof -
  have "queue_sorted (wq_push (sample_item 1 5 20) wq_new)"
    by (intro queue_sorted_intros)
  from push_sorted_stable [OF this, of "sample_item 2 5 20"] show ?thesis by simp
qed

end
