(* ===== verification/Timers.thy ===== *)
theory Timers
  imports Work_Queue
begin

text \<open>
  Timers (\<open>Timer\<close>, \<open>TimerSchedule\<close>, \<open>TimerManager\<close> of src/src/types.rs).
  A \<open>Duration\<close> is its number of nanoseconds, as every point in time is. The clock that
  \<open>acknowledge\<close> reads is an argument, and so is the last instant a
  \<open>DateTime\<close> of the chrono crate can hold: an addition that passes it panics
  (\<open>None\<close>).
\<close>

section \<open>Data\<close>

datatype timer_schedule =
    OneShot time \<comment> \<open>at\<close>
  | Recurring nat time \<comment> \<open>every, next\_fire\<close>

record timer =
  t_id :: agent_id
  t_description :: string
  t_priority :: u8
  t_schedule :: timer_schedule
  t_created_at :: time
  pending_ack :: bool

record timer_manager =
  tm_timers :: "timer list"

section \<open>Operations\<close>

definition tm_new :: timer_manager where
  "tm_new = \<lparr>tm_timers = []\<rparr>"

definition tm_add :: "timer \<Rightarrow> timer_manager \<Rightarrow> timer_manager" where
  "tm_add t m = m\<lparr>tm_timers := tm_timers m @ [t]\<rparr>"

definition tm_cancel :: "agent_id \<Rightarrow> timer_manager \<Rightarrow> timer option \<times> timer_manager" where
  "tm_cancel i m =
     (case position (\<lambda>t. t_id t = i) (tm_timers m) of
        Some pos \<Rightarrow> (Some (tm_timers m ! pos), m\<lparr>tm_timers := remove_at pos (tm_timers m)\<rparr>)
      | None \<Rightarrow> (None, m))"

definition fired_item :: "time \<Rightarrow> timer \<Rightarrow> nat option \<Rightarrow> id_generator \<Rightarrow> work_item \<times> id_generator" where
  "fired_item now t every g =
     (let (i, g') = next_id g
      in (\<lparr>wi_id = i, wi_priority = t_priority t, wi_time = now,
           wi_type = TimerFired (t_id t) every (t_description t), wi_attachments = []\<rparr>, g'))"

text \<open>One round of the loop of \<open>check_and_fire\<close>: the item pushed to \<open>fired\<close>, the id
  pushed to \<open>to_remove\<close>, the timer as the round leaves it.\<close>

definition fire_step ::
  "time \<Rightarrow> timer \<Rightarrow> id_generator \<Rightarrow> work_item list \<times> agent_id list \<times> timer \<times> id_generator" where
  "fire_step now t g =
     (case t_schedule t of
        OneShot at \<Rightarrow>
          if now \<ge> at
          then (let (w, g') = fired_item now t None g in ([w], [t_id t], t, g'))
          else ([], [], t, g)
      | Recurring every next_fire \<Rightarrow>
          if pending_ack t then ([], [], t, g)
          else if now \<ge> next_fire
          then (let (w, g') = fired_item now t (Some every) g in ([w], [], t\<lparr>pending_ack := True\<rparr>, g'))
          else ([], [], t, g))"

fun fire_loop ::
  "time \<Rightarrow> timer list \<Rightarrow> id_generator \<Rightarrow> work_item list \<times> agent_id list \<times> timer list \<times> id_generator" where
  "fire_loop now [] g = ([], [], [], g)"
| "fire_loop now (t # ts) g =
     (let (w, r, t', g') = fire_step now t g;
          (ws, rs, ts', g'') = fire_loop now ts g'
      in (w @ ws, r @ rs, t' # ts', g''))"

definition check_and_fire ::
  "time \<Rightarrow> id_generator \<Rightarrow> timer_manager \<Rightarrow> work_item list \<times> id_generator \<times> timer_manager" where
  "check_and_fire now g m =
     (let (fired, to_remove, ts, g') = fire_loop now (tm_timers m) g
      in (fired, g', fold (\<lambda>i m. snd (tm_cancel i m)) to_remove (m\<lparr>tm_timers := ts\<rparr>)))"

text \<open>\<open>chrono::Duration::from_std\<close> fails beyond \<open>i64::MAX\<close> milliseconds; the code then
  falls back to one second.\<close>

definition from_std :: "nat \<Rightarrow> nat option" where
  "from_std d = (if d \<le> (2 ^ 63 - 1) * 1000000 then Some d else None)"

definition rearm :: "time \<Rightarrow> time \<Rightarrow> nat \<Rightarrow> time option" where
  "rearm max_utc now every =
     (let d = (case from_std every of Some d \<Rightarrow> d | None \<Rightarrow> 1000000000); t = now + int d
      in if t \<le> max_utc then Some t else None)"

definition tm_acknowledge :: "time \<Rightarrow> time \<Rightarrow> agent_id \<Rightarrow> timer_manager \<Rightarrow> timer_manager option" where
  "tm_acknowledge max_utc now i m =
     (case List.find (\<lambda>t. t_id t = i) (tm_timers m) of
        None \<Rightarrow> Some m
      | Some t \<Rightarrow>
          (case t_schedule t of
             OneShot at \<Rightarrow> Some m
           | Recurring every next_fire \<Rightarrow>
               (case rearm max_utc now every of
                  None \<Rightarrow> None
                | Some nf \<Rightarrow>
                    Some (m\<lparr>tm_timers := update_first (\<lambda>t. t_id t = i)
                      (\<lambda>t. t\<lparr>pending_ack := False, t_schedule := Recurring every nf\<rparr>) (tm_timers m)\<rparr>))))"

definition tm_list :: "timer_manager \<Rightarrow> timer list" where
  "tm_list m = tm_timers m"

fun deadline :: "timer_schedule \<Rightarrow> time" where
  "deadline (OneShot at) = at"
| "deadline (Recurring every next_fire) = next_fire"

definition next_deadline :: "timer_manager \<Rightarrow> time option" where
  "next_deadline m =
     (case tm_timers m of [] \<Rightarrow> None
      | t # ts \<Rightarrow> Some (fold (\<lambda>t d. min d (deadline (t_schedule t))) ts (deadline (t_schedule t))))"

section \<open>Lemmas\<close>

interpretation tm: keyed_log tm_timers t_id tm_cancel tm_add
  by unfold_locales
    (auto simp: tm_cancel_def tm_add_def take_out_def split: option.splits)

text \<open>Which timers a check fires, and what becomes of the ones it keeps.\<close>

definition due :: "time \<Rightarrow> timer \<Rightarrow> bool" where
  "due now t \<longleftrightarrow> deadline (t_schedule t) \<le> now \<and> \<not> (pending_ack t \<and> (\<exists>e n. t_schedule t = Recurring e n))"

definition one_shot :: "timer \<Rightarrow> bool" where
  "one_shot t \<longleftrightarrow> (case t_schedule t of OneShot at \<Rightarrow> True | Recurring e n \<Rightarrow> False)"

definition after_check :: "time \<Rightarrow> timer \<Rightarrow> timer" where
  "after_check now t = (if due now t \<and> \<not> one_shot t then t\<lparr>pending_ack := True\<rparr> else t)"

fun fired_timer :: "work_item_type \<Rightarrow> agent_id option" where
  "fired_timer (TimerFired i every d) = Some i"
| "fired_timer _ = None"

lemmas timer_defs = due_def one_shot_def after_check_def fire_step_def fired_item_def

lemma after_check_simps [simp]:
  "t_id (after_check now t) = t_id t" "t_schedule (after_check now t) = t_schedule t"
  "one_shot (after_check now t) = one_shot t"
  by (auto simp: after_check_def one_shot_def)

definition every_of :: "timer \<Rightarrow> nat option" where
  "every_of t = (case t_schedule t of OneShot at \<Rightarrow> None | Recurring e n \<Rightarrow> Some e)"

lemma fire_step_due:
  "fire_step now t g =
     (if due now t
      then ([fst (fired_item now t (every_of t) g)], if one_shot t then [t_id t] else [], after_check now t, snd (next_id g))
      else ([], [], after_check now t, g))"
  by (auto simp: timer_defs every_of_def Let_def split: timer_schedule.splits prod.splits)

lemma fired_item_simps:
  "wi_id (fst (fired_item now t e g)) = fst (next_id g)"
  "wi_priority (fst (fired_item now t e g)) = t_priority t"
  "wi_time (fst (fired_item now t e g)) = now"
  "wi_type (fst (fired_item now t e g)) = TimerFired (t_id t) e (t_description t)"
  by (simp_all add: fired_item_def split: prod.splits)

lemma fire_loop_removed:
  "fst (snd (fire_loop now ts g)) = map t_id (filter (\<lambda>t. due now t \<and> one_shot t) ts)"
  by (induction ts arbitrary: g) (auto simp: fire_step_due split_beta)

lemma fire_loop_timers: "fst (snd (snd (fire_loop now ts g))) = map (after_check now) ts"
  by (induction ts arbitrary: g) (auto simp: fire_step_due split_beta)

lemma fire_loop_fired:
  "map (\<lambda>w. (wi_type w, wi_priority w, wi_time w)) (fst (fire_loop now ts g))
     = map (\<lambda>t. (TimerFired (t_id t) (every_of t) (t_description t), t_priority t, now)) (filter (due now) ts)"
  by (induction ts arbitrary: g) (auto simp: fire_step_due split_beta fired_item_simps)

lemma fire_loop_fired_timers:
  "map (fired_timer \<circ> wi_type) (fst (fire_loop now ts g)) = map (Some \<circ> t_id) (filter (due now) ts)"
  by (induction ts arbitrary: g) (auto simp: fire_step_due split_beta fired_item_simps)

lemma fire_loop_ids:
  "map wi_id (fst (fire_loop now ts g)) = fst (gen_ids (length (filter (due now) ts)) g) \<and>
   snd (snd (snd (fire_loop now ts g))) = snd (gen_ids (length (filter (due now) ts)) g)"
  by (induction ts arbitrary: g) (auto simp: fire_step_due split_beta fired_item_simps)

lemma check_and_fire_fired: "fst (check_and_fire now g m) = fst (fire_loop now (tm_timers m) g)"
  by (simp add: check_and_fire_def split_beta)

lemma check_and_fire_timers:
  assumes "distinct (map t_id (tm_timers m))"
  shows "tm_timers (snd (snd (check_and_fire now g m))) =
     map (after_check now) (filter (\<lambda>t. \<not> (due now t \<and> one_shot t)) (tm_timers m))"
proof -
  let ?ts = "map (after_check now) (tm_timers m)"
  let ?rm = "map t_id (filter (\<lambda>t. due now t \<and> one_shot t) (tm_timers m))"
  have d: "distinct (map t_id (tm_timers (m\<lparr>tm_timers := ?ts\<rparr>)))"
    using assms by (simp add: comp_def)
  have "tm_timers (snd (snd (check_and_fire now g m))) =
      tm_timers (fold (\<lambda>i m. snd (tm_cancel i m)) ?rm (m\<lparr>tm_timers := ?ts\<rparr>))"
    using fire_loop_removed [of now "tm_timers m" g] fire_loop_timers [of now "tm_timers m" g]
    by (simp add: check_and_fire_def split_beta)
  also have "\<dots> = filter (\<lambda>t. t_id t \<notin> set ?rm) ?ts"
    using tm.del_fold_distinct [OF d, of ?rm] by simp
  also have "\<dots> = map (after_check now) (filter (\<lambda>t. t_id t \<notin> set ?rm) (tm_timers m))"
    by (simp add: filter_map comp_def)
  also have "filter (\<lambda>t. t_id t \<notin> set ?rm) (tm_timers m) =
      filter (\<lambda>t. \<not> (due now t \<and> one_shot t)) (tm_timers m)"
    using assms by (intro filter_cong) (auto simp: distinct_map inj_on_def)
  finally show ?thesis .
qed

lemma check_distinct:
  "distinct (map t_id (tm_timers m)) \<Longrightarrow> distinct (map t_id (tm_timers (snd (snd (check_and_fire now g m)))))"
  by (simp add: check_and_fire_timers comp_def distinct_map_filter)

lemma fold_min_le: "fold (\<lambda>t d. min d (f t)) ts (d :: 'b :: linorder) \<le> x \<longleftrightarrow> d \<le> x \<or> (\<exists>t \<in> set ts. f t \<le> x)"
  by (induction ts arbitrary: d) (auto simp: min_le_iff_disj)

lemma next_deadline_le:
  "(\<exists>d. next_deadline m = Some d \<and> d \<le> now) \<longleftrightarrow> (\<exists>t \<in> set (tm_timers m). deadline (t_schedule t) \<le> now)"
  by (auto simp: next_deadline_def fold_min_le split: list.splits)

text \<open>A sequence of checks with no operation of the agent between them.\<close>

fun checks :: "time list \<Rightarrow> id_generator \<Rightarrow> timer_manager \<Rightarrow> work_item list \<times> timer_manager" where
  "checks [] g m = ([], m)"
| "checks (now # ts) g m =
     (let (ws, g', m') = check_and_fire now g m; (ws', m'') = checks ts g' m' in (ws @ ws', m''))"

text \<open>The timers that can still fire before the agent acknowledges anything.\<close>

definition armed :: "timer \<Rightarrow> bool" where
  "armed t \<longleftrightarrow> one_shot t \<or> \<not> pending_ack t"

lemma due_armed: "due now t \<Longrightarrow> armed t"
  by (auto simp: due_def armed_def one_shot_def split: timer_schedule.splits)

lemma armed_after:
  assumes "distinct (map t_id (tm_timers m))"
  shows "filter armed (tm_timers (snd (snd (check_and_fire now g m))))
    = filter (\<lambda>t. armed t \<and> \<not> due now t) (tm_timers m)"
proof -
  have e: "armed (after_check now t) \<longleftrightarrow> armed t \<and> \<not> due now t" if "\<not> (due now t \<and> one_shot t)" for t
    using that by (auto simp: armed_def after_check_def one_shot_def due_def split: timer_schedule.splits)
  have "map (after_check now) (filter (\<lambda>t. armed t \<and> \<not> due now t) ts) = filter (\<lambda>t. armed t \<and> \<not> due now t) ts" for ts
    by (intro map_idI) (auto simp: after_check_def)
  moreover have "filter (armed \<circ> after_check now) (filter (\<lambda>t. \<not> (due now t \<and> one_shot t)) ts) =
      filter (\<lambda>t. armed t \<and> \<not> due now t) ts" for ts
    by (induction ts) (auto simp: e)
  ultimately show ?thesis
    by (simp add: check_and_fire_timers [OF assms] filter_map)
qed

lemma checks_fired_set:
  "distinct (map t_id (tm_timers m)) \<Longrightarrow>
     (fired_timer \<circ> wi_type) ` set (fst (checks ts g m)) \<subseteq> (Some \<circ> t_id) ` set (filter armed (tm_timers m))"
proof (induction ts arbitrary: g m)
  case Nil
  then show ?case by simp
next
  case (Cons now ts)
  obtain ws g' m' where c: "check_and_fire now g m = (ws, g', m')" by (metis prod_cases3)
  have d: "distinct (map t_id (tm_timers m'))" using check_distinct [OF Cons.prems, of now g] c by simp
  have a: "filter armed (tm_timers m') = filter (\<lambda>t. armed t \<and> \<not> due now t) (tm_timers m)"
    using armed_after [OF Cons.prems, of now g] c by simp
  have w: "map (fired_timer \<circ> wi_type) ws = map (Some \<circ> t_id) (filter (due now) (tm_timers m))"
    using fire_loop_fired_timers [of now "tm_timers m" g] check_and_fire_fired [of now g m] c by simp
  from arg_cong [OF w, of set]
  have "(fired_timer \<circ> wi_type) ` set ws = (Some \<circ> t_id) ` set (filter (due now) (tm_timers m))"
    by simp
  then have "(fired_timer \<circ> wi_type) ` set ws \<subseteq> (Some \<circ> t_id) ` set (filter armed (tm_timers m))"
    using due_armed by auto
  with Cons.IH [OF d, of g'] a show ?case
    by (auto simp: c split_beta)
qed

text \<open>An acknowledgement re-arms the timer it names and leaves the others.\<close>

lemma acknowledge_simps:
  assumes "tm_acknowledge max_utc now i m = Some m'"
  shows "map t_id (tm_timers m') = map t_id (tm_timers m)"
    and "filter (\<lambda>t. t_id t \<noteq> i) (tm_timers m') = filter (\<lambda>t. t_id t \<noteq> i) (tm_timers m)"
  using assms
  by (auto simp: tm_acknowledge_def map_update_first filter_update_first [where P = "\<lambda>t. t_id t = i"]
      split: option.splits timer_schedule.splits)

section \<open>Properties\<close>

text \<open>C27: a check fires, in the order of the timers, one item for every timer that is due
  (its time has come and it is not a recurring timer waiting for its acknowledgement), with
  the timer's id, period, description and priority and the time of the check; it removes
  the one-shot timers that fired, marks the recurring ones, and leaves the rest alone.\<close>

theorem check_and_fire_exact:
  assumes "distinct (map t_id (tm_timers m))"
  shows "map (\<lambda>w. (wi_type w, wi_priority w, wi_time w)) (fst (check_and_fire now g m))
      = map (\<lambda>t. (TimerFired (t_id t) (every_of t) (t_description t), t_priority t, now)) (filter (due now) (tm_timers m)) \<and>
    tm_timers (snd (snd (check_and_fire now g m)))
      = map (\<lambda>t. if due now t then t\<lparr>pending_ack := True\<rparr> else t)
          (filter (\<lambda>t. \<not> (due now t \<and> one_shot t)) (tm_timers m))"
  using fire_loop_fired check_and_fire_timers [OF assms]
  by (auto simp: check_and_fire_fired after_check_def)

definition sample_timers :: timer_manager where
  "sample_timers =
     tm_add \<lparr>t_id = AgentId ''0001'', t_description = ''once'', t_priority = 9, t_schedule = OneShot 10,
              t_created_at = 0, pending_ack = False\<rparr>
     (tm_add \<lparr>t_id = AgentId ''0002'', t_description = ''often'', t_priority = 5, t_schedule = Recurring 60 10,
              t_created_at = 0, pending_ack = False\<rparr> tm_new)"

lemma sample_timers_distinct: "distinct (map t_id (tm_timers sample_timers))"
  by (simp add: sample_timers_def tm_add_def tm_new_def)

theorem check_and_fire_exact_witness:
  "map wi_priority (fst (check_and_fire 15 id_generator_new sample_timers)) = [5, 9]"
proof -
  from check_and_fire_exact [OF sample_timers_distinct, of 15 id_generator_new]
  have "map (fst \<circ> snd) (map (\<lambda>w. (wi_type w, wi_priority w, wi_time w)) (fst (check_and_fire 15 id_generator_new sample_timers)))
      = map t_priority (filter (due 15) (tm_timers sample_timers))"
    by (simp add: comp_def)
  then show ?thesis by (simp add: sample_timers_def tm_add_def tm_new_def due_def comp_def)
qed

text \<open>However often and at whatever times the loop checks, a timer fires at most once as
  long as the agent acknowledges nothing: the items of any sequence of checks name each timer
  at most once.\<close>

theorem fires_once_until_acknowledged:
  assumes "distinct (map t_id (tm_timers m))"
  shows "distinct (map (\<lambda>w. fired_timer (wi_type w)) (fst (checks ts g m)))"
  using assms
proof (induction ts arbitrary: g m)
  case Nil
  then show ?case by simp
next
  case (Cons now ts)
  obtain ws g' m' where c: "check_and_fire now g m = (ws, g', m')" by (metis prod_cases3)
  have d: "distinct (map t_id (tm_timers m'))" using check_distinct [OF Cons.prems, of now g] c by simp
  have w: "map (fired_timer \<circ> wi_type) ws = map (Some \<circ> t_id) (filter (due now) (tm_timers m))"
    using fire_loop_fired_timers [of now "tm_timers m" g] check_and_fire_fired [of now g m] c by simp
  have "filter armed (tm_timers m') = filter (\<lambda>t. armed t \<and> \<not> due now t) (tm_timers m)"
    using armed_after [OF Cons.prems, of now g] c by simp
  then have later: "(fired_timer \<circ> wi_type) ` set (fst (checks ts g' m'))
      \<subseteq> (Some \<circ> t_id) ` {t \<in> set (tm_timers m). \<not> due now t}"
    using checks_fired_set [OF d, of ts g'] by auto
  from arg_cong [OF w, of set]
  have now: "(fired_timer \<circ> wi_type) ` set ws = (Some \<circ> t_id) ` {t \<in> set (tm_timers m). due now t}"
    by simp
  have "inj_on t_id (set (tm_timers m))" using Cons.prems by (simp add: distinct_map)
  then have "(Some \<circ> t_id) ` {t \<in> set (tm_timers m). due now t} \<inter> (Some \<circ> t_id) ` {t \<in> set (tm_timers m). \<not> due now t} = {}"
    by (auto dest: inj_onD)
  with now later have "(fired_timer \<circ> wi_type) ` set ws \<inter> (fired_timer \<circ> wi_type) ` set (fst (checks ts g' m')) = {}"
    by blast
  moreover have "distinct (map (fired_timer \<circ> wi_type) ws)"
    unfolding w using Cons.prems
    by (intro distinct_map [THEN iffD2] conjI distinct_filter)
      (auto simp: distinct_map inj_on_def)
  ultimately show ?case
    using Cons.IH [OF d, of g'] by (simp add: c split_beta comp_def)
qed

theorem fires_once_until_acknowledged_witness:
  "distinct (map (\<lambda>w. fired_timer (wi_type w)) (fst (checks [15, 100] id_generator_new sample_timers)))"
  by (rule fires_once_until_acknowledged [OF sample_timers_distinct])

text \<open>A recurring timer that fired keeps its old \<open>next_fire\<close> until it is
  acknowledged, so from then on the next deadline has always passed although a check fires
  nothing more: the loop, which sleeps until the next deadline, does not sleep.\<close>

theorem pending_timer_deadline_passed:
  assumes "distinct (map t_id (tm_timers m))"
    and "t \<in> set (tm_timers m)" "\<not> one_shot t" "due now t" "now \<le> later"
  shows "\<exists>d. next_deadline (snd (snd (check_and_fire now g m))) = Some d \<and> d \<le> later \<and>
     Some (t_id t) \<notin> (\<lambda>w. fired_timer (wi_type w)) ` set (fst (checks ts g' (snd (snd (check_and_fire now g m)))))"
proof -
  let ?m = "snd (snd (check_and_fire now g m))"
  have "after_check now t \<in> set (tm_timers ?m)"
    using assms by (auto simp: check_and_fire_timers)
  moreover have "deadline (t_schedule (after_check now t)) \<le> later"
    using assms(4,5) by (simp add: due_def)
  ultimately obtain d where "next_deadline ?m = Some d" "d \<le> later"
    using next_deadline_le by blast
  moreover have "Some (t_id t) \<notin> (fired_timer \<circ> wi_type) ` set (fst (checks ts g' ?m))"
  proof
    assume "Some (t_id t) \<in> (fired_timer \<circ> wi_type) ` set (fst (checks ts g' ?m))"
    with checks_fired_set [OF check_distinct [OF assms(1)]] armed_after [OF assms(1)]
    obtain u where "u \<in> set (tm_timers m)" "\<not> due now u" "t_id u = t_id t"
      by (smt (verit, best) comp_apply filter_set image_iff mem_Collect_eq option.inject set_filter subset_iff)
    with assms(1,2,4) show False by (metis distinct_map inj_on_def)
  qed
  ultimately show ?thesis by (auto simp: comp_def)
qed

theorem pending_timer_deadline_passed_witness:
  "\<exists>d. next_deadline (snd (snd (check_and_fire 15 id_generator_new sample_timers))) = Some d \<and> d \<le> 1000"
  using pending_timer_deadline_passed [OF sample_timers_distinct, of "hd (tm_timers sample_timers)" 15 1000 id_generator_new "[]" id_generator_new]
  by (auto simp: sample_timers_def tm_add_def tm_new_def one_shot_def due_def)

end
