(* ===== verification/Processes.thy ===== *)
theory Processes
  imports Timers
begin

text \<open>
  Processes: the bookkeeping (\<open>ManagedProcess\<close>, \<open>ProcessManager\<close> of
  src/src/types.rs) and the supervisor (src/src/process.rs). Every spawned process is served
  by the tasks \<open>spawn\<close> starts: the one that inserts it into \<open>running\<close>, the stdin
  writer, the output reader, the completion monitor and the alert timer. A task is a small
  state machine; one action is what a task does between two points where it can be
  suspended, so every interleaving of the tasks is a sequence of actions. What the child
  process writes and how it exits comes with the actions.
\<close>

section \<open>Bookkeeping\<close>

datatype process_status =
    Running
  | Completed int \<comment> \<open>exit\_code\<close>
  | Failed string \<comment> \<open>error\<close>

record managed_process =
  mp_id :: agent_id
  mp_cmd :: string
  mp_args :: "string list"
  mp_env :: "(string, string) hmap"
  mp_description :: string
  mp_status :: process_status
  mp_success_prio :: u8
  mp_fail_prio :: u8
  mp_started_at :: time
  mp_os_pid :: "u32 option"

record process_manager =
  pm_processes :: "managed_process list"

definition pm_new :: process_manager where
  "pm_new = \<lparr>pm_processes = []\<rparr>"

definition pm_add :: "managed_process \<Rightarrow> process_manager \<Rightarrow> process_manager" where
  "pm_add p m = m\<lparr>pm_processes := pm_processes m @ [p]\<rparr>"

definition pm_get :: "agent_id \<Rightarrow> process_manager \<Rightarrow> managed_process option" where
  "pm_get i m = List.find (\<lambda>p. mp_id p = i) (pm_processes m)"

text \<open>\<open>get_mut\<close> and the mutation the caller makes through the reference.\<close>

definition pm_get_mut ::
  "agent_id \<Rightarrow> (managed_process \<Rightarrow> managed_process) \<Rightarrow> process_manager \<Rightarrow> process_manager" where
  "pm_get_mut i f m = m\<lparr>pm_processes := update_first (\<lambda>p. mp_id p = i) f (pm_processes m)\<rparr>"

definition into_processes :: "process_manager \<Rightarrow> managed_process list" where
  "into_processes m = pm_processes m"

lemma pm_get_add: "pm_get (mp_id p) m = None \<Longrightarrow> pm_get (mp_id p) (pm_add p m) = Some p"
  by (simp add: pm_get_def pm_add_def find_append)

lemma pm_get_get_mut:
  "(\<And>p. mp_id (f p) = mp_id p) \<Longrightarrow> pm_get i (pm_get_mut i f m) = map_option f (pm_get i m)"
  by (simp add: pm_get_def pm_get_mut_def find_update_first)

section \<open>Supervisor: requests, events, tasks\<close>

record process_start_request =
  ps_id :: agent_id
  ps_cmd :: string
  ps_args :: "string list"
  ps_env :: "(string, string) hmap"
  ps_description :: string
  ps_alert_timer_secs :: nat
  ps_fail_prio :: u8
  ps_block_for_ms :: "nat option"
  ps_interactive :: bool

datatype process_event =
    EvCompleted agent_id int \<comment> \<open>pid, exit\_code\<close>
  | EvFailed agent_id string \<comment> \<open>pid, error\<close>
  | EvTimeout agent_id

fun ev_pid :: "process_event \<Rightarrow> agent_id" where
  "ev_pid (EvCompleted p c) = p"
| "ev_pid (EvFailed p e) = p"
| "ev_pid (EvTimeout p) = p"

fun is_final :: "process_event \<Rightarrow> bool" where
  "is_final (EvTimeout p) = False"
| "is_final _ = True"

text \<open>The environment of the child: the two injected variables first, so that the agent's own
  value of either wins.\<close>

definition child_env :: "string \<Rightarrow> string \<Rightarrow> (string, string) hmap \<Rightarrow> (string, string) hmap" where
  "child_env event_url agent_name env =
     fold (\<lambda>(k, v) m. AList.update k v m) env
       (AList.update ''CLAUDE_SERVER_AGENT_NAME'' agent_name
         (AList.update ''CLAUDE_SERVER_EVENT_URL'' event_url []))"

text \<open>What \<open>child.wait()\<close> gives: an exit status (its code, or none for a signal) or an error.\<close>

datatype wait_result = Exited "int option" | WaitError string

definition completion_event :: "agent_id \<Rightarrow> wait_result \<Rightarrow> process_event" where
  "completion_event pid r =
     (case r of
        Exited code \<Rightarrow>
          if code = Some 0
          then EvCompleted pid (case code of Some c \<Rightarrow> c | None \<Rightarrow> 0)
          else EvFailed pid (''exit code '' @ show_int (case code of Some c \<Rightarrow> c | None \<Rightarrow> -1))
      | WaitError e \<Rightarrow> EvFailed pid (''wait error: '' @ e))"

datatype writer_task = NoWriter | WriterStarting | WriterOn | WriterClosing | WriterDone
datatype reader_task = ReadOut | ReadErr | ReadDone
datatype monitor_task =
    Waiting
  | Joining wait_result
  | Removing wait_result
  | Signalling process_event
  | Sending process_event
  | Reported process_event
datatype alert_task = Sleeping | Found | Over

text \<open>One spawned process. The stdin channel is the log of everything sent on it with the
  number of messages received so far; \<open>pr_stdin\<close> is what reached the child's pipe.\<close>

record proc =
  pr_pid :: agent_id
  pr_os_pid :: u32
  pr_tracked :: bool
  pr_block :: bool
  pr_oneshot :: bool
  pr_writer :: writer_task
  pr_chan :: "string option list"
  pr_recv :: nat
  pr_stdin :: string
  pr_reader :: reader_task
  pr_monitor :: monitor_task
  pr_alert :: alert_task

record supervisor =
  sv_events :: "process_event list"
  sv_running :: "(string, u32) hmap"
  sv_stdins :: "(string, nat) hmap" \<comment> \<open>pid to the process whose channel it is\<close>
  sv_procs :: "proc list"
  sv_output :: "(string \<times> string) list" \<comment> \<open>append\_process\_output calls, in order\<close>
  sv_killed :: "u32 list" \<comment> \<open>os pids \<open>kill\<close> was run on\<close>

definition sv_new :: supervisor where
  "sv_new = \<lparr>sv_events = [], sv_running = [], sv_stdins = [], sv_procs = [], sv_output = [], sv_killed = []\<rparr>"

definition upd_proc :: "nat \<Rightarrow> (proc \<Rightarrow> proc) \<Rightarrow> supervisor \<Rightarrow> supervisor" where
  "upd_proc i f s = s\<lparr>sv_procs := (sv_procs s)[i := f (sv_procs s ! i)]\<rparr>"

section \<open>Operations of the supervisor\<close>

text \<open>\<open>spawn\<close> once the OS has started the child under \<open>os_pid\<close>: all tasks exist and none
  has run yet.\<close>

definition sv_spawn :: "process_start_request \<Rightarrow> u32 \<Rightarrow> supervisor \<Rightarrow> supervisor" where
  "sv_spawn request os_pid s =
     s\<lparr>sv_procs := sv_procs s @
        [\<lparr>pr_pid = ps_id request, pr_os_pid = os_pid, pr_tracked = False,
          pr_block = (ps_block_for_ms request \<noteq> None), pr_oneshot = False,
          pr_writer = (if ps_interactive request then WriterStarting else NoWriter),
          pr_chan = [], pr_recv = 0, pr_stdin = [],
          pr_reader = ReadOut, pr_monitor = Waiting, pr_alert = Sleeping\<rparr>]\<rparr>"

text \<open>A send reaches the channel as long as its receiver lives.\<close>

definition chan_send :: "string option \<Rightarrow> proc \<Rightarrow> proc" where
  "chan_send msg p = (if pr_writer p = WriterDone then p else p\<lparr>pr_chan := pr_chan p @ [msg]\<rparr>)"

definition send_stdin :: "string \<Rightarrow> string \<Rightarrow> supervisor \<Rightarrow> supervisor" where
  "send_stdin pid data s =
     (case map_of (sv_stdins s) pid of
        Some i \<Rightarrow> upd_proc i (chan_send (Some data)) s
      | None \<Rightarrow> s)"

definition close_stdin :: "string \<Rightarrow> supervisor \<Rightarrow> supervisor" where
  "close_stdin pid s =
     (case map_of (sv_stdins s) pid of
        Some i \<Rightarrow> upd_proc i (chan_send None) (s\<lparr>sv_stdins := AList.delete pid (sv_stdins s)\<rparr>)
      | None \<Rightarrow> s)"

definition sv_kill :: "string \<Rightarrow> supervisor \<Rightarrow> supervisor" where
  "sv_kill pid s =
     (case map_of (sv_running s) pid of
        Some os_pid \<Rightarrow> s\<lparr>sv_killed := sv_killed s @ [os_pid]\<rparr>
      | None \<Rightarrow> s)"

section \<open>Steps of the tasks\<close>

datatype task_action =
    Track \<comment> \<open>running.insert\<close>
  | StdinInsert
  | StdinRecv nat \<comment> \<open>recv and write; the bytes the pipe took before any error\<close>
  | StdinRemove
  | ReadLine string
  | ReadEnd \<comment> \<open>end of the stream, or a line that is no UTF-8\<close>
  | ChildExit wait_result
  | Joined
  | Untrack \<comment> \<open>running.remove\<close>
  | Signal \<comment> \<open>oneshot\<close>
  | Send \<comment> \<open>event\_tx.send\<close>
  | AlertCheck
  | AlertSend

definition writer_recv :: "nat \<Rightarrow> proc \<Rightarrow> proc option" where
  "writer_recv n p =
     (if pr_recv p < length (pr_chan p)
      then (case pr_chan p ! pr_recv p of
              None \<Rightarrow> Some (p\<lparr>pr_recv := Suc (pr_recv p), pr_writer := WriterClosing\<rparr>)
            | Some bytes \<Rightarrow>
                if n < length bytes
                then Some (p\<lparr>pr_recv := Suc (pr_recv p), pr_stdin := pr_stdin p @ take n bytes, pr_writer := WriterClosing\<rparr>)
                else Some (p\<lparr>pr_recv := Suc (pr_recv p), pr_stdin := pr_stdin p @ bytes\<rparr>))
      else None)"

text \<open>\<open>None\<close>: the task is not at that point.\<close>

fun task_step :: "nat \<Rightarrow> task_action \<Rightarrow> proc \<Rightarrow> supervisor \<Rightarrow> supervisor option" where
  "task_step i Track p s =
     (if pr_tracked p then None
      else Some (upd_proc i (\<lambda>p. p\<lparr>pr_tracked := True\<rparr>)
        (s\<lparr>sv_running := AList.update (aid (pr_pid p)) (pr_os_pid p) (sv_running s)\<rparr>)))"
| "task_step i StdinInsert p s =
     (if pr_writer p = WriterStarting
      then Some (upd_proc i (\<lambda>p. p\<lparr>pr_writer := WriterOn\<rparr>)
        (s\<lparr>sv_stdins := AList.update (aid (pr_pid p)) i (sv_stdins s)\<rparr>))
      else None)"
| "task_step i (StdinRecv n) p s =
     (if pr_writer p = WriterOn
      then map_option (\<lambda>p'. upd_proc i (\<lambda>_. p') s) (writer_recv n p)
      else None)"
| "task_step i StdinRemove p s =
     (if pr_writer p = WriterClosing
      then Some (upd_proc i (\<lambda>p. p\<lparr>pr_writer := WriterDone\<rparr>)
        (s\<lparr>sv_stdins := AList.delete (aid (pr_pid p)) (sv_stdins s)\<rparr>))
      else None)"
| "task_step i (ReadLine line) p s =
     (case pr_reader p of
        ReadOut \<Rightarrow> Some (s\<lparr>sv_output := sv_output s @ [(aid (pr_pid p), line @ [nl])]\<rparr>)
      | ReadErr \<Rightarrow> Some (s\<lparr>sv_output := sv_output s @ [(aid (pr_pid p), ''[stderr] '' @ line @ [nl])]\<rparr>)
      | ReadDone \<Rightarrow> None)"
| "task_step i ReadEnd p s =
     (case pr_reader p of
        ReadOut \<Rightarrow> Some (upd_proc i (\<lambda>p. p\<lparr>pr_reader := ReadErr\<rparr>) s)
      | ReadErr \<Rightarrow> Some (upd_proc i (\<lambda>p. p\<lparr>pr_reader := ReadDone\<rparr>) s)
      | ReadDone \<Rightarrow> None)"
| "task_step i (ChildExit r) p s =
     (case pr_monitor p of
        Waiting \<Rightarrow> Some (upd_proc i (\<lambda>p. p\<lparr>pr_monitor := Joining r\<rparr>) s)
      | _ \<Rightarrow> None)"
| "task_step i Joined p s =
     (case pr_monitor p of
        Joining r \<Rightarrow>
          if pr_reader p = ReadDone then Some (upd_proc i (\<lambda>p. p\<lparr>pr_monitor := Removing r\<rparr>) s) else None
      | _ \<Rightarrow> None)"
| "task_step i Untrack p s =
     (case pr_monitor p of
        Removing r \<Rightarrow>
          Some (upd_proc i (\<lambda>p. p\<lparr>pr_monitor := Signalling (completion_event (pr_pid p) r)\<rparr>)
            (s\<lparr>sv_running := AList.delete (aid (pr_pid p)) (sv_running s)\<rparr>))
      | _ \<Rightarrow> None)"
| "task_step i Signal p s =
     (case pr_monitor p of
        Signalling ev \<Rightarrow>
          Some (upd_proc i (\<lambda>p. p\<lparr>pr_oneshot := pr_block p, pr_monitor := Sending ev\<rparr>) s)
      | _ \<Rightarrow> None)"
| "task_step i Send p s =
     (case pr_monitor p of
        Sending ev \<Rightarrow>
          Some (upd_proc i (\<lambda>p. p\<lparr>pr_monitor := Reported ev\<rparr>) (s\<lparr>sv_events := sv_events s @ [ev]\<rparr>))
      | _ \<Rightarrow> None)"
| "task_step i AlertCheck p s =
     (if pr_alert p = Sleeping
      then Some (upd_proc i
        (\<lambda>p. p\<lparr>pr_alert := (if map_of (sv_running s) (aid (pr_pid p)) \<noteq> None then Found else Over)\<rparr>) s)
      else None)"
| "task_step i AlertSend p s =
     (if pr_alert p = Found
      then Some (upd_proc i (\<lambda>p. p\<lparr>pr_alert := Over\<rparr>) (s\<lparr>sv_events := sv_events s @ [EvTimeout (pr_pid p)]\<rparr>))
      else None)"

datatype sv_action =
    Spawn process_start_request u32
  | SendStdin string string
  | CloseStdin string
  | Kill string
  | Task nat task_action

fun sv_act :: "sv_action \<Rightarrow> supervisor \<Rightarrow> supervisor option" where
  "sv_act (Spawn request os_pid) s = Some (sv_spawn request os_pid s)"
| "sv_act (SendStdin pid data) s = Some (send_stdin pid data s)"
| "sv_act (CloseStdin pid) s = Some (close_stdin pid s)"
| "sv_act (Kill pid) s = Some (sv_kill pid s)"
| "sv_act (Task i a) s = (if i < length (sv_procs s) then task_step i a (sv_procs s ! i) s else None)"

fun sv_run :: "sv_action list \<Rightarrow> supervisor \<Rightarrow> supervisor option" where
  "sv_run [] s = Some s"
| "sv_run (a # as) s = (case sv_act a s of None \<Rightarrow> None | Some s' \<Rightarrow> sv_run as s')"

text \<open>The steps of a supervisor whose callers spawn under fresh ids only.\<close>

fun fresh :: "sv_action \<Rightarrow> supervisor \<Rightarrow> bool" where
  "fresh (Spawn request os_pid) s \<longleftrightarrow> ps_id request \<notin> pr_pid ` set (sv_procs s)"
| "fresh _ s \<longleftrightarrow> True"

inductive sv_step :: "supervisor \<Rightarrow> supervisor \<Rightarrow> bool" where
  sv_step: "sv_act a s = Some s' \<Longrightarrow> fresh a s \<Longrightarrow> sv_step s s'"

inductive_cases sv_stepE: "sv_step s s'"

inductive sv_reachable :: "supervisor \<Rightarrow> bool" where
  reach_new: "sv_reachable sv_new"
| reach_step: "sv_reachable s \<Longrightarrow> sv_step s s' \<Longrightarrow> sv_reachable s'"

section \<open>Invariant\<close>

fun past_join :: "monitor_task \<Rightarrow> bool" where
  "past_join Waiting = False"
| "past_join (Joining r) = False"
| "past_join _ = True"

fun past_remove :: "monitor_task \<Rightarrow> bool" where
  "past_remove (Removing r) = False"
| "past_remove m = past_join m"

fun carried :: "monitor_task \<Rightarrow> process_event option" where
  "carried (Signalling ev) = Some ev"
| "carried (Sending ev) = Some ev"
| "carried (Reported ev) = Some ev"
| "carried _ = None"

text \<open>What the channel lets through to the pipe: the messages before the first close.\<close>

definition accepted :: "string option list \<Rightarrow> string" where
  "accepted ms = concat (map the (takeWhile (\<lambda>m. m \<noteq> None) ms))"

definition monitor_ok :: "process_event list \<Rightarrow> proc \<Rightarrow> bool" where
  "monitor_ok evs p \<longleftrightarrow>
     filter is_final evs = (case pr_monitor p of Reported ev \<Rightarrow> [ev] | _ \<Rightarrow> []) \<and>
     (past_join (pr_monitor p) \<longrightarrow> pr_reader p = ReadDone) \<and>
     ((\<exists>ev. pr_monitor p = Sending ev \<or> pr_monitor p = Reported ev) \<longrightarrow> pr_oneshot p = pr_block p) \<and>
     (\<forall>ev. carried (pr_monitor p) = Some ev \<longrightarrow> is_final ev \<and> ev_pid ev = pr_pid p)"

definition alert_ok :: "process_event list \<Rightarrow> proc \<Rightarrow> bool" where
  "alert_ok evs p \<longleftrightarrow>
     length (filter (\<lambda>e. \<not> is_final e) evs) \<le> 1 \<and>
     (pr_alert p \<noteq> Over \<longrightarrow> filter (\<lambda>e. \<not> is_final e) evs = [])"

definition writer_ok :: "proc \<Rightarrow> bool" where
  "writer_ok p \<longleftrightarrow>
     pr_recv p \<le> length (pr_chan p) \<and>
     (pr_writer p \<in> {NoWriter, WriterStarting, WriterOn} \<longrightarrow>
        (\<forall>m \<in> set (take (pr_recv p) (pr_chan p)). m \<noteq> None) \<and>
        pr_stdin p = concat (map the (take (pr_recv p) (pr_chan p)))) \<and>
     (\<exists>rest. accepted (pr_chan p) = pr_stdin p @ rest)"

definition running_ok :: "u32 option \<Rightarrow> proc \<Rightarrow> bool" where
  "running_ok r p \<longleftrightarrow>
     (r \<noteq> None \<longrightarrow> r = Some (pr_os_pid p) \<and> pr_tracked p) \<and>
     (pr_tracked p \<and> \<not> past_remove (pr_monitor p) \<longrightarrow> r = Some (pr_os_pid p))"

definition proc_ok :: "process_event list \<Rightarrow> u32 option \<Rightarrow> proc \<Rightarrow> bool" where
  "proc_ok evs r p \<longleftrightarrow> monitor_ok evs p \<and> alert_ok evs p \<and> writer_ok p \<and> running_ok r p"

definition events_of :: "agent_id \<Rightarrow> supervisor \<Rightarrow> process_event list" where
  "events_of i s = filter (\<lambda>e. ev_pid e = i) (sv_events s)"

definition sv_inv :: "supervisor \<Rightarrow> bool" where
  "sv_inv s \<longleftrightarrow>
     distinct (map pr_pid (sv_procs s)) \<and>
     (\<forall>p \<in> set (sv_procs s). proc_ok (events_of (pr_pid p) s) (map_of (sv_running s) (aid (pr_pid p))) p) \<and>
     (\<forall>e \<in> set (sv_events s). ev_pid e \<in> pr_pid ` set (sv_procs s)) \<and>
     fst ` set (sv_running s) \<subseteq> aid ` pr_pid ` set (sv_procs s)"

lemmas ok_defs = proc_ok_def monitor_ok_def alert_ok_def running_ok_def

subsection \<open>The frame of a step\<close>

text \<open>A step of one process changes its own record, its own entry of \<open>running\<close> and sends
  events about itself only.\<close>

lemma sv_inv_frame:
  assumes inv: "sv_inv s" and i: "i < length (sv_procs s)" and p: "p = sv_procs s ! i"
    and procs: "sv_procs s' = (sv_procs s)[i := p']" and pid: "pr_pid p' = pr_pid p"
    and evs: "sv_events s' = sv_events s @ es" "\<forall>e \<in> set es. ev_pid e = pr_pid p"
    and run: "\<And>k. k \<noteq> aid (pr_pid p) \<Longrightarrow> map_of (sv_running s') k = map_of (sv_running s) k"
    and dom: "fst ` set (sv_running s') \<subseteq> insert (aid (pr_pid p)) (fst ` set (sv_running s))"
    and ok: "proc_ok (events_of (pr_pid p) s @ es) (map_of (sv_running s') (aid (pr_pid p))) p'"
  shows "sv_inv s'"
proof -
  have mem: "p \<in> set (sv_procs s)" using i p by simp
  have pids: "map pr_pid (sv_procs s') = map pr_pid (sv_procs s)"
    using i p pid procs by (simp add: map_update list_update_same_conv)
  then have img: "pr_pid ` set (sv_procs s') = pr_pid ` set (sv_procs s)"
    by (metis list.set_map)
  have dist: "distinct (map pr_pid (sv_procs s))" using inv by (simp add: sv_inv_def)
  have "proc_ok (events_of (pr_pid q) s') (map_of (sv_running s') (aid (pr_pid q))) q"
    if q: "q \<in> set (sv_procs s')" for q
  proof -
    obtain j where j: "j < length (sv_procs s)" "q = (sv_procs s)[i := p'] ! j"
      using q procs by (auto simp: in_set_conv_nth)
    show ?thesis
    proof (cases "j = i")
      case True
      then have "q = p'" using i j by simp
      moreover have "events_of (pr_pid p) s' = events_of (pr_pid p) s @ es"
        using evs by (auto simp: events_of_def)
      ultimately show ?thesis using ok pid by simp
    next
      case False
      then have q': "q = sv_procs s ! j" using j by simp
      have "pr_pid q \<noteq> pr_pid p"
        using dist False i j(1) p q' by (simp add: distinct_conv_nth)
      moreover from this have "aid (pr_pid q) \<noteq> aid (pr_pid p)" by (auto dest: agent_id.expand)
      moreover have "q \<in> set (sv_procs s)" using q' j by simp
      ultimately show ?thesis
        using inv evs run by (auto simp: sv_inv_def events_of_def filter_empty_conv)
    qed
  qed
  moreover have "ev_pid e \<in> pr_pid ` set (sv_procs s')" if "e \<in> set (sv_events s')" for e
    using that inv evs mem unfolding img by (auto simp: sv_inv_def)
  moreover have "fst ` set (sv_running s') \<subseteq> aid ` pr_pid ` set (sv_procs s')"
  proof -
    have "fst ` set (sv_running s) \<subseteq> aid ` pr_pid ` set (sv_procs s)"
      using inv by (simp only: sv_inv_def)
    moreover have "aid (pr_pid p) \<in> aid ` pr_pid ` set (sv_procs s)" using mem by (intro imageI)
    ultimately have "fst ` set (sv_running s') \<subseteq> aid ` pr_pid ` set (sv_procs s)"
      using dom by (meson insert_subset order_trans)
    then show ?thesis by (simp only: img)
  qed
  ultimately show ?thesis
    using dist pids by (simp add: sv_inv_def)
qed

subsection \<open>Every step keeps the invariant\<close>

lemma accepted_prefix:
  "\<forall>m \<in> set (take k ms). m \<noteq> None \<Longrightarrow> accepted ms = concat (map the (take k ms)) @ accepted (drop k ms)"
  unfolding accepted_def
  by (metis (mono_tags, lifting) append_take_drop_id concat_append map_append takeWhile_append2)

lemma accepted_append: "\<exists>rest. accepted (ms @ ms') = accepted ms @ rest"
proof (cases "\<forall>m \<in> set ms. m \<noteq> None")
  case True
  then have "takeWhile (\<lambda>m. m \<noteq> None) (ms @ ms') = ms @ takeWhile (\<lambda>m. m \<noteq> None) ms'"
    and "takeWhile (\<lambda>m. m \<noteq> None) ms = ms" by (auto simp: takeWhile_append2)
  then show ?thesis by (simp only: accepted_def map_append concat_append) blast
next
  case False
  then have "takeWhile (\<lambda>m. m \<noteq> None) (ms @ ms') = takeWhile (\<lambda>m. m \<noteq> None) ms"
    using takeWhile_append1 [of _ ms "\<lambda>m. m \<noteq> None"] by blast
  then show ?thesis by (simp add: accepted_def)
qed

lemma chan_send_simps [simp]:
  "pr_pid (chan_send m p) = pr_pid p" "pr_os_pid (chan_send m p) = pr_os_pid p"
  "pr_tracked (chan_send m p) = pr_tracked p" "pr_monitor (chan_send m p) = pr_monitor p"
  "pr_reader (chan_send m p) = pr_reader p" "pr_oneshot (chan_send m p) = pr_oneshot p"
  "pr_block (chan_send m p) = pr_block p" "pr_alert (chan_send m p) = pr_alert p"
  by (simp_all add: chan_send_def)

lemma writer_ok_send: "writer_ok p \<Longrightarrow> writer_ok (chan_send m p)"
proof -
  assume w: "writer_ok p"
  then obtain rest where "accepted (pr_chan p) = pr_stdin p @ rest" by (auto simp: writer_ok_def)
  moreover obtain rest' where "accepted (pr_chan p @ [m]) = accepted (pr_chan p) @ rest'"
    using accepted_append by blast
  ultimately have "\<exists>rest. accepted (pr_chan p @ [m]) = pr_stdin p @ rest" by simp
  then show ?thesis using w by (auto simp: writer_ok_def chan_send_def)
qed

lemma writer_recv_ok:
  assumes w: "writer_ok p" and on: "pr_writer p = WriterOn" and r: "writer_recv n p = Some p'"
  shows "writer_ok p'"
proof -
  let ?ms = "pr_chan p" and ?k = "pr_recv p"
  have k: "?k < length ?ms" using r by (auto simp: writer_recv_def split: if_splits)
  then have drop: "drop ?k ?ms = ?ms ! ?k # drop (Suc ?k) ?ms" by (simp add: Cons_nth_drop_Suc)
  have some: "\<forall>m \<in> set (take ?k ?ms). m \<noteq> None"
    and stdin: "pr_stdin p = concat (map the (take ?k ?ms))"
    using w on by (auto simp: writer_ok_def)
  have acc: "accepted ?ms = pr_stdin p @ accepted (?ms ! ?k # drop (Suc ?k) ?ms)"
    using accepted_prefix [OF some] stdin drop by simp
  have tk: "take (Suc ?k) ?ms = take ?k ?ms @ [?ms ! ?k]" using k by (rule take_Suc_conv_app_nth)
  show ?thesis
  proof (cases "?ms ! ?k")
    case None
    with r k have "p' = p\<lparr>pr_recv := Suc ?k, pr_writer := WriterClosing\<rparr>" by (simp add: writer_recv_def)
    with w k show ?thesis by (simp add: writer_ok_def)
  next
    case (Some bytes)
    then have a: "accepted (?ms ! ?k # drop (Suc ?k) ?ms) = bytes @ accepted (drop (Suc ?k) ?ms)"
      by (simp add: accepted_def)
    show ?thesis
    proof (cases "n < length bytes")
      case True
      with r k Some have "p' = p\<lparr>pr_recv := Suc ?k, pr_stdin := pr_stdin p @ take n bytes, pr_writer := WriterClosing\<rparr>"
        by (simp add: writer_recv_def)
      moreover have "accepted ?ms = (pr_stdin p @ take n bytes) @ drop n bytes @ accepted (drop (Suc ?k) ?ms)"
        using acc a by simp
      ultimately show ?thesis using k by (auto simp: writer_ok_def)
    next
      case False
      with r k Some have "p' = p\<lparr>pr_recv := Suc ?k, pr_stdin := pr_stdin p @ bytes\<rparr>"
        by (simp add: writer_recv_def)
      then show ?thesis using k some stdin acc a tk Some by (auto simp: writer_ok_def)
    qed
  qed
qed

lemma writer_recv_simps:
  assumes "writer_recv n p = Some p'"
  shows "pr_pid p' = pr_pid p" "pr_os_pid p' = pr_os_pid p"
    "pr_tracked p' = pr_tracked p" "pr_monitor p' = pr_monitor p" "pr_reader p' = pr_reader p"
    "pr_oneshot p' = pr_oneshot p" "pr_block p' = pr_block p" "pr_alert p' = pr_alert p"
  using assms by (auto simp: writer_recv_def split: if_splits option.splits)

lemma completion_event_simps [simp]:
  "is_final (completion_event pid r)" "ev_pid (completion_event pid r) = pid"
  by (auto simp: completion_event_def split: wait_result.splits)

lemma upd_proc_simps [simp]:
  "sv_procs (upd_proc i f s) = (sv_procs s)[i := f (sv_procs s ! i)]"
  "sv_events (upd_proc i f s) = sv_events s" "sv_running (upd_proc i f s) = sv_running s"
  "sv_stdins (upd_proc i f s) = sv_stdins s" "sv_output (upd_proc i f s) = sv_output s"
  by (simp_all add: upd_proc_def)

lemma running_frame:
  "k \<noteq> k' \<Longrightarrow> map_of (AList.update k v m) k' = map_of m k'"
  "k \<noteq> k' \<Longrightarrow> map_of (AList.delete k m) k' = map_of m k'"
  "map_of (AList.update k v m) k = Some v"
  "map_of (AList.delete k m) k = None"
  by (simp_all add: update_conv' delete_conv')

lemma update_dom: "fst ` set (AList.update k v m) = insert k (fst ` set m)"
  using AList.dom_update [of k v m] by (simp add: dom_map_of_conv_image_fst)

lemma delete_dom: "fst ` set (AList.delete k m) \<subseteq> fst ` set m"
  by (auto simp: AList.delete_eq)

lemma writer_ok_frame:
  "writer_ok (p\<lparr>pr_tracked := b\<rparr>) = writer_ok p" "writer_ok (p\<lparr>pr_reader := rd\<rparr>) = writer_ok p"
  "writer_ok (p\<lparr>pr_monitor := m\<rparr>) = writer_ok p" "writer_ok (p\<lparr>pr_oneshot := b\<rparr>) = writer_ok p"
  "writer_ok (p\<lparr>pr_alert := al\<rparr>) = writer_ok p"
  by (simp_all add: writer_ok_def)

text \<open>What a step of the process \<open>p\<close>, number \<open>i\<close>, may do to the state.\<close>

definition own_step :: "nat \<Rightarrow> proc \<Rightarrow> supervisor \<Rightarrow> proc \<Rightarrow> process_event list \<Rightarrow> supervisor \<Rightarrow> bool" where
  "own_step i p s p' es s' \<longleftrightarrow>
     sv_procs s' = (sv_procs s)[i := p'] \<and> pr_pid p' = pr_pid p \<and>
     sv_events s' = sv_events s @ es \<and> (\<forall>e \<in> set es. ev_pid e = pr_pid p) \<and>
     (\<forall>k. k \<noteq> aid (pr_pid p) \<longrightarrow> map_of (sv_running s') k = map_of (sv_running s) k) \<and>
     fst ` set (sv_running s') \<subseteq> insert (aid (pr_pid p)) (fst ` set (sv_running s)) \<and>
     proc_ok (events_of (pr_pid p) s @ es) (map_of (sv_running s') (aid (pr_pid p))) p'"

lemma own_stepI:
  assumes "sv_procs s' = (sv_procs s)[i := p']" "pr_pid p' = pr_pid p"
    and "sv_events s' = sv_events s @ es" "\<forall>e \<in> set es. ev_pid e = pr_pid p"
    and "\<forall>k. k \<noteq> aid (pr_pid p) \<longrightarrow> map_of (sv_running s') k = map_of (sv_running s) k"
    and "fst ` set (sv_running s') \<subseteq> insert (aid (pr_pid p)) (fst ` set (sv_running s))"
    and "monitor_ok (events_of (pr_pid p) s @ es) p'" "alert_ok (events_of (pr_pid p) s @ es) p'" "writer_ok p'"
    and "running_ok (map_of (sv_running s') (aid (pr_pid p))) p'"
  shows "\<exists>p' es. own_step i p s p' es s'"
  using assms unfolding own_step_def proc_ok_def by blast

lemma map_dom_simps:
  "fst ` set (AList.update k v m) \<subseteq> insert k (fst ` set m)"
  "fst ` set (AList.delete k m) \<subseteq> insert k (fst ` set m)"
  "fst ` set m \<subseteq> insert k (fst ` set m)"
  using delete_dom [of k m] by (auto simp: update_dom)

lemma writer_ok_moves:
  "writer_ok p \<Longrightarrow> pr_writer p = WriterStarting \<Longrightarrow> writer_ok (p\<lparr>pr_writer := WriterOn\<rparr>)"
  "writer_ok p \<Longrightarrow> writer_ok (p\<lparr>pr_writer := WriterDone\<rparr>)"
  unfolding writer_ok_def by auto

lemma running_ok_moves:
  "running_ok r p \<Longrightarrow> past_remove (pr_monitor p) \<longrightarrow> past_remove m \<Longrightarrow> running_ok r (p\<lparr>pr_monitor := m\<rparr>)"
  "past_remove (pr_monitor p) \<Longrightarrow> running_ok None p"
  "running_ok (Some (pr_os_pid p)) (p\<lparr>pr_tracked := True\<rparr>)"
  unfolding running_ok_def by auto

lemma ok_frame:
  "monitor_ok es (p\<lparr>pr_tracked := b\<rparr>) = monitor_ok es p" "monitor_ok es (p\<lparr>pr_writer := w\<rparr>) = monitor_ok es p"
  "monitor_ok es (p\<lparr>pr_alert := al\<rparr>) = monitor_ok es p"
  "alert_ok es (p\<lparr>pr_tracked := b\<rparr>) = alert_ok es p" "alert_ok es (p\<lparr>pr_writer := w\<rparr>) = alert_ok es p"
  "alert_ok es (p\<lparr>pr_reader := rd\<rparr>) = alert_ok es p" "alert_ok es (p\<lparr>pr_monitor := m\<rparr>) = alert_ok es p"
  "alert_ok es (p\<lparr>pr_oneshot := b\<rparr>) = alert_ok es p"
  "running_ok r (p\<lparr>pr_writer := w\<rparr>) = running_ok r p" "running_ok r (p\<lparr>pr_reader := rd\<rparr>) = running_ok r p"
  "running_ok r (p\<lparr>pr_oneshot := b\<rparr>) = running_ok r p" "running_ok r (p\<lparr>pr_alert := al\<rparr>) = running_ok r p"
  by (simp_all add: monitor_ok_def alert_ok_def running_ok_def)

lemma ok_event:
  "\<not> is_final e \<Longrightarrow> monitor_ok (es @ [e]) p = monitor_ok es p"
  "is_final e \<Longrightarrow> alert_ok (es @ [e]) p = alert_ok es p"
  by (simp_all add: monitor_ok_def alert_ok_def)

lemma writer_recv_ok_frame:
  assumes "writer_recv n p = Some p'"
  shows "monitor_ok es p' = monitor_ok es p" "alert_ok es p' = alert_ok es p" "running_ok r p' = running_ok r p"
  using writer_recv_simps [OF assms] by (simp_all add: monitor_ok_def alert_ok_def running_ok_def)

lemmas step_simps = running_frame map_dom_simps writer_ok_frame writer_ok_moves running_ok_moves ok_frame ok_event proc_ok_def

lemma task_step_frame:
  assumes "task_step i a p s = Some s'" "p = sv_procs s ! i"
    and ok: "proc_ok (events_of (pr_pid p) s) (map_of (sv_running s) (aid (pr_pid p))) p"
  shows "\<exists>p' es. own_step i p s p' es s'"
proof -
  note pi = assms(2) [symmetric]
  show ?thesis
  proof (cases a)
    case Track
    then have s': "s' = upd_proc i (\<lambda>p. p\<lparr>pr_tracked := True\<rparr>) (s\<lparr>sv_running := AList.update (aid (pr_pid p)) (pr_os_pid p) (sv_running s)\<rparr>)" and "\<not> pr_tracked p"
      using assms(1) by (auto split: if_splits monitor_task.splits reader_task.splits)
    with ok show ?thesis
      by (intro own_stepI [where p' = "p\<lparr>pr_tracked := True\<rparr>" and es = "[]"])
        (simp_all add: pi step_simps)
  next
    case StdinInsert
    then have s': "s' = upd_proc i (\<lambda>p. p\<lparr>pr_writer := WriterOn\<rparr>) (s\<lparr>sv_stdins := AList.update (aid (pr_pid p)) i (sv_stdins s)\<rparr>)" and "pr_writer p = WriterStarting"
      using assms(1) by (auto split: if_splits monitor_task.splits reader_task.splits)
    with ok show ?thesis
      by (intro own_stepI [where p' = "p\<lparr>pr_writer := WriterOn\<rparr>" and es = "[]"])
        (simp_all add: pi step_simps)
  next
    case StdinRemove
    then have s': "s' = upd_proc i (\<lambda>p. p\<lparr>pr_writer := WriterDone\<rparr>) (s\<lparr>sv_stdins := AList.delete (aid (pr_pid p)) (sv_stdins s)\<rparr>)" and "pr_writer p = WriterClosing"
      using assms(1) by (auto split: if_splits monitor_task.splits reader_task.splits)
    with ok show ?thesis
      by (intro own_stepI [where p' = "p\<lparr>pr_writer := WriterDone\<rparr>" and es = "[]"])
        (simp_all add: pi step_simps)
  next
    case ReadEnd
    then have s': "s' = upd_proc i (\<lambda>q. q\<lparr>pr_reader := (if pr_reader p = ReadOut then ReadErr else ReadDone)\<rparr>) s" and "pr_reader p \<noteq> ReadDone"
      using assms(1) by (auto split: if_splits monitor_task.splits reader_task.splits)
    with ok show ?thesis
      by (intro own_stepI [where p' = "p\<lparr>pr_reader := (if pr_reader p = ReadOut then ReadErr else ReadDone)\<rparr>" and es = "[]"])
        (simp_all add: pi step_simps monitor_ok_def)
  next
    case (ChildExit r)
    then have s': "s' = upd_proc i (\<lambda>p. p\<lparr>pr_monitor := Joining r\<rparr>) s" and "pr_monitor p = Waiting"
      using assms(1) by (auto split: if_splits monitor_task.splits reader_task.splits)
    with ok show ?thesis
      by (intro own_stepI [where p' = "p\<lparr>pr_monitor := Joining r\<rparr>" and es = "[]"])
        (simp_all add: pi step_simps monitor_ok_def)
  next
    case Joined
    then obtain r where s': "s' = upd_proc i (\<lambda>p. p\<lparr>pr_monitor := Removing r\<rparr>) s" and "pr_monitor p = Joining r" and "pr_reader p = ReadDone"
      using assms(1) by (auto split: if_splits monitor_task.splits reader_task.splits)
    with ok show ?thesis
      by (intro own_stepI [where p' = "p\<lparr>pr_monitor := Removing r\<rparr>" and es = "[]"])
        (simp_all add: pi step_simps monitor_ok_def)
  next
    case Untrack
    then obtain r where s': "s' = upd_proc i (\<lambda>p. p\<lparr>pr_monitor := Signalling (completion_event (pr_pid p) r)\<rparr>) (s\<lparr>sv_running := AList.delete (aid (pr_pid p)) (sv_running s)\<rparr>)" and "pr_monitor p = Removing r"
      using assms(1) by (auto split: if_splits monitor_task.splits reader_task.splits)
    with ok show ?thesis
      by (intro own_stepI [where p' = "p\<lparr>pr_monitor := Signalling (completion_event (pr_pid p) r)\<rparr>" and es = "[]"])
        (simp_all add: pi step_simps monitor_ok_def)
  next
    case Signal
    then obtain r where s': "s' = upd_proc i (\<lambda>p. p\<lparr>pr_oneshot := pr_block p, pr_monitor := Sending r\<rparr>) s" and "pr_monitor p = Signalling r"
      using assms(1) by (auto split: if_splits monitor_task.splits reader_task.splits)
    with ok show ?thesis
      by (intro own_stepI [where p' = "p\<lparr>pr_oneshot := pr_block p, pr_monitor := Sending r\<rparr>" and es = "[]"])
        (simp_all add: pi step_simps monitor_ok_def)
  next
    case Send
    then obtain r where s': "s' = upd_proc i (\<lambda>p. p\<lparr>pr_monitor := Reported r\<rparr>) (s\<lparr>sv_events := sv_events s @ [r]\<rparr>)" and "pr_monitor p = Sending r"
      using assms(1) by (auto split: if_splits monitor_task.splits reader_task.splits)
    with ok show ?thesis
      by (intro own_stepI [where p' = "p\<lparr>pr_monitor := Reported r\<rparr>" and es = "[r]"])
        (simp_all add: pi step_simps monitor_ok_def)
  next
    case AlertCheck
    then have s': "s' = upd_proc i (\<lambda>p. p\<lparr>pr_alert := (if map_of (sv_running s) (aid (pr_pid p)) \<noteq> None then Found else Over)\<rparr>) s" and "pr_alert p = Sleeping"
      using assms(1) by (auto split: if_splits monitor_task.splits reader_task.splits)
    with ok show ?thesis
      by (intro own_stepI [where p' = "p\<lparr>pr_alert := (if map_of (sv_running s) (aid (pr_pid p)) \<noteq> None then Found else Over)\<rparr>" and es = "[]"])
        (simp_all add: pi step_simps alert_ok_def)
  next
    case AlertSend
    then have s': "s' = upd_proc i (\<lambda>p. p\<lparr>pr_alert := Over\<rparr>) (s\<lparr>sv_events := sv_events s @ [EvTimeout (pr_pid p)]\<rparr>)" and "pr_alert p = Found"
      using assms(1) by (auto split: if_splits monitor_task.splits reader_task.splits)
    with ok show ?thesis
      by (intro own_stepI [where p' = "p\<lparr>pr_alert := Over\<rparr>" and es = "[EvTimeout (pr_pid p)]"])
        (simp_all add: pi step_simps alert_ok_def)
  next
    case (StdinRecv n)
    then obtain p' where r: "writer_recv n p = Some p'" "pr_writer p = WriterOn"
      and s': "s' = upd_proc i (\<lambda>_. p') s"
      using assms(1) by (auto split: if_splits)
    have "writer_ok p'" using ok r by (auto simp: proc_ok_def intro: writer_recv_ok)
    with ok s' show ?thesis
      by (intro own_stepI [where p' = p' and es = "[]"])
        (simp_all add: pi step_simps writer_recv_simps [OF r(1)] writer_recv_ok_frame [OF r(1)])
  next
    case (ReadLine l)
    have "(sv_procs s)[i := p] = sv_procs s" using assms(2) by simp
    with ReadLine assms(1) ok show ?thesis
      by (intro own_stepI [where p' = p and es = "[]"])
        (auto simp: proc_ok_def map_dom_simps split: reader_task.splits)
  qed
qed

lemma sv_inv_upd:
  assumes "sv_inv s" "pr_pid (f (sv_procs s ! i)) = pr_pid (sv_procs s ! i)"
    and "\<And>es r. proc_ok es r (sv_procs s ! i) \<Longrightarrow> proc_ok es r (f (sv_procs s ! i))"
  shows "sv_inv (upd_proc i f s)"
proof (cases "i < length (sv_procs s)")
  case True
  then have "proc_ok (events_of (pr_pid (sv_procs s ! i)) s)
      (map_of (sv_running s) (aid (pr_pid (sv_procs s ! i)))) (sv_procs s ! i)"
    using assms(1) by (simp add: sv_inv_def)
  with True assms show ?thesis
    by (intro sv_inv_frame [OF assms(1) True refl, where p' = "f (sv_procs s ! i)" and es = "[]"])
      (simp_all add: map_dom_simps)
next
  case False
  then have "(sv_procs s)[i := f (sv_procs s ! i)] = sv_procs s" by (simp add: list_update_beyond)
  then have "upd_proc i f s = s" by (simp add: upd_proc_def)
  with assms show ?thesis by simp
qed

lemma sv_inv_other [simp]:
  "sv_inv (s\<lparr>sv_stdins := m\<rparr>) = sv_inv s" "sv_inv (s\<lparr>sv_killed := k\<rparr>) = sv_inv s"
  "sv_inv (s\<lparr>sv_output := out\<rparr>) = sv_inv s"
  by (simp_all add: sv_inv_def events_of_def)

lemma chan_send_ok: "proc_ok es r p \<Longrightarrow> proc_ok es r (chan_send m p)"
proof -
  have "monitor_ok es (chan_send m p) = monitor_ok es p" "alert_ok es (chan_send m p) = alert_ok es p"
    "running_ok r (chan_send m p) = running_ok r p"
    by (simp_all only: monitor_ok_def alert_ok_def running_ok_def chan_send_simps)
  then show "proc_ok es r p \<Longrightarrow> proc_ok es r (chan_send m p)"
    by (simp only: proc_ok_def writer_ok_send)
qed

lemma sv_inv_spawn:
  assumes inv: "sv_inv s" and new: "ps_id request \<notin> pr_pid ` set (sv_procs s)"
  shows "sv_inv (sv_spawn request os_pid s)"
proof -
  have "events_of (ps_id request) s = []"
    using inv new unfolding sv_inv_def events_of_def filter_empty_conv by metis
  moreover have r: "aid (ps_id request) \<notin> fst ` set (sv_running s)"
  proof
    assume "aid (ps_id request) \<in> fst ` set (sv_running s)"
    then have "aid (ps_id request) \<in> aid ` pr_pid ` set (sv_procs s)" using inv by (auto simp: sv_inv_def)
    with new show False by (auto dest: agent_id.expand)
  qed
  moreover obtain p where p: "sv_procs (sv_spawn request os_pid s) = sv_procs s @ [p]" "pr_pid p = ps_id request"
      "proc_ok [] None p"
    by (simp add: sv_spawn_def ok_defs writer_ok_def accepted_def)
  ultimately have "proc_ok (events_of (pr_pid p) s) (map_of (sv_running s) (aid (pr_pid p))) p"
    by (simp add: map_of_eq_None_iff [THEN iffD2])
  moreover have "sv_events (sv_spawn request os_pid s) = sv_events s" "sv_running (sv_spawn request os_pid s) = sv_running s"
    by (simp_all add: sv_spawn_def)
  ultimately show ?thesis
    using inv new p unfolding sv_inv_def events_of_def by (auto simp del: proc_ok_def)
qed

lemma sv_inv_task:
  assumes inv: "sv_inv s" and i: "i < length (sv_procs s)" and st: "task_step i a (sv_procs s ! i) s = Some s'"
  shows "sv_inv s'"
proof -
  let ?p = "sv_procs s ! i"
  have "proc_ok (events_of (pr_pid ?p) s) (map_of (sv_running s) (aid (pr_pid ?p))) ?p"
    using inv i by (simp add: sv_inv_def)
  from task_step_frame [OF st refl this] obtain p' es where "own_step i ?p s p' es s'" by blast
  then show ?thesis
    unfolding own_step_def by (intro sv_inv_frame [OF inv i refl, where p' = p' and es = es]) simp_all
qed

lemma sv_inv_act: "sv_act a s = Some s' \<Longrightarrow> fresh a s \<Longrightarrow> sv_inv s \<Longrightarrow> sv_inv s'"
  by (cases a)
    (auto simp: send_stdin_def close_stdin_def sv_kill_def chan_send_ok sv_inv_spawn
      split: option.splits if_splits intro: sv_inv_task sv_inv_upd)

lemma sv_inv_reachable: "sv_reachable s \<Longrightarrow> sv_inv s"
proof (induction rule: sv_reachable.induct)
  case reach_new
  then show ?case by (simp add: sv_new_def sv_inv_def)
next
  case (reach_step s s')
  then show ?case by (auto elim!: sv_stepE dest: sv_inv_act)
qed

lemma sv_run_reachable:
  "sv_run as s = Some s' \<Longrightarrow> sv_reachable s \<Longrightarrow>
     (\<And>k t. k < length as \<Longrightarrow> sv_run (take k as) s = Some t \<Longrightarrow> fresh (as ! k) t) \<Longrightarrow> sv_reachable s'"
proof (induction as arbitrary: s)
  case Nil
  then show ?case by simp
next
  case (Cons a as)
  then obtain t where t: "sv_act a s = Some t" "sv_run as t = Some s'" by (auto split: option.splits)
  have "fresh a s" using Cons.prems(3) [of 0 s] by simp
  then have "sv_reachable t" using t Cons.prems(2) by (blast intro: reach_step sv_step)
  moreover have "fresh (as ! k) u" if "k < length as" "sv_run (take k as) t = Some u" for k u
    using Cons.prems(3) [of "Suc k" u] that t by simp
  ultimately show ?case using Cons.IH t by blast
qed

lemma filter_set_one:
  assumes "filter P xs = [y]" "x \<in> set xs" "P x"
  shows "x = y"
proof -
  have "x \<in> set (filter P xs)" using assms(2,3) by simp
  then show ?thesis by (simp add: assms(1))
qed

lemma task_step_stdins:
  assumes "Some s' = task_step i a p s"
  shows "fst ` set (sv_stdins s') \<subseteq> insert (aid (pr_pid p)) (fst ` set (sv_stdins s))"
proof (cases "sv_stdins s' = sv_stdins s")
  case True
  then show ?thesis by (simp add: map_dom_simps)
next
  case False
  then have "a = StdinInsert \<or> a = StdinRemove"
    using assms by (cases a) (auto simp: map_option_case split: if_splits reader_task.splits monitor_task.splits option.splits)
  then show ?thesis using assms by (elim disjE) (simp_all add: map_dom_simps split: if_splits)
qed

lemma upd_proc_pids:
  assumes "pr_pid (f (sv_procs s ! i)) = pr_pid (sv_procs s ! i)"
  shows "map pr_pid (sv_procs (upd_proc i f s)) = map pr_pid (sv_procs s)"
  using assms
  by (cases "i < length (sv_procs s)")
    (simp_all add: map_update list_update_same_conv list_update_beyond)

lemma task_step_pids:
  "task_step i a (sv_procs s ! i) s = Some s' \<Longrightarrow> map pr_pid (sv_procs s') = map pr_pid (sv_procs s)"
  by (cases a)
    (auto simp: upd_proc_pids writer_recv_simps simp del: upd_proc_simps(1)
      split: if_splits reader_task.splits monitor_task.splits)

lemma stdins_known: "sv_reachable s \<Longrightarrow> fst ` set (sv_stdins s) \<subseteq> aid ` pr_pid ` set (sv_procs s)"
proof (induction rule: sv_reachable.induct)
  case reach_new
  then show ?case by (simp add: sv_new_def)
next
  case (reach_step s s')
  obtain a where a: "sv_act a s = Some s'" "fresh a s" using reach_step.hyps(2) by (auto elim: sv_stepE)
  have upd: "pr_pid ` set (sv_procs (upd_proc i (chan_send m) t)) = pr_pid ` set (sv_procs t)" for i m t
    using arg_cong [OF upd_proc_pids [of "chan_send m" t i], of set] by (simp del: upd_proc_simps(1))
  show ?case
  proof (cases a)
    case (Task i b)
    then have t: "i < length (sv_procs s)" "task_step i b (sv_procs s ! i) s = Some s'"
      using a by (auto split: if_splits)
    have same: "pr_pid ` set (sv_procs s') = pr_pid ` set (sv_procs s)"
      using arg_cong [OF task_step_pids [OF t(2)], of set] by simp
    have "insert (aid (pr_pid (sv_procs s ! i))) (fst ` set (sv_stdins s)) \<subseteq> aid ` pr_pid ` set (sv_procs s)"
      using t(1) reach_step.IH by simp
    then show ?thesis unfolding same by (rule order_trans [OF task_step_stdins [OF t(2) [symmetric]]])
  next
    case (Spawn request os_pid)
    then have "s' = sv_spawn request os_pid s" using a by simp
    with reach_step.IH show ?thesis by (simp add: sv_spawn_def subset_insertI2)
  next
    case (SendStdin pid data)
    then have "s' = send_stdin pid data s" using a by simp
    with reach_step.IH show ?thesis by (simp add: send_stdin_def upd del: upd_proc_simps(1) split: option.splits)
  next
    case (CloseStdin pid)
    then have "s' = close_stdin pid s" using a by simp
    with reach_step.IH delete_dom [of pid "sv_stdins s"] show ?thesis
      by (simp add: close_stdin_def upd del: upd_proc_simps(1) split: option.splits)
  next
    case (Kill pid)
    then have "s' = sv_kill pid s" using a by simp
    with reach_step.IH show ?thesis by (simp add: sv_kill_def split: option.splits)
  qed
qed

section \<open>Properties\<close>

text \<open>C1: in every interleaving of the tasks a spawned process is reported at most once: when
  its completion or failure has been sent, that is the only one, all of its output has been
  recorded before (no further line can be), the caller waiting on \<open>block_for\<close> has been
  released, and at most one timeout alert was ever sent for it.\<close>

theorem completion_reported_once:
  assumes "sv_reachable s" "i < length (sv_procs s)" "p = sv_procs s ! i"
    and "ev \<in> set (sv_events s)" "is_final ev" "ev_pid ev = pr_pid p"
  shows "filter (\<lambda>e. is_final e \<and> ev_pid e = pr_pid p) (sv_events s) = [ev] \<and>
     sv_act (Task i (ReadLine line)) s = None \<and> pr_oneshot p = pr_block p \<and>
     length (filter (\<lambda>e. e = EvTimeout (pr_pid p)) (sv_events s)) \<le> 1"
proof -
  have ok: "monitor_ok (events_of (pr_pid p) s) p" "alert_ok (events_of (pr_pid p) s) p"
    using sv_inv_reachable [OF assms(1)] assms(2,3) by (simp_all add: sv_inv_def proc_ok_def)
  have f: "filter is_final (events_of (pr_pid p) s) = filter (\<lambda>e. is_final e \<and> ev_pid e = pr_pid p) (sv_events s)"
    by (simp add: events_of_def conj_commute)
  with assms(4-6) have "filter is_final (events_of (pr_pid p) s) \<noteq> []" by (auto simp: filter_empty_conv)
  then obtain ev' where r: "pr_monitor p = Reported ev'"
    and "filter is_final (events_of (pr_pid p) s) = [ev']"
    using ok(1) by (auto simp: monitor_ok_def split: monitor_task.splits)
  moreover from this have "ev = ev'" using f assms(4-6) by (metis (mono_tags, lifting) filter_set_one)
  moreover have "filter (\<lambda>e. e = EvTimeout (pr_pid p)) (sv_events s) = filter (\<lambda>e. \<not> is_final e) (events_of (pr_pid p) s)"
    unfolding events_of_def filter_filter by (intro filter_cong refl) (auto elim: is_final.elims)
  ultimately show ?thesis
    using ok f assms(2,3) by (auto simp: monitor_ok_def alert_ok_def)
qed

definition sample_request :: process_start_request where
  "sample_request =
     \<lparr>ps_id = AgentId ''0000'', ps_cmd = ''true'', ps_args = [], ps_env = [], ps_description = [],
      ps_alert_timer_secs = 300, ps_fail_prio = 5, ps_block_for_ms = Some 1000, ps_interactive = True\<rparr>"

definition sample_run :: "sv_action list" where
  "sample_run = Spawn sample_request 77 # map (Task 0)
     [ReadLine ''hi'', ReadEnd, ReadEnd, ChildExit (Exited (Some 0)), Joined, Untrack, Signal, Send]"

text \<open>The run above with the tracking task scheduled last.\<close>

definition late_run :: "sv_action list" where
  "late_run = sample_run @ map (Task 0) [Track, AlertCheck, AlertSend]"

lemma sample_run_result:
  "sv_run sample_run sv_new = Some
     \<lparr>sv_events = [EvCompleted (AgentId ''0000'') 0], sv_running = [], sv_stdins = [],
      sv_procs = [\<lparr>pr_pid = AgentId ''0000'', pr_os_pid = 77, pr_tracked = False, pr_block = True,
        pr_oneshot = True, pr_writer = WriterStarting, pr_chan = [], pr_recv = 0, pr_stdin = [],
        pr_reader = ReadDone, pr_monitor = Reported (EvCompleted (AgentId ''0000'') 0), pr_alert = Sleeping\<rparr>],
      sv_output = [(''0000'', ''hi'' @ [nl])], sv_killed = []\<rparr>"
  by (simp add: sample_run_def sample_request_def sv_new_def sv_spawn_def upd_proc_def completion_event_def)

lemma sample_run_reachable:
  assumes "sv_run as s0 = Some s" "sv_reachable s0" "\<forall>a \<in> set as. \<forall>rq os. a \<noteq> Spawn rq os"
  shows "sv_reachable s"
proof (rule sv_run_reachable [OF assms(1,2)])
  fix k t
  assume "k < length as"
  then have "as ! k \<in> set as" by simp
  with assms(3) show "fresh (as ! k) t" by (cases "as ! k") auto
qed

lemma spawned_reachable: "sv_reachable (sv_spawn sample_request 77 sv_new)"
  by (rule reach_step [OF reach_new], rule sv_step [of "Spawn sample_request 77"]) (simp_all add: sv_new_def)

theorem completion_reported_once_witness:
  "\<exists>s. sv_run sample_run sv_new = Some s \<and>
     filter (\<lambda>e. is_final e \<and> ev_pid e = AgentId ''0000'') (sv_events s) = [EvCompleted (AgentId ''0000'') 0]"
proof -
  obtain s where s: "sv_run sample_run sv_new = Some s" using sample_run_result by blast
  then have "sv_run (tl sample_run) (sv_spawn sample_request 77 sv_new) = Some s" by (simp add: sample_run_def)
  then have "sv_reachable s"
    by (rule sample_run_reachable [OF _ spawned_reachable]) (auto simp: sample_run_def)
  moreover have p: "length (sv_procs s) = 1" "pr_pid (sv_procs s ! 0) = AgentId ''0000''"
      "sv_events s = [EvCompleted (AgentId ''0000'') 0]"
    using s sample_run_result by auto
  ultimately have "filter (\<lambda>e. is_final e \<and> ev_pid e = pr_pid (sv_procs s ! 0)) (sv_events s) = [EvCompleted (AgentId ''0000'') 0]"
    by (intro conjunct1 [OF completion_reported_once [OF _ _ refl]]) simp_all
  then show ?thesis using s unfolding p(2) by blast
qed

text \<open>From the moment its tracking task has run until its completion is being reported, a
  spawned process is registered under its own OS process id, so a kill in that time reaches
  exactly that process; a process that is not registered is never killed.\<close>

theorem kill_reaches_running:
  assumes "sv_reachable s" "p \<in> set (sv_procs s)"
  shows "(sv_killed (sv_kill (aid (pr_pid p)) s) = sv_killed s \<or>
       sv_killed (sv_kill (aid (pr_pid p)) s) = sv_killed s @ [pr_os_pid p]) \<and>
     (pr_tracked p \<and> \<not> past_remove (pr_monitor p) \<longrightarrow>
       sv_killed (sv_kill (aid (pr_pid p)) s) = sv_killed s @ [pr_os_pid p])"
proof -
  have "running_ok (map_of (sv_running s) (aid (pr_pid p))) p"
    using sv_inv_reachable [OF assms(1)] assms(2) by (simp add: sv_inv_def proc_ok_def)
  then show ?thesis
    by (cases "map_of (sv_running s) (aid (pr_pid p))") (simp_all add: running_ok_def sv_kill_def)
qed

theorem kill_reaches_running_witness:
  "\<exists>s. sv_run [Spawn sample_request 77, Task 0 Track] sv_new = Some s \<and>
     sv_killed (sv_kill ''0000'' s) = [77]"
proof -
  obtain s where s: "sv_run [Spawn sample_request 77, Task 0 Track] sv_new = Some s"
    and p: "sv_procs s = [hd (sv_procs s)]" "pr_pid (hd (sv_procs s)) = AgentId ''0000''" "pr_os_pid (hd (sv_procs s)) = 77"
      "pr_tracked (hd (sv_procs s))" "pr_monitor (hd (sv_procs s)) = Waiting" "sv_killed s = []"
    by (simp add: sample_request_def sv_new_def sv_spawn_def upd_proc_def)
  then have "sv_run [Task 0 Track] (sv_spawn sample_request 77 sv_new) = Some s" by simp
  then have "sv_reachable s"
    by (rule sample_run_reachable [OF _ spawned_reachable]) auto
  moreover have "hd (sv_procs s) \<in> set (sv_procs s)" using p(1) by (metis list.set_intros(1))
  ultimately show ?thesis using kill_reaches_running [of s "hd (sv_procs s)"] s p by auto
qed

text \<open>What the child reads from its pipe is, in order and without gaps, a prefix of the
  bytes queued for it before the first close.\<close>

theorem stdin_in_order:
  assumes "sv_reachable s" "p \<in> set (sv_procs s)"
  shows "\<exists>rest. accepted (pr_chan p) = pr_stdin p @ rest"
  using sv_inv_reachable [OF assms(1)] assms(2) by (auto simp: sv_inv_def proc_ok_def writer_ok_def)

theorem stdin_in_order_witness:
  "\<exists>s. sv_run [Spawn sample_request 77, Task 0 StdinInsert, SendStdin ''0000'' ''ab'', CloseStdin ''0000'',
       Task 0 (StdinRecv 1)] sv_new = Some s \<and> (\<exists>rest. ''ab'' = ''a'' @ rest) \<and>
     pr_stdin (hd (sv_procs s)) = ''a''"
proof -
  obtain s where s: "sv_run [Spawn sample_request 77, Task 0 StdinInsert, SendStdin ''0000'' ''ab'', CloseStdin ''0000'',
       Task 0 (StdinRecv 1)] sv_new = Some s"
    and p: "sv_procs s = [hd (sv_procs s)]" "pr_chan (hd (sv_procs s)) = [Some ''ab'', None]" "pr_stdin (hd (sv_procs s)) = ''a''"
    by (simp add: sample_request_def sv_new_def sv_spawn_def upd_proc_def send_stdin_def close_stdin_def chan_send_def
        writer_recv_def)
  then have "sv_run [Task 0 StdinInsert, SendStdin ''0000'' ''ab'', CloseStdin ''0000'',
       Task 0 (StdinRecv 1)] (sv_spawn sample_request 77 sv_new) = Some s" by simp
  then have "sv_reachable s"
    by (rule sample_run_reachable [OF _ spawned_reachable]) auto
  moreover have "hd (sv_procs s) \<in> set (sv_procs s)" using p(1) by (metis list.set_intros(1))
  ultimately show ?thesis using stdin_in_order [of s "hd (sv_procs s)"] s p by (auto simp: accepted_def)
qed

text \<open>A process is registered by a task of its own, so an operation issued right after
  \<open>spawn\<close> returns, before that task has run, is lost: the kill kills nothing and the bytes
  and the end of file for its stdin go nowhere.\<close>

theorem early_operations_lost:
  assumes "sv_reachable s" "ps_id request \<notin> pr_pid ` set (sv_procs s)"
  shows "sv_kill (aid (ps_id request)) (sv_spawn request os_pid s) = sv_spawn request os_pid s \<and>
     send_stdin (aid (ps_id request)) data (sv_spawn request os_pid s) = sv_spawn request os_pid s \<and>
     close_stdin (aid (ps_id request)) (sv_spawn request os_pid s) = sv_spawn request os_pid s"
proof -
  have new: "aid (ps_id request) \<notin> aid ` pr_pid ` set (sv_procs s)"
    using assms(2) by (auto dest: agent_id.expand)
  have "fst ` set (sv_running s) \<subseteq> aid ` pr_pid ` set (sv_procs s)"
    using sv_inv_reachable [OF assms(1)] by (simp add: sv_inv_def)
  with new have "map_of (sv_running s) (aid (ps_id request)) = None"
    by (auto simp: map_of_eq_None_iff)
  moreover have "map_of (sv_stdins s) (aid (ps_id request)) = None"
    using new stdins_known [OF assms(1)] by (auto simp: map_of_eq_None_iff)
  moreover have "sv_running (sv_spawn request os_pid s) = sv_running s" "sv_stdins (sv_spawn request os_pid s) = sv_stdins s"
    by (simp_all add: sv_spawn_def)
  ultimately show ?thesis by (simp add: sv_kill_def send_stdin_def close_stdin_def)
qed

theorem early_operations_lost_witness:
  "sv_kill ''0000'' (sv_spawn sample_request 77 sv_new) = sv_spawn sample_request 77 sv_new"
  using early_operations_lost [OF reach_new, of sample_request 77]
  by (simp add: sample_request_def sv_new_def)

text \<open>The tracking task may also run after the process has been reported. Its entry then
  stays for good: a run exists in which the process completed, its completion was sent, and
  afterwards a timeout alert was sent for it and a kill signals the OS process id the system
  may have given to another process by then.\<close>

theorem late_tracking_stale:
  "\<exists>s. sv_reachable s \<and>
     sv_events s = [EvCompleted (AgentId ''0000'') 0, EvTimeout (AgentId ''0000'')] \<and>
     sv_killed (sv_kill ''0000'' s) = [77]"
proof -
  obtain s where s: "sv_run late_run sv_new = Some s"
    and r: "sv_events s = [EvCompleted (AgentId ''0000'') 0, EvTimeout (AgentId ''0000'')]"
      "sv_killed (sv_kill ''0000'' s) = [77]"
    by (simp add: late_run_def sample_run_def sample_request_def sv_new_def sv_spawn_def upd_proc_def
        completion_event_def sv_kill_def)
  then have "sv_run (tl late_run) (sv_spawn sample_request 77 sv_new) = Some s"
    by (simp add: late_run_def sample_run_def)
  then have "sv_reachable s"
    by (rule sample_run_reachable [OF _ spawned_reachable]) (auto simp: late_run_def sample_run_def)
  with r show ?thesis by blast
qed

end
