(* ===== verification/Registry.thy ===== *)
theory Registry
  imports Processes Rust_Str
begin

text \<open>
  Agents by name: \<open>AgentName\<close>, \<open>AgentPermissions\<close>, \<open>AgentRegistry\<close> and
  its dashboard snapshots (src/src/types.rs), and the events an agent's channel carries
  (\<open>HarnessEvent\<close> of src/src/core_loop.rs). A channel sender is the number of its
  channel; an operation that sends returns what it sent with the channel it used.
\<close>

section \<open>Events\<close>

datatype harness_event =
    HEUserMessage string string string "string list" "string option"
      \<comment> \<open>chat\_id, user, content, attachments, message\_ref\<close>
  | HEProcess process_event
  | HEChildCompleted string "(string, json) hmap" u32 bool string u8 nat nat nat nat
      \<comment> \<open>child\_name, result, turns\_used, success, summary, priority and the child's
          input, output, cache creation and cache read tokens\<close>
  | HEAgentMessage string string u8 \<comment> \<open>from, content, priority\<close>
  | HEExternalEvent string string json u8 \<comment> \<open>source, event\_type, data, priority\<close>
  | HEKillSignal

section \<open>Names and permissions\<close>

datatype agent_name = Root | Child string

definition new_child :: "string \<Rightarrow> string + agent_name" where
  "new_child name =
     (if name = [] then Inl ''agent name cannot be empty''
      else if name = ''root'' then Inl (quoted ''root'' @ '' is a reserved agent name'')
      else Inr (Child name))"

fun is_root :: "agent_name \<Rightarrow> bool" where
  "is_root Root = True"
| "is_root (Child s) = False"

fun name_str :: "agent_name \<Rightarrow> string" where
  "name_str Root = ''root''"
| "name_str (Child s) = s"

record agent_permissions =
  can_compact :: bool
  max_turns :: "u32 option"
  child_depth_remaining :: u32
  agent_name :: agent_name
  lineage :: "string list"

text \<open>A name made with \<open>new_child\<close> never passes for the root agent.\<close>

lemma new_child_not_root: "new_child s = Inr n \<Longrightarrow> \<not> is_root n \<and> name_str n = s \<and> name_str n \<noteq> ''root''"
  by (auto simp: new_child_def split: if_splits)

section \<open>Snapshots\<close>

record work_item_summary =
  ws_id :: string
  ws_priority :: u8
  ws_item_type :: string
  ws_preview :: string

record history_summary =
  hs_id :: string
  hs_time :: string
  hs_kind :: string
  hs_code :: string
  hs_output :: string
  hs_is_error :: bool

record memory_entry =
  me_key :: string
  me_priority :: u8
  me_value :: string
  me_value_len :: nat
  me_sensitive :: bool

record timer_summary =
  ts_id :: string
  ts_description :: string
  ts_next_fire :: string
  ts_recurring :: bool

record process_summary =
  prs_id :: string
  prs_cmd :: string
  prs_description :: string
  prs_status :: string

record usage_summary =
  us_input_tokens :: nat
  us_output_tokens :: nat
  us_cache_read :: nat
  us_cache_write :: nat
  us_cost_usd :: f64
  us_cache_hit_pct :: u8

text \<open>\<open>HookStats\<close>: how often a hook fired since the agent's last wake, and what it did.\<close>

record hook_stats =
  hk_fired :: nat
  hk_consumed :: nat
  hk_passed :: nat
  hk_raised :: nat

record agent_snapshot =
  as_name :: string
  as_lineage :: string
  as_turn :: u32
  as_max_turns :: "u32 option"
  as_status :: string
  as_queue :: "work_item_summary list"
  as_history_len :: nat
  as_history_tail :: "history_summary list"
  as_memory :: "memory_entry list"
  as_timers :: "timer_summary list"
  as_processes :: "process_summary list"
  as_hooks :: "(string \<times> int \<times> string) list"
  as_hook_stats :: "(string, hook_stats) hmap"
  as_last_usage :: "usage_summary option"
  as_updated_at :: string

section \<open>The registry\<close>

record agent_entry =
  ae_event_tx :: nat
  ae_completed :: bool

record agent_registry =
  ar_agents :: "(string, agent_entry) hmap"
  ar_snapshots :: "(string, agent_snapshot) hmap"

definition ar_new :: agent_registry where
  "ar_new = \<lparr>ar_agents = [], ar_snapshots = []\<rparr>"

definition running_agent :: "agent_registry \<Rightarrow> string \<Rightarrow> bool" where
  "running_agent r name =
     (case map_of (ar_agents r) name of Some existing \<Rightarrow> \<not> ae_completed existing | None \<Rightarrow> False)"

definition insert_agent :: "string \<Rightarrow> nat \<Rightarrow> agent_registry \<Rightarrow> agent_registry" where
  "insert_agent name event_tx r =
     r\<lparr>ar_agents := AList.update name \<lparr>ae_event_tx = event_tx, ae_completed = False\<rparr> (ar_agents r)\<rparr>"

definition ar_register :: "string \<Rightarrow> nat \<Rightarrow> agent_registry \<Rightarrow> (string + unit) \<times> agent_registry" where
  "ar_register name event_tx r =
     (if running_agent r name
      then (Inl (''Name '' @ quoted name @ '' is already in use by a running agent''), r)
      else (Inr (), insert_agent name event_tx r))"

text \<open>The names of the second loop: every name that occurred earlier in the batch.\<close>

fun batch_duplicates :: "string list \<Rightarrow> (string \<times> nat) list \<Rightarrow> string list" where
  "batch_duplicates seen [] = []"
| "batch_duplicates seen ((name, tx) # es) =
     (if name \<in> set seen
      then (name @ '' (duplicate in batch)'') # batch_duplicates seen es
      else batch_duplicates (name # seen) es)"

definition register_batch :: "(string \<times> nat) list \<Rightarrow> agent_registry \<Rightarrow> (string + unit) \<times> agent_registry" where
  "register_batch entries r =
     (let collisions = filter (running_agent r) (map fst entries) @ batch_duplicates [] entries
      in if collisions \<noteq> [] then (Inl (''Name collision: '' @ join '', '' collisions), r)
         else (Inr (), fold (\<lambda>(name, event_tx). insert_agent name event_tx) entries r))"

definition ar_deregister :: "string \<Rightarrow> agent_registry \<Rightarrow> agent_registry" where
  "ar_deregister name r =
     (case map_of (ar_agents r) name of
        Some entry \<Rightarrow> r\<lparr>ar_agents := AList.update name (entry\<lparr>ae_completed := True\<rparr>) (ar_agents r)\<rparr>
      | None \<Rightarrow> r)"

definition send_to ::
  "string \<Rightarrow> harness_event \<Rightarrow> agent_registry \<Rightarrow> (string + bool) \<times> (nat \<times> harness_event) list" where
  "send_to name event r =
     (case map_of (ar_agents r) name of
        Some entry \<Rightarrow> if ae_completed entry then (Inr False, []) else (Inr True, [(ae_event_tx entry, event)])
      | None \<Rightarrow> (Inl (''Agent '' @ quoted name @ '' not found (never registered)''), []))"

definition ar_exists :: "string \<Rightarrow> agent_registry \<Rightarrow> bool" where
  "ar_exists name r \<longleftrightarrow> map_of (ar_agents r) name \<noteq> None"

definition update_snapshot :: "agent_snapshot \<Rightarrow> agent_registry \<Rightarrow> agent_registry" where
  "update_snapshot snap r = r\<lparr>ar_snapshots := AList.update (as_name snap) snap (ar_snapshots r)\<rparr>"

definition set_status :: "string \<Rightarrow> string \<Rightarrow> string \<Rightarrow> agent_registry \<Rightarrow> agent_registry" where
  "set_status now_rfc3339 name status r =
     (case map_of (ar_snapshots r) name of
        Some s \<Rightarrow> r\<lparr>ar_snapshots :=
          AList.update name (s\<lparr>as_status := status, as_updated_at := now_rfc3339\<rparr>) (ar_snapshots r)\<rparr>
      | None \<Rightarrow> r)"

definition remove_snapshot :: "string \<Rightarrow> agent_registry \<Rightarrow> bool \<times> agent_registry" where
  "remove_snapshot name r =
     (map_of (ar_snapshots r) name \<noteq> None, r\<lparr>ar_snapshots := AList.delete name (ar_snapshots r)\<rparr>)"

definition terminal :: "string list" where
  "terminal = [''done'', ''shutdown'', ''killed'', ''max_turns'', ''channel_closed'']"

definition prune_terminal_snapshots :: "agent_registry \<Rightarrow> nat \<times> agent_registry" where
  "prune_terminal_snapshots r =
     (let kept = filter (\<lambda>(_, snap). as_status snap \<notin> set terminal) (ar_snapshots r)
      in (length (ar_snapshots r) - length kept, r\<lparr>ar_snapshots := kept\<rparr>))"

section \<open>Lemmas\<close>

lemma insert_agent_lookup [simp]:
  "map_of (ar_agents (insert_agent n tx r)) = (map_of (ar_agents r))(n \<mapsto> \<lparr>ae_event_tx = tx, ae_completed = False\<rparr>)"
  by (simp add: insert_agent_def update_conv')

lemma fold_insert_lookup:
  "map_of (ar_agents (fold (\<lambda>(n, tx). insert_agent n tx) es r)) =
     map_of (ar_agents r) ++ (\<lambda>n. map_option (\<lambda>tx. \<lparr>ae_event_tx = tx, ae_completed = False\<rparr>) (map_of (rev es) n))"
proof (induction es arbitrary: r)
  case Nil
  then show ?case by (simp add: map_add_def)
next
  case (Cons e es)
  then show ?case
    by (cases e) (auto simp: fun_eq_iff map_add_def split: option.splits)
qed

lemma map_of_rev_distinct: "distinct (map fst es) \<Longrightarrow> map_of (rev es) = map_of es"
  by (subst map_of_inject_set) (simp_all add: rev_map [symmetric])

lemma batch_duplicates_empty:
  "batch_duplicates seen es = [] \<longleftrightarrow> distinct (map fst es) \<and> set seen \<inter> fst ` set es = {}"
  by (induction seen es rule: batch_duplicates.induct) auto

lemma register_batch_ok_iff:
  "fst (register_batch es r) = Inr () \<longleftrightarrow>
     distinct (map fst es) \<and> (\<forall>n \<in> fst ` set es. \<not> running_agent r n)"
  by (auto simp: register_batch_def Let_def filter_empty_conv batch_duplicates_empty)

text \<open>The operations on agents, as a sequence of them reaches the registry.\<close>

datatype registry_op =
    Register string nat
  | RegisterBatch "(string \<times> nat) list"
  | Deregister string
  | UpdateSnapshot agent_snapshot
  | SetStatus string string string
  | RemoveSnapshot string
  | PruneTerminal

fun registry_step :: "registry_op \<Rightarrow> agent_registry \<Rightarrow> agent_registry" where
  "registry_step (Register n tx) r = snd (ar_register n tx r)"
| "registry_step (RegisterBatch es) r = snd (register_batch es r)"
| "registry_step (Deregister n) r = ar_deregister n r"
| "registry_step (UpdateSnapshot snap) r = update_snapshot snap r"
| "registry_step (SetStatus now n st) r = set_status now n st r"
| "registry_step (RemoveSnapshot n) r = snd (remove_snapshot n r)"
| "registry_step PruneTerminal r = snd (prune_terminal_snapshots r)"

text \<open>What a step does to the entry of one name.\<close>

lemma registry_step_entry:
  assumes "map_of (ar_agents r) n = Some e"
  shows "\<exists>e'. map_of (ar_agents (registry_step op r)) n = Some e' \<and>
     (\<not> ae_completed e \<longrightarrow> ae_event_tx e' = ae_event_tx e \<and> (op \<noteq> Deregister n \<longrightarrow> e' = e))"
proof (cases op)
  case (Register m tx)
  with assms show ?thesis
    by (auto simp: ar_register_def running_agent_def split: option.splits)
next
  case (RegisterBatch es)
  show ?thesis
  proof (cases "fst (register_batch es r) = Inr ()")
    case True
    then have ok: "distinct (map fst es)" "\<forall>m \<in> fst ` set es. \<not> running_agent r m"
      by (simp_all add: register_batch_ok_iff)
    from True have f: "snd (register_batch es r) = fold (\<lambda>(n, tx). insert_agent n tx) es r"
      by (auto simp: register_batch_def Let_def split: if_splits)
    have "map_of es n = None" if "\<not> ae_completed e"
      using ok(2) that assms by (auto simp: map_of_eq_None_iff running_agent_def)
    then show ?thesis
      using assms RegisterBatch
      by (cases "map_of es n", simp_all add: f fold_insert_lookup map_of_rev_distinct [OF ok(1)] map_add_def, blast)
  next
    case False
    then have "snd (register_batch es r) = r"
      by (auto simp: register_batch_def Let_def split: if_splits)
    with assms RegisterBatch show ?thesis by simp
  qed
next
  case (Deregister m)
  with assms show ?thesis by (auto simp: ar_deregister_def update_conv' split: option.splits)
qed (use assms in \<open>auto simp: update_snapshot_def set_status_def remove_snapshot_def prune_terminal_snapshots_def
    Let_def split: option.splits\<close>)

section \<open>Properties\<close>

text \<open>A batch is registered whole or not at all: it succeeds exactly when no name occurs
  twice in it and none belongs to a running agent; then every name leads to its channel and
  all other agents are as before, and otherwise nothing changes.\<close>

theorem register_batch_atomic:
  "(fst (register_batch es r) = Inr () \<longleftrightarrow> distinct (map fst es) \<and> (\<forall>n \<in> set (map fst es). \<not> running_agent r n)) \<and>
   (if fst (register_batch es r) = Inr ()
    then \<forall>n. map_of (ar_agents (snd (register_batch es r))) n =
      (case map_of es n of Some tx \<Rightarrow> Some \<lparr>ae_event_tx = tx, ae_completed = False\<rparr> | None \<Rightarrow> map_of (ar_agents r) n)
    else snd (register_batch es r) = r)"
proof (cases "fst (register_batch es r) = Inr ()")
  case True
  then have ok: "distinct (map fst es)" "\<forall>m \<in> fst ` set es. \<not> running_agent r m"
    by (simp_all add: register_batch_ok_iff)
  from True have "snd (register_batch es r) = fold (\<lambda>(n, tx). insert_agent n tx) es r"
    by (auto simp: register_batch_def Let_def split: if_splits)
  with True ok show ?thesis
    by (auto simp: fold_insert_lookup map_of_rev_distinct [OF ok(1)] map_add_def split: option.splits)
next
  case False
  then show ?thesis using register_batch_ok_iff [of es r]
    by (auto simp: register_batch_def Let_def split: if_splits)
qed

theorem register_batch_atomic_witness:
  "fst (register_batch [(''a'', 1), (''b'', 2)] ar_new) = Inr () \<and>
   map_of (ar_agents (snd (register_batch [(''a'', 1), (''b'', 2)] ar_new))) ''b'' = Some \<lparr>ae_event_tx = 2, ae_completed = False\<rparr>"
proof -
  have *: "fst (register_batch [(''a'', 1), (''b'', 2)] ar_new) = Inr ()"
    using register_batch_atomic [of "[(''a'', 1), (''b'', 2)]" ar_new] by (auto simp: running_agent_def ar_new_def)
  with register_batch_atomic [of "[(''a'', 1), (''b'', 2)]" ar_new] show ?thesis by (simp del: One_nat_def)
qed

text \<open>Through any sequence of operations a running agent keeps its channel until it is
  deregistered itself (no registration takes its name over), so a message to it goes to that
  channel; and a name that was ever registered never again gives "not found".\<close>

theorem running_agent_keeps_channel:
  assumes "map_of (ar_agents r) n = Some e"
  shows "(\<not> ae_completed e \<and> Deregister n \<notin> set ops \<longrightarrow>
      send_to n ev (fold registry_step ops r) = (Inr True, [(ae_event_tx e, ev)])) \<and>
    isl (fst (send_to n ev (fold registry_step ops r))) = False"
  using assms
proof (induction ops arbitrary: r e)
  case Nil
  then show ?case by (cases "ae_completed e") (auto simp: send_to_def)
next
  case (Cons op ops)
  obtain e' where e': "map_of (ar_agents (registry_step op r)) n = Some e'"
    "\<not> ae_completed e \<longrightarrow> ae_event_tx e' = ae_event_tx e \<and> (op \<noteq> Deregister n \<longrightarrow> e' = e)"
    using registry_step_entry [OF Cons.prems] by blast
  from Cons.IH [OF e'(1)] e'(2) show ?case by auto
qed

theorem running_agent_keeps_channel_witness:
  "send_to ''a'' HEKillSignal (fold registry_step [Register ''a'' 5, PruneTerminal] (insert_agent ''a'' 1 ar_new))
     = (Inr True, [(1, HEKillSignal)])"
  using running_agent_keeps_channel [of "insert_agent ''a'' 1 ar_new" "''a''"
      "\<lparr>ae_event_tx = 1, ae_completed = False\<rparr>" "[Register ''a'' 5, PruneTerminal]" HEKillSignal]
  by (simp add: ar_new_def)

end
