(* ===== verification/History.thy ===== *)
theory History
  imports Ids Keyed_Store
begin

text \<open>
  The event history (\<open>HistoryEntry\<close>, \<open>EventHistory\<close> of src/src/types.rs): the
  entries of the agent's past turns, the window of recent entries the agent may edit, and
  the geometric split points at which the renderer places its cache breakpoints.
  A panic (index out of range, overflow of \<open>usize::pow\<close>) is \<open>None\<close>.
\<close>

section \<open>Data\<close>

datatype history_entry =
    Execution agent_id time string string bool \<comment> \<open>id, time, code, output, is\_error\<close>
  | Summary agent_id time string \<comment> \<open>id, time, description\<close>
  | SystemAlert agent_id time string \<comment> \<open>id, time, message\<close>

fun he_id :: "history_entry \<Rightarrow> agent_id" where
  "he_id (Execution i t c out e) = i"
| "he_id (Summary i t d) = i"
| "he_id (SystemAlert i t m) = i"

fun he_time :: "history_entry \<Rightarrow> time" where
  "he_time (Execution i t c out e) = t"
| "he_time (Summary i t d) = t"
| "he_time (SystemAlert i t m) = t"

record event_history =
  eh_entries :: "history_entry list"
  modification_window :: nat

section \<open>Operations\<close>

definition eh_new :: event_history where
  "eh_new = \<lparr>eh_entries = [], modification_window = 5\<rparr>"

definition window_start :: "event_history \<Rightarrow> nat" where
  "window_start h = length (eh_entries h) - modification_window h"

definition modification_boundary :: "event_history \<Rightarrow> agent_id option option" where
  "modification_boundary h =
     (let len = length (eh_entries h)
      in if len = 0 then Some None
         else (let start = window_start h
               in if start < len then Some (Some (he_id (eh_entries h ! start))) else None))"

definition immutable_count :: "event_history \<Rightarrow> nat" where
  "immutable_count h = length (eh_entries h) - modification_window h"

definition usize_pow :: "nat \<Rightarrow> nat \<Rightarrow> nat option" where
  "usize_pow b e = (if b ^ e < 2 ^ 64 then Some (b ^ e) else None)"

definition cache_splits :: "event_history \<Rightarrow> nat \<Rightarrow> nat \<Rightarrow> nat list option" where
  "cache_splits h stride tiers =
     (let n = immutable_count h
      in if stride = 0 \<or> tiers = 0 then Some [n]
         else those (map (\<lambda>i. map_option (\<lambda>align. (n div align) * align) (usize_pow stride (tiers - i)))
                [0..<tiers]))"

definition is_modifiable :: "agent_id \<Rightarrow> event_history \<Rightarrow> bool" where
  "is_modifiable i h \<longleftrightarrow> list_ex (\<lambda>e. he_id e = i) (drop (window_start h) (eh_entries h))"

definition eh_push :: "history_entry \<Rightarrow> event_history \<Rightarrow> event_history" where
  "eh_push e h = h\<lparr>eh_entries := eh_entries h @ [e]\<rparr>"

definition eh_remove :: "agent_id \<Rightarrow> event_history \<Rightarrow> history_entry option \<times> event_history" where
  "eh_remove i h =
     (case position (\<lambda>e. he_id e = i) (eh_entries h) of
        Some pos \<Rightarrow> (Some (eh_entries h ! pos), h\<lparr>eh_entries := remove_at pos (eh_entries h)\<rparr>)
      | None \<Rightarrow> (None, h))"

definition replace_with_summary :: "agent_id \<Rightarrow> string \<Rightarrow> event_history \<Rightarrow> event_history" where
  "replace_with_summary i description h =
     h\<lparr>eh_entries :=
         update_first (\<lambda>e. he_id e = i) (\<lambda>e. Summary (he_id e) (he_time e) description) (eh_entries h)\<rparr>"

section \<open>Lemmas\<close>

interpretation eh: keyed_log eh_entries he_id eh_remove eh_push
  by unfold_locales
    (auto simp: eh_remove_def eh_push_def take_out_def split: option.splits)

lemma replace_with_summary_ids [simp]:
  "map he_id (eh_entries (replace_with_summary i d h)) = map he_id (eh_entries h)"
  "map he_time (eh_entries (replace_with_summary i d h)) = map he_time (eh_entries h)"
  "modification_window (replace_with_summary i d h) = modification_window h"
  by (auto simp: replace_with_summary_def intro!: map_update_first)

lemma those_eq_Some: "\<forall>x \<in> set xs. \<exists>y. f x = Some y \<Longrightarrow> those (map f xs) = Some (map (the \<circ> f) xs)"
  by (induction xs) auto

definition split_at :: "nat \<Rightarrow> nat \<Rightarrow> nat \<Rightarrow> nat" where
  "split_at n stride k = (n div stride ^ k) * stride ^ k"

lemma usize_pow_le: "stride ^ tiers < 2 ^ 64 \<Longrightarrow> 0 < stride \<Longrightarrow> k \<le> tiers \<Longrightarrow> usize_pow stride k = Some (stride ^ k)"
  unfolding usize_pow_def
  by (metis le_less_trans power_increasing Suc_leI One_nat_def)

lemma cache_splits_eq:
  assumes "0 < stride" "0 < tiers" "stride ^ tiers < 2 ^ 64"
  shows "cache_splits h stride tiers
    = Some (map (\<lambda>i. split_at (immutable_count h) stride (tiers - i)) [0..<tiers])"
proof -
  have p: "usize_pow stride (tiers - i) = Some (stride ^ (tiers - i))" for i
    using assms usize_pow_le by simp
  have "cache_splits h stride tiers =
      those (map (\<lambda>i. Some (split_at (immutable_count h) stride (tiers - i))) [0..<tiers])"
    using assms by (simp add: cache_splits_def Let_def p split_at_def)
  also have "\<dots> = Some (map (\<lambda>i. split_at (immutable_count h) stride (tiers - i)) [0..<tiers])"
    by (subst those_eq_Some) (auto simp: comp_def)
  finally show ?thesis .
qed

lemma split_at_le: "split_at n stride k \<le> n"
  by (simp add: split_at_def)

lemma split_at_mono_tier: "j \<le> k \<Longrightarrow> split_at n stride k \<le> split_at n stride j"
proof -
  assume "j \<le> k"
  then obtain d where k: "k = j + d" using le_Suc_ex by blast
  have "n div stride ^ k * stride ^ d \<le> n div stride ^ j"
    by (simp add: k power_add div_mult2_eq)
  then show ?thesis
    unfolding split_at_def k power_add by (metis mult.assoc mult.commute mult_le_mono1)
qed

lemma split_at_stable:
  assumes "n div stride ^ j = n' div stride ^ j" "j \<le> k"
  shows "split_at n stride k = split_at n' stride k"
proof -
  obtain d where k: "k = j + d" using assms(2) le_Suc_ex by blast
  have "n div stride ^ k = n' div stride ^ k"
    using assms(1) by (simp add: k power_add div_mult2_eq)
  then show ?thesis by (simp add: split_at_def)
qed

lemma split_at_gap: "0 < stride \<Longrightarrow> n - split_at n stride 1 < stride"
  by (simp add: split_at_def minus_div_mult_eq_mod)

lemma is_modifiable_iff:
  "is_modifiable i h \<longleftrightarrow> (\<exists>k. window_start h \<le> k \<and> k < length (eh_entries h) \<and> he_id (eh_entries h ! k) = i)"
proof -
  have "(\<exists>e \<in> set (drop m xs). P e) \<longleftrightarrow> (\<exists>k. m \<le> k \<and> k < length xs \<and> P (xs ! k))" for m P and xs :: "history_entry list"
  proof
    assume "\<exists>e \<in> set (drop m xs). P e"
    then obtain j where "j < length (drop m xs)" "P (drop m xs ! j)" by (auto simp: in_set_conv_nth)
    then show "\<exists>k. m \<le> k \<and> k < length xs \<and> P (xs ! k)" by (intro exI [of _ "m + j"]) auto
  next
    assume "\<exists>k. m \<le> k \<and> k < length xs \<and> P (xs ! k)"
    then obtain k where k: "m \<le> k" "k < length xs" "P (xs ! k)" by blast
    then have "xs ! k = drop m xs ! (k - m)" by simp
    with k show "\<exists>e \<in> set (drop m xs). P e" by (metis diff_less_mono length_drop nth_mem)
  qed
  then show ?thesis by (simp add: is_modifiable_def list_ex_iff)
qed

section \<open>Properties\<close>

text \<open>For any stride and number of tiers whose power fits a \<open>usize\<close> the split points
  exist, one per tier, in ascending order, each a multiple of its tier's alignment and inside
  the immutable part, and the hottest one leaves fewer than \<open>stride\<close> immutable entries
  uncached.\<close>

theorem cache_splits_geometry:
  assumes "0 < stride" "0 < tiers" "stride ^ tiers < 2 ^ 64"
  shows "\<exists>ss. cache_splits h stride tiers = Some ss \<and> length ss = tiers \<and> sorted ss \<and>
     (\<forall>i < tiers. ss ! i \<le> immutable_count h \<and> stride ^ (tiers - i) dvd ss ! i) \<and>
     immutable_count h - last ss < stride"
proof -
  let ?f = "\<lambda>i. split_at (immutable_count h) stride (tiers - i)"
  have s: "sorted (map ?f [0..<tiers])"
    by (auto simp: sorted_iff_nth_mono intro: split_at_mono_tier)
  obtain t where t: "tiers = Suc t" using assms(2) gr0_implies_Suc by blast
  have "last (map ?f [0..<tiers]) = split_at (immutable_count h) stride 1"
    by (simp add: t)
  then have g: "immutable_count h - last (map ?f [0..<tiers]) < stride"
    using split_at_gap [OF assms(1)] by simp
  have "stride ^ (tiers - i) dvd ?f i" for i by (simp add: split_at_def)
  with s g show ?thesis
    by (intro exI [of _ "map ?f [0..<tiers]"]) (simp add: cache_splits_eq [OF assms] split_at_le)
qed

theorem cache_splits_geometry_witness:
  "\<exists>ss. cache_splits (eh_new\<lparr>eh_entries := replicate 30 (Summary (AgentId ''0000'') 0 [])\<rparr>) 5 2 = Some ss
     \<and> length ss = 2 \<and> sorted ss"
  using cache_splits_geometry [of 5 2 "eh_new\<lparr>eh_entries := replicate 30 (Summary (AgentId ''0000'') 0 [])\<rparr>"]
  by auto

text \<open>While the immutable part stays within one period of a tier, the split point of that
  tier and of every colder one does not move (so the bytes before it can be served from the
  prompt cache).\<close>

theorem cache_splits_stable:
  assumes "0 < stride" "stride ^ tiers < 2 ^ 64" "i < tiers"
    and "immutable_count h div stride ^ (tiers - i) = immutable_count h' div stride ^ (tiers - i)"
  shows "\<exists>ss ss'. cache_splits h stride tiers = Some ss \<and> cache_splits h' stride tiers = Some ss' \<and>
     take (Suc i) ss = take (Suc i) ss'"
proof -
  have "0 < tiers" using assms(3) by simp
  moreover have "take (Suc i) (map (\<lambda>i. split_at (immutable_count h) stride (tiers - i)) [0..<tiers]) =
        take (Suc i) (map (\<lambda>i. split_at (immutable_count h') stride (tiers - i)) [0..<tiers])"
    using assms(3,4)
    by (auto simp: list_eq_iff_nth_eq intro!: split_at_stable [where j = "tiers - i"])
  ultimately show ?thesis using assms by (simp add: cache_splits_eq)
qed

theorem cache_splits_stable_witness:
  "\<exists>ss ss'. cache_splits (eh_new\<lparr>eh_entries := replicate 30 (Summary (AgentId ''0000'') 0 [])\<rparr>) 5 2 = Some ss
     \<and> cache_splits (eh_new\<lparr>eh_entries := replicate 34 (Summary (AgentId ''0000'') 0 [])\<rparr>) 5 2 = Some ss'
     \<and> take (Suc 1) ss = take (Suc 1) ss'"
  using cache_splits_stable [of 5 2 1
      "eh_new\<lparr>eh_entries := replicate 30 (Summary (AgentId ''0000'') 0 [])\<rparr>"
      "eh_new\<lparr>eh_entries := replicate 34 (Summary (AgentId ''0000'') 0 [])\<rparr>"]
  by (simp add: immutable_count_def eh_new_def del: One_nat_def)

text \<open>Outside compaction the agent can edit exactly the last \<open>modification_window\<close>
  entries: when ids are distinct, an entry before the window is not modifiable and every entry
  in it is, and turning an entry into a summary keeps the number, the ids and the times of
  all entries.\<close>

theorem edit_window:
  assumes "distinct (map he_id (eh_entries h))" "k < length (eh_entries h)"
  shows "(is_modifiable (he_id (eh_entries h ! k)) h \<longleftrightarrow> immutable_count h \<le> k) \<and>
     map he_id (eh_entries (replace_with_summary i d h)) = map he_id (eh_entries h) \<and>
     map he_time (eh_entries (replace_with_summary i d h)) = map he_time (eh_entries h)"
proof -
  have "j = k" if "j < length (eh_entries h)" "he_id (eh_entries h ! j) = he_id (eh_entries h ! k)" for j
    using that assms nth_eq_iff_index_eq [OF assms(1), of j k] by simp
  then have "is_modifiable (he_id (eh_entries h ! k)) h \<longleftrightarrow> immutable_count h \<le> k"
    using assms(2) by (auto simp: is_modifiable_iff window_start_def immutable_count_def)
  then show ?thesis by simp
qed

theorem edit_window_witness:
  "is_modifiable (AgentId ''0001'') (eh_new\<lparr>eh_entries := [Summary (AgentId ''0001'') 0 []]\<rparr>)"
  using edit_window [of "eh_new\<lparr>eh_entries := [Summary (AgentId ''0001'') 0 []]\<rparr>" 0]
  by (simp add: immutable_count_def eh_new_def)

end
