(* ===== verification/State.thy ===== *)
theory State
  imports Registry History
begin

text \<open>
  The state of an agent (\<open>HarnessState\<close>, \<open>Hook\<close>, \<open>RenderConfig\<close> of
  src/src/types.rs): what is persisted and what every turn renders, runs code on and
  commits.
\<close>

record hook =
  hook_name :: string
  hook_priority :: int
  match_expr :: string
  hook_process :: string
  hook_timeout_ms :: nat

type_synonym memory = "(string, json) hmap"

record harness_state =
  work_queue :: work_queue
  event_history :: event_history
  timer_manager :: timer_manager
  process_manager :: process_manager
  memory :: memory
  memory_priorities :: "(string, u8) hmap"
  sensitive_keys :: "string list" \<comment> \<open>a set\<close>
  last_harness_version :: "string option"
  hooks :: "hook list"
  hook_stats :: "(string, hook_stats) hmap"
  id_gen :: id_generator
  last_input_tokens :: nat
  last_total_input_tokens :: nat
  context_window :: nat
  max_tokens :: nat

definition hs_new :: "nat \<Rightarrow> nat \<Rightarrow> harness_state" where
  "hs_new window tokens =
     \<lparr>work_queue = wq_new, event_history = eh_new, timer_manager = tm_new, process_manager = pm_new,
      memory = [], memory_priorities = [], sensitive_keys = [], last_harness_version = None,
      hooks = [], hook_stats = [], id_gen = id_generator_new,
      last_input_tokens = 0, last_total_input_tokens = 0, context_window = window, max_tokens = tokens\<rparr>"

text \<open>The next id, drawn from the state's generator.\<close>

definition draw_id :: "harness_state \<Rightarrow> agent_id \<times> harness_state" where
  "draw_id s = (let (i, g) = next_id (id_gen s) in (i, s\<lparr>id_gen := g\<rparr>))"

definition push_queue :: "work_item \<Rightarrow> harness_state \<Rightarrow> harness_state" where
  "push_queue w s = s\<lparr>work_queue := wq_push w (work_queue s)\<rparr>"

definition push_history :: "history_entry \<Rightarrow> harness_state \<Rightarrow> harness_state" where
  "push_history e s = s\<lparr>event_history := eh_push e (event_history s)\<rparr>"

record render_config =
  cache_stride :: nat
  cache_tiers :: nat
  history_entry_max_chars :: nat
  history_entry_max_lines :: nat
  work_queue_content_limits :: "nat list"
  work_queue_default_limit :: nat
  work_queue_max_display :: nat
  agent_state_memory_max_display :: nat
  agent_state_memory_value_max_chars :: nat
  agent_state_timer_max_display :: nat
  agent_state_process_max_display :: nat

text \<open>The defaults; the first two arguments are the environment variables
  \<open>CLAUDE_SERVER_CACHE_STRIDE\<close> and \<open>CLAUDE_SERVER_CACHE_TIERS\<close>.\<close>

definition render_config_default :: "string option \<Rightarrow> string option \<Rightarrow> render_config" where
  "render_config_default stride_var tiers_var =
     \<lparr>cache_stride = (case Option.bind stride_var (parse_uint 64) of Some n \<Rightarrow> n | None \<Rightarrow> 5),
      cache_tiers = (case Option.bind tiers_var (parse_uint 64) of Some n \<Rightarrow> n | None \<Rightarrow> 2),
      history_entry_max_chars = 2000,
      history_entry_max_lines = 50,
      work_queue_content_limits = [500, 500, 500, 200, 200, 200, 200, 200, 200, 200],
      work_queue_default_limit = 80,
      work_queue_max_display = 20,
      agent_state_memory_max_display = 20,
      agent_state_memory_value_max_chars = 120,
      agent_state_timer_max_display = 20,
      agent_state_process_max_display = 10\<rparr>"

section \<open>What is stored\<close>

text \<open>The state is stored as JSON. Everything goes through derived code but the durations, which
  \<open>duration_secs\<close> and \<open>option_duration_secs\<close> write as whole seconds.\<close>

definition secs_only :: "nat \<Rightarrow> nat" where
  "secs_only d = d div 1000000000 * 1000000000"

fun stored_schedule :: "timer_schedule \<Rightarrow> timer_schedule" where
  "stored_schedule (OneShot at) = OneShot at"
| "stored_schedule (Recurring every next_fire) = Recurring (secs_only every) next_fire"

fun stored_type :: "work_item_type \<Rightarrow> work_item_type" where
  "stored_type (TimerFired i every d) = TimerFired i (map_option secs_only every) d"
| "stored_type ty = ty"

definition stored_state :: "harness_state \<Rightarrow> harness_state" where
  "stored_state s = s\<lparr>
     timer_manager := \<lparr>tm_timers = map (\<lambda>t. t\<lparr>t_schedule := stored_schedule (t_schedule t)\<rparr>) (tm_timers (timer_manager s))\<rparr>,
     work_queue := \<lparr>wq_items = map (\<lambda>w. w\<lparr>wi_type := stored_type (wi_type w)\<rparr>) (wq_items (work_queue s))\<rparr>\<rparr>"

text \<open>Where all intervals are whole seconds nothing is lost.\<close>

definition whole_timers :: "timer_manager \<Rightarrow> bool" where
  "whole_timers m \<longleftrightarrow> (\<forall>t \<in> set (tm_timers m). stored_schedule (t_schedule t) = t_schedule t)"

definition whole_queue :: "work_queue \<Rightarrow> bool" where
  "whole_queue q \<longleftrightarrow> (\<forall>w \<in> set (wq_items q). stored_type (wi_type w) = wi_type w)"

lemma stored_state_id: "whole_timers (timer_manager s) \<Longrightarrow> whole_queue (work_queue s) \<Longrightarrow> stored_state s = s"
  by (simp add: stored_state_def whole_timers_def whole_queue_def map_idI)

lemma whole_new [simp]: "whole_timers tm_new" "whole_queue wq_new" "whole_timers \<lparr>tm_timers = []\<rparr>" "whole_queue \<lparr>wq_items = []\<rparr>"
  by (simp_all add: whole_timers_def whole_queue_def tm_new_def wq_new_def)

lemma whole_queue_push: "whole_queue q \<Longrightarrow> stored_type (wi_type w) = wi_type w \<Longrightarrow> whole_queue (wq_push w q)"
  by (auto simp: whole_queue_def wq_push_def Let_def insert_at_def dest: in_set_takeD in_set_dropD)

lemma whole_queue_subset: "whole_queue q \<Longrightarrow> set (wq_items q') \<subseteq> set (wq_items q) \<Longrightarrow> whole_queue q'"
  by (auto simp: whole_queue_def)

lemma stored_fire_step:
  "\<lbrakk>fire_step now t g = (ws, rs, t', g'); stored_schedule (t_schedule t) = t_schedule t\<rbrakk> \<Longrightarrow>
     stored_schedule (t_schedule t') = t_schedule t' \<and> (\<forall>w \<in> set ws. stored_type (wi_type w) = wi_type w)"
  by (cases "t_schedule t") (auto simp: fire_step_def fired_item_def Let_def split: if_splits prod.splits)

lemma stored_fire_loop:
  "\<lbrakk>fire_loop now ts g = (ws, rs, ts', g'); \<forall>t \<in> set ts. stored_schedule (t_schedule t) = t_schedule t\<rbrakk> \<Longrightarrow>
     (\<forall>t \<in> set ts'. stored_schedule (t_schedule t) = t_schedule t) \<and> (\<forall>w \<in> set ws. stored_type (wi_type w) = wi_type w)"
proof (induction ts arbitrary: g ws rs ts' g')
  case (Cons t ts)
  obtain w1 r1 t1 g1 where 1: "fire_step now t g = (w1, r1, t1, g1)" by (cases "fire_step now t g") auto
  obtain w2 r2 ts2 g2 where 2: "fire_loop now ts g1 = (w2, r2, ts2, g2)" by (cases "fire_loop now ts g1") auto
  from 1 2 Cons.prems stored_fire_step [OF 1] Cons.IH [OF 2] show ?case by auto
qed auto

lemma whole_timers_cancel: "whole_timers m \<Longrightarrow> whole_timers (snd (tm_cancel i m))"
  using take_out_snd_set [of "\<lambda>t. t_id t = i" "tm_timers m"]
  by (auto simp: whole_timers_def tm_cancel_def take_out_def split: option.splits)

lemma whole_timers_fire:
  assumes "check_and_fire now g m = (ws, g', m')" "whole_timers m"
  shows "whole_timers m' \<and> (\<forall>w \<in> set ws. stored_type (wi_type w) = wi_type w)"
proof -
  obtain rs ts where f: "fire_loop now (tm_timers m) g = (ws, rs, ts, g')" and
    m': "m' = fold (\<lambda>i m. snd (tm_cancel i m)) rs (m\<lparr>tm_timers := ts\<rparr>)"
    using assms(1) by (auto simp: check_and_fire_def split: prod.splits)
  have "whole_timers n \<Longrightarrow> whole_timers (fold (\<lambda>i m. snd (tm_cancel i m)) rs n)" for n
    by (induction rs arbitrary: n) (auto intro: whole_timers_cancel)
  moreover have "whole_timers (m\<lparr>tm_timers := ts\<rparr>)" "\<forall>w \<in> set ws. stored_type (wi_type w) = wi_type w"
    using stored_fire_loop [OF f] assms(2) by (simp_all add: whole_timers_def)
  ultimately show ?thesis using m' by blast
qed

lemma whole_timers_acknowledge: "\<lbrakk>tm_acknowledge mx now i m = Some m'; whole_timers m\<rbrakk> \<Longrightarrow> whole_timers m'"
proof -
  assume *: "tm_acknowledge mx now i m = Some m'" "whole_timers m"
  have "t \<in> set (update_first P (\<lambda>t. t\<lparr>pending_ack := False, t_schedule := Recurring every nf\<rparr>) ts) \<Longrightarrow>
      t \<in> set ts \<or> t_schedule t = Recurring every nf" for P t every nf and ts :: "timer list"
    by (induction ts) (auto split: if_splits)
  moreover have "List.find P ts = Some t \<Longrightarrow> t \<in> set ts" for P and ts :: "timer list" and t
    by (auto simp: find_Some_iff)
  ultimately show ?thesis
    using * by (fastforce simp: tm_acknowledge_def whole_timers_def split: option.splits timer_schedule.splits)
qed

end
