(* ===== verification/Renderer.thy ===== *)
theory Renderer
  imports State "HOL-Library.Product_Lexorder" "HOL-Library.Monad_Syntax"
begin

text \<open>
  The context sent to the model (src/src/renderer.rs): the text of the history, the agent
  state, the metadata and the work queue, with its truncations, and its layout in cached
  segments. \<open>serde_json::to_string\<close>, the local time format, \<open>{:.4}\<close> of an
  \<open>f64\<close> and the clock come with the argument \<open>env\<close>. A panic (a slice out of
  range, an underflow) is \<open>None\<close>.
\<close>

record render_env =
  format_time :: "time \<Rightarrow> string"
  json_string :: "json \<Rightarrow> string option" \<comment> \<open>None: a serialization error\<close>
  fixed4 :: "f64 \<Rightarrow> string"
  clock :: time

definition quote2 :: "string \<Rightarrow> string" where
  "quote2 s = [dquote] @ s @ [dquote]"

definition line :: "string list \<Rightarrow> string" where
  "line parts = concat parts @ [nl]"

definition em_dash :: string where
  "em_dash = [CHR 0xE2, CHR 0x80, CHR 0x94]"

section \<open>Truncation\<close>

text \<open>The loop that moves the cut back to a char boundary (0 always is one).\<close>

fun snap_back :: "string \<Rightarrow> nat \<Rightarrow> nat" where
  "snap_back s 0 = 0"
| "snap_back s (Suc n) = (if is_char_boundary s (Suc n) then Suc n else snap_back s n)"

definition trunc :: "string \<Rightarrow> nat \<Rightarrow> string" where
  "trunc s max_bytes = (if length s \<le> max_bytes then s else take (snap_back s max_bytes) s)"

definition truncate_with_note :: "string \<Rightarrow> nat \<Rightarrow> string" where
  "truncate_with_note s max_chars =
     (if length s \<le> max_chars then quote2 s
      else quote2 (concat (take (max_chars - 3) (utf8_chars s))) @
           '' [truncated, '' @ show_nat (length s) @ '' chars]'')"

text \<open>The loop of \<open>indent_and_truncate\<close> over the lines that are left; \<open>n_total\<close> is the
  number of lines of the whole text, \<open>len\<close> its length.\<close>

fun indent_loop :: "string \<Rightarrow> render_config \<Rightarrow> nat \<Rightarrow> nat \<Rightarrow> string list \<Rightarrow> nat \<Rightarrow> nat \<Rightarrow> string" where
  "indent_loop prefix config n_total len [] char_count line_count = []"
| "indent_loop prefix config n_total len (l # ls) char_count line_count =
     (if line_count \<ge> history_entry_max_lines config
      then line [prefix, ''[truncated, '', show_nat (n_total - line_count), '' more lines]'']
      else (let remaining_chars = history_entry_max_chars config - char_count
            in if remaining_chars = 0
               then line [prefix, ''[truncated, '', show_nat (len - char_count), '' more chars]'']
               else line [prefix, trunc l remaining_chars] @
                    indent_loop prefix config n_total len ls (char_count + length l) (line_count + 1)))"

definition indent_and_truncate :: "string \<Rightarrow> nat \<Rightarrow> render_config \<Rightarrow> string" where
  "indent_and_truncate text indent config =
     indent_loop (replicate indent (CHR '' '')) config (length (lines text)) (length text) (lines text) 0 0"

section \<open>History\<close>

definition render_deployment_context :: "string \<Rightarrow> string" where
  "render_deployment_context deployment_context =
     line [''<deployment_context>''] @
     (if deployment_context \<noteq> []
      then deployment_context @ (if ends_with_char nl deployment_context then [] else [nl]) else []) @
     line [''</deployment_context>'']"

fun render_history_entry :: "render_env \<Rightarrow> render_config \<Rightarrow> history_entry \<Rightarrow> string" where
  "render_history_entry env config (Execution i time code out is_error) =
     (let body = line [''time: '', format_time env time] @ line [''code:''] @
            indent_and_truncate code 2 config @
            (if is_error then line [''output: [ERROR]''] else line [''output:'']) @
            (if out \<noteq> [] then indent_and_truncate out 2 config else [])
      in line [''<entry id='', quote2 (aid i), '' est_tokens='', quote2 (show_nat (length body div 4)), ''>''] @
         body @ line [''</entry>''])"
| "render_history_entry env config (Summary i time description) =
     line [''<entry id='', quote2 (aid i), ''>''] @ line [''summary: '', description] @ line [''</entry>'']"
| "render_history_entry env config (SystemAlert i time message) =
     line [''<entry id='', quote2 (aid i), ''>''] @ line [''time: '', format_time env time] @
     line [''alert: '', message] @ line [''</entry>'']"

text \<open>\<open>&entries()[a..b]\<close> panics unless \<open>a <= b <= len\<close>.\<close>

definition render_history_range ::
  "render_env \<Rightarrow> render_config \<Rightarrow> event_history \<Rightarrow> nat \<Rightarrow> nat \<Rightarrow> string option" where
  "render_history_range env config h a b =
     (if a \<le> b \<and> b \<le> length (eh_entries h)
      then Some (concat (map (render_history_entry env config) (take (b - a) (drop a (eh_entries h)))))
      else None)"

section \<open>Work queue\<close>

definition indented_lines :: "string \<Rightarrow> string \<Rightarrow> string" where
  "indented_lines indent s = concat (map (\<lambda>l. line [indent, l]) (lines s))"

definition json_or_mark :: "render_env \<Rightarrow> json \<Rightarrow> string" where
  "json_or_mark env j = (case json_string env j of Some s \<Rightarrow> s | None \<Rightarrow> ''?'')"

text \<open>A value shortened to \<open>n\<close> bytes with an ellipsis.\<close>

definition shorten :: "nat \<Rightarrow> string \<Rightarrow> string" where
  "shorten n s = (if length s > n then trunc s n @ ''...'' else s)"

definition render_result :: "render_env \<Rightarrow> (string, json) hmap \<Rightarrow> string" where
  "render_result env result =
     (if result = [] then line [''result: (empty)'']
      else (let n_total = length result; display_count = min n_total 5; keys = sort (map fst result)
            in line [''result ('', show_nat n_total, '' '', if n_total = 1 then ''key'' else ''keys'', ''):''] @
               concat (map (\<lambda>key. line [''  '', key, '': '',
                   shorten 80 (json_or_mark env (the (map_of result key)))]) (take display_count keys)) @
               (if n_total > display_count then line [''  ... and '', show_nat (n_total - display_count), '' more keys'']
                else [])))"

fun render_item_body :: "render_env \<Rightarrow> nat \<Rightarrow> work_item_type \<Rightarrow> string" where
  "render_item_body env limit (UserMessage chat_id user content message_ref) =
     line [''type: UserMessage''] @ line [''chat_id: '', chat_id] @
     (case message_ref of Some r \<Rightarrow> line [''message_ref: '', r] | None \<Rightarrow> []) @
     line [''user: '', user] @ line [''content: '', truncate_with_note content limit]"
| "render_item_body env limit (TimerFired timer_id every description) =
     line [''type: TimerFired''] @ line [''timer_id: '', aid timer_id] @
     (case every of Some e \<Rightarrow> line [''every: '', show_nat (e div 1000000000), ''s''] | None \<Rightarrow> []) @
     line [''description: '', quote2 description]"
| "render_item_body env limit (ProcessCompleted pid exit_code preview description) =
     line [''type: ProcessCompleted''] @ line [''pid: '', aid pid] @
     line [''exit_code: '', show_int exit_code] @
     (if description \<noteq> [] then line [''description: '', quote2 description] else []) @
     (case preview of Some p \<Rightarrow> line [''output_preview:''] @ indented_lines ''  '' p | None \<Rightarrow> [])"
| "render_item_body env limit (ProcessFailed pid error preview description) =
     line [''type: ProcessFailed''] @ line [''pid: '', aid pid] @
     line [''error: '', truncate_with_note error limit] @
     (if description \<noteq> [] then line [''description: '', quote2 description] else []) @
     (case preview of Some p \<Rightarrow> line [''output_preview:''] @ indented_lines ''  '' p | None \<Rightarrow> [])"
| "render_item_body env limit (ProcessTimeout pid) =
     line [''type: ProcessTimeout''] @ line [''pid: '', aid pid]"
| "render_item_body env limit (ChildAgentCompleted child_name result turns_used success summary cost_usd cache_hit_pct) =
     line [''type: ChildAgentCompleted''] @ line [''child_name: '', child_name] @
     line [''success: '', show_bool success] @ line [''turns_used: '', show_nat (unat turns_used)] @
     line [''cost: $'', fixed4 env cost_usd, '' ('', show_nat (unat cache_hit_pct), ''% cache hit)''] @
     render_result env result @
     line [''summary: '', truncate_with_note summary limit]"
| "render_item_body env limit (ExternalEvent source event_type data) =
     line [''type: ExternalEvent''] @ line [''source: '', quote2 source] @
     line [''event_type: '', quote2 event_type] @
     line [''data: '', truncate_with_note (json_or_mark env data) limit]"
| "render_item_body env limit (AgentMessage from content) =
     line [''type: AgentMessage''] @ line [''from: '', from] @
     line [''content: '', truncate_with_note content limit]"
| "render_item_body env limit (View paths) =
     line [''type: View''] @ line [''paths: '', show_nat (length paths), '' files''] @
     concat (map (\<lambda>p. line [''  '', p]) (take 5 paths)) @
     (if length paths > 5 then line [''  ... +'', show_nat (length paths - 5), '' more''] else []) @
     line [''(content rendered as blocks below when this item is at head)'']"
| "render_item_body env limit Compaction =
     line [''type: Compaction''] @
     line [''description: '', quote2 ''You must compact your context.'']"
| "render_item_body env limit (AgentStartup changelog) =
     line [''type: AgentStartup''] @
     line [''description: '', quote2 (''Harness restarted. Any processes/bridges you were managing are dead '' @
       em_dash @ '' inspect memory and reconnect as needed.'')] @
     (case changelog of Some c \<Rightarrow> line [''changelog: |''] @ indented_lines ''  '' c | None \<Rightarrow> [])"
| "render_item_body env limit (HookException hname error original) =
     line [''type: HookException''] @ line [''hook_name: '', hname] @
     line [''error: '', truncate_with_note error limit] @
     (case json_string env original of Some s \<Rightarrow> line [''original: '', truncate_with_note s limit] | None \<Rightarrow> [])"

definition render_work_item :: "render_env \<Rightarrow> work_item \<Rightarrow> nat \<Rightarrow> string" where
  "render_work_item env item content_limit =
     line [''<work_item id='', quote2 (aid (wi_id item)), ''>''] @
     line [''priority: '', show_nat (unat (wi_priority item))] @
     line [''time: '', format_time env (wi_time item)] @
     render_item_body env content_limit (wi_type item) @
     (if wi_attachments item \<noteq> [] then line [''attachments: ['', join '', '' (wi_attachments item), '']''] else []) @
     line [''</work_item>'']"

definition content_limit :: "render_config \<Rightarrow> nat \<Rightarrow> nat" where
  "content_limit config i =
     (if i < length (work_queue_content_limits config) then work_queue_content_limits config ! i
      else work_queue_default_limit config)"

definition render_work_queue :: "render_env \<Rightarrow> render_config \<Rightarrow> work_queue \<Rightarrow> string" where
  "render_work_queue env config q =
     (let display_count = min (wq_len q) (work_queue_max_display config)
      in line [''<work_queue>''] @
         concat (map (\<lambda>i. case wq_get q i of Some item \<Rightarrow> render_work_item env item (content_limit config i) | None \<Rightarrow> [])
           [0..<display_count]) @
         (if wq_len q > display_count then line [''... and '', show_nat (wq_len q - display_count), '' more items''] else []) @
         line [''</work_queue>''])"

section \<open>Agent state\<close>

definition mem_prio :: "harness_state \<Rightarrow> string \<Rightarrow> u8" where
  "mem_prio s key = (case map_of (memory_priorities s) key of Some p \<Rightarrow> p | None \<Rightarrow> 5)"

text \<open>Priority descending, then the key.\<close>

definition sorted_memory :: "harness_state \<Rightarrow> (string \<times> json) list" where
  "sorted_memory s = sort_key (\<lambda>(key, v). (- int (unat (mem_prio s key)), key)) (memory s)"

definition render_memory :: "render_env \<Rightarrow> render_config \<Rightarrow> harness_state \<Rightarrow> string option" where
  "render_memory env config s =
     (if memory s = [] then Some []
      else (let entries = sorted_memory s;
                n_total = length entries;
                display_count = min n_total (agent_state_memory_max_display config);
                shown = concat (map (\<lambda>(key, v).
                  line [''  ['', show_nat (unat (mem_prio s key)), ''] '', key, '': '',
                    shorten (agent_state_memory_value_max_chars config) (json_or_mark env v)])
                  (take display_count entries))
            in if n_total > display_count \<and> display_count = 0 then None
               else Some (line [''Memory ('', show_nat display_count, '' of '', show_nat n_total, '' keys, by priority):''] @
                 shown @
                 (if n_total > display_count
                  then line [''  ... '', show_nat (n_total - display_count), '' more keys at priority <='',
                    show_nat (unat (mem_prio s (fst (entries ! (display_count - 1)))))]
                  else []) @ [nl])))"

definition schedule_str :: "render_env \<Rightarrow> timer_schedule \<Rightarrow> string" where
  "schedule_str env sch =
     (case sch of
        OneShot at \<Rightarrow> ''one-shot at '' @ format_time env at
      | Recurring every next_fire \<Rightarrow>
          (let secs = every div 1000000000
           in if secs \<ge> 3600 then ''every '' @ show_nat (secs div 3600) @ ''h''
              else if secs \<ge> 60 then ''every '' @ show_nat (secs div 60) @ ''m''
              else ''every '' @ show_nat secs @ ''s''))"

definition render_timers :: "render_env \<Rightarrow> render_config \<Rightarrow> timer_manager \<Rightarrow> string" where
  "render_timers env config m =
     (let timers = tm_list m; display_count = min (length timers) (agent_state_timer_max_display config)
      in if timers = [] then []
         else line [''Active timers ('', show_nat (length timers), ''):''] @
           concat (map (\<lambda>t. line [''  '', aid (t_id t), '': '', quote2 (t_description t), '' | '',
             schedule_str env (t_schedule t), '' | priority '', show_nat (unat (t_priority t)),
             if pending_ack t then '' [awaiting ack]'' else []]) (take display_count timers)) @
           (if length timers > display_count then line [''  ... '', show_nat (length timers - display_count), '' more timers'']
            else []) @ [nl])"

text \<open>Division and remainder that truncate towards zero, as on \<open>i64\<close>.\<close>

definition tdiv :: "int \<Rightarrow> int \<Rightarrow> int" where
  "tdiv a b = (if a < 0 then - ((- a) div b) else a div b)"

definition tmod :: "int \<Rightarrow> int \<Rightarrow> int" where
  "tmod a b = a - tdiv a b * b"

definition elapsed_str :: "int \<Rightarrow> string" where
  "elapsed_str elapsed =
     (let secs = tdiv elapsed 1000000000; mins = tdiv secs 60; hours = tdiv secs 3600
      in if hours > 0 then show_int hours @ ''h '' @ show_int (tmod mins 60) @ ''m''
         else if mins > 0 then show_int mins @ ''m '' @ show_int (tmod secs 60) @ ''s''
         else show_int secs @ ''s'')"

definition running_processes :: "harness_state \<Rightarrow> managed_process list" where
  "running_processes s = filter (\<lambda>p. mp_status p = Running) (pm_processes (process_manager s))"

definition render_processes :: "render_env \<Rightarrow> render_config \<Rightarrow> managed_process list \<Rightarrow> string" where
  "render_processes env config procs =
     (let display_count = min (length procs) (agent_state_process_max_display config)
      in if procs = [] then []
         else line [''Running processes ('', show_nat (length procs), ''):''] @
           concat (map (\<lambda>p. line [''  '', aid (mp_id p), '': '', quote2 (mp_cmd p),
             if mp_description p = [] then [] else '' '' @ quote2 (mp_description p), '' | running '',
             elapsed_str (clock env - mp_started_at p)]) (take display_count procs)) @
           (if length procs > display_count then line [''  ... '', show_nat (length procs - display_count), '' more processes'']
            else []) @ [nl])"

definition render_agent_state :: "render_env \<Rightarrow> render_config \<Rightarrow> harness_state \<Rightarrow> string option" where
  "render_agent_state env config s =
     (if memory s = [] \<and> tm_list (timer_manager s) = [] \<and> running_processes s = [] then Some []
      else map_option (\<lambda>mem. line [''<agent_state>''] @ mem @ render_timers env config (timer_manager s) @
             render_processes env config (running_processes s) @ line [''</agent_state>''])
           (render_memory env config s))"

section \<open>Metadata\<close>

record compaction_state =
  cs_current_usage :: nat
  cs_target_usage :: nat
  cs_compaction_script :: string
  cs_estimated :: nat

record agent_identity =
  ai_name :: string
  ai_lineage :: string
  ai_turn_counter :: u32
  ai_max_turns :: "u32 option"

definition render_identity :: "agent_identity \<Rightarrow> string" where
  "render_identity a =
     line [''Agent: '', ai_name a] @ line [''Lineage: '', ai_lineage a] @
     (case ai_max_turns a of
        Some m \<Rightarrow> line [''Turns: '', show_nat (unat (ai_turn_counter a)), ''/'', show_nat (unat m), '' ('',
          show_nat (unat m - unat (ai_turn_counter a)), '' remaining)'']
      | None \<Rightarrow> line [''Turns: '', show_nat (unat (ai_turn_counter a)), '' (no limit)''])"

definition render_compaction :: "compaction_state \<Rightarrow> string" where
  "render_compaction cs =
     line [''COMPACTION MODE:''] @
     line [''  Current usage: '', show_nat (cs_current_usage cs), '' tokens''] @
     line [''  Target usage: '', show_nat (cs_target_usage cs), '' tokens''] @
     line [''  Estimated usage after compaction_script: '', show_nat (cs_estimated cs), '' tokens''] @
     line [''  compaction_script:''] @
     (if cs_compaction_script cs = []
      then line [''    # Empty - build this up, then call compact()'']
      else indented_lines ''    '' (cs_compaction_script cs))"

definition render_context_metadata ::
  "render_env \<Rightarrow> harness_state \<Rightarrow> compaction_state option \<Rightarrow> nat \<Rightarrow> agent_identity option \<Rightarrow>
     (nat \<times> nat) option \<Rightarrow> nat \<Rightarrow> string option" where
  "render_context_metadata env s compaction compact_at agent pinned_summary attachment_count =
     map_option (\<lambda>boundary.
       line [''<context>''] @
       (case agent of Some a \<Rightarrow> render_identity a | None \<Rightarrow> []) @
       line [''Current time: '', format_time env (clock env)] @
       line [''Last turn total input tokens: '', show_nat (last_total_input_tokens s), '' (billed '',
         show_nat (last_input_tokens s), '' + cache_read + cache_write; this is what compaction compares against)''] @
       line [''Compaction threshold: '', show_nat compact_at, '' tokens''] @
       (if attachment_count > 0
        then line [''Attachments this turn: '', show_nat attachment_count, '' (ephemeral '', em_dash,
          '' visible once, not saved to history)''] else []) @
       (case pinned_summary of
          Some (n_keys, n_chars) \<Rightarrow> line [''Pinned memory: '', show_nat n_keys, '' '',
            if n_keys = 1 then ''key'' else ''keys'', '', '', show_nat n_chars, '' chars'']
        | None \<Rightarrow> []) @
       (case boundary of Some b \<Rightarrow> line [''Can modify entries from: '', aid b] | None \<Rightarrow> []) @
       (case compaction of Some cs \<Rightarrow> render_compaction cs | None \<Rightarrow> []) @
       line [''</context>''])
     (modification_boundary (event_history s))"

section \<open>The whole context\<close>

record role_prefix =
  rp_context :: string
  rp_attach :: "string list"

record rendered_context =
  prefix_text :: string
  prefix_attachments :: "string list"
  cached_segments :: "string list"
  rc_text :: string
  rc_attachments :: "string list"

definition view_attachments :: "work_queue \<Rightarrow> string list" where
  "view_attachments q =
     (case wq_items q of item # _ \<Rightarrow> (case wi_type item of View paths \<Rightarrow> paths | _ \<Rightarrow> []) | [] \<Rightarrow> [])"

definition render_head :: "string \<Rightarrow> role_prefix option \<Rightarrow> string" where
  "render_head deployment_context role_prefix =
     (let head = render_deployment_context deployment_context
      in case role_prefix of
           Some rp \<Rightarrow>
             if rp_context rp \<noteq> []
             then (let h = head @ line [''<role_context>''] @ rp_context rp
                   in h @ (if ends_with_char nl h then [] else [nl]) @ line [''</role_context>''])
             else head
         | None \<Rightarrow> head)"

text \<open>The texts of the ranges between the splits, the first from 0.\<close>

fun split_ranges ::
  "render_env \<Rightarrow> render_config \<Rightarrow> event_history \<Rightarrow> nat \<Rightarrow> nat list \<Rightarrow> string list option" where
  "split_ranges env config h prev_split [] = Some []"
| "split_ranges env config h prev_split (split # splits) =
     do { t \<leftarrow> render_history_range env config h prev_split split;
          ts \<leftarrow> split_ranges env config h split splits;
          Some (t # ts) }"

definition build_segments :: "string \<Rightarrow> string list \<Rightarrow> string list" where
  "build_segments first ranges = (case ranges of [] \<Rightarrow> [first] | t # ts \<Rightarrow> (first @ t) # ts)"

definition min_cache_chars :: nat where
  "min_cache_chars = 8192"

text \<open>Small segments are merged forward; what does not reach the threshold stays in the tail.\<close>

fun merge_segments :: "string list \<Rightarrow> string \<Rightarrow> nat \<Rightarrow> string list" where
  "merge_segments [] acc acc_effective = []"
| "merge_segments (seg # segs) acc acc_effective =
     (if acc_effective + length seg \<ge> min_cache_chars
      then (acc @ seg) # merge_segments segs [] 0
      else merge_segments segs (acc @ seg) (acc_effective + length seg))"

definition tier_budget :: "role_prefix option \<Rightarrow> nat" where
  "tier_budget role_prefix =
     (case role_prefix of Some rp \<Rightarrow> if rp_attach rp = [] then 3 else 2 | None \<Rightarrow> 3)"

definition render_context ::
  "render_env \<Rightarrow> harness_state \<Rightarrow> string \<Rightarrow> role_prefix option \<Rightarrow> compaction_state option \<Rightarrow>
     render_config \<Rightarrow> nat \<Rightarrow> agent_identity option \<Rightarrow> (nat \<times> nat) option \<Rightarrow> rendered_context option" where
  "render_context env s deployment_context role_prefix compaction config compact_at agent pinned_summary =
     (let attachments = view_attachments (work_queue s);
          head = render_head deployment_context role_prefix;
          prefix_atts = (case role_prefix of Some rp \<Rightarrow> rp_attach rp | None \<Rightarrow> []);
          tiers = min (cache_tiers config) (tier_budget role_prefix);
          h = event_history s;
          (ptext, first) =
            (if prefix_atts = [] then ([], head @ line [''<event_history>''])
             else (head, line [''<event_history>'']))
      in do {
        splits \<leftarrow> cache_splits h (cache_stride config) tiers;
        ranges \<leftarrow> split_ranges env config h 0 splits;
        let segs = build_segments first ranges;
        rest \<leftarrow> render_history_range env config h (if splits = [] then 0 else last splits) (length (eh_entries h));
        agent_state \<leftarrow> render_agent_state env config s;
        meta \<leftarrow> render_context_metadata env s compaction compact_at agent pinned_summary (length attachments);
        let tail = rest @ line [''</event_history>''] @ agent_state @ meta @ render_work_queue env config (work_queue s);
        Some \<lparr>prefix_text = ptext, prefix_attachments = prefix_atts,
              cached_segments = merge_segments segs [] (length ptext + length prefix_atts * 4096),
              rc_text = ptext @ concat segs @ tail, rc_attachments = attachments\<rparr> })"

section \<open>Lemmas\<close>

subsection \<open>Truncation\<close>

lemma snap_back_le: "snap_back s n \<le> n"
  by (induction n) auto

lemma snap_back_boundary: "n \<le> length s \<Longrightarrow> is_char_boundary s (snap_back s n)"
  by (induction n) auto

lemma snap_back_max: "m \<le> n \<Longrightarrow> is_char_boundary s m \<Longrightarrow> m \<le> snap_back s n"
proof (induction n)
  case 0
  then show ?case by simp
next
  case (Suc n)
  then show ?case by (cases "m = Suc n") auto
qed

lemma trunc_le: "length (trunc s n) \<le> n"
  using snap_back_le [of s n] by (simp add: trunc_def)

lemma trunc_prefix: "\<exists>r. s = trunc s n @ r"
  by (metis append_take_drop_id append_Nil2 trunc_def)

lemma trunc_id: "length s \<le> n \<Longrightarrow> trunc s n = s"
  by (simp add: trunc_def)

subsection \<open>Splits and ranges\<close>

definition splits_fit :: "nat \<Rightarrow> nat \<Rightarrow> bool" where
  "splits_fit stride tiers \<longleftrightarrow> stride = 0 \<or> tiers = 0 \<or> stride ^ tiers < 2 ^ 64"

lemma cache_splits_total:
  assumes "splits_fit stride tiers"
  shows "\<exists>ss. cache_splits h stride tiers = Some ss \<and> ss \<noteq> [] \<and> sorted ss \<and>
     (\<forall>x \<in> set ss. x \<le> immutable_count h) \<and> length ss \<le> max 1 tiers"
proof (cases "stride = 0 \<or> tiers = 0")
  case True
  then show ?thesis by (auto simp: cache_splits_def Let_def)
next
  case False
  then have "cache_splits h stride tiers
      = Some (map (\<lambda>i. split_at (immutable_count h) stride (tiers - i)) [0..<tiers])"
    using assms by (intro cache_splits_eq) (auto simp: splits_fit_def)
  moreover have "sorted (map (\<lambda>i. split_at (immutable_count h) stride (tiers - i)) [0..<tiers])"
    by (auto simp: sorted_iff_nth_mono intro: split_at_mono_tier)
  ultimately show ?thesis using False by (auto simp: split_at_le)
qed

lemma splits_fit_mono: "splits_fit stride tiers \<Longrightarrow> splits_fit stride (min tiers b)"
proof (cases "stride = 0 \<or> tiers = 0")
  case False
  assume "splits_fit stride tiers"
  moreover have "stride ^ min tiers b \<le> stride ^ tiers" using False by (intro power_increasing) auto
  ultimately show ?thesis using False by (simp add: splits_fit_def)
qed (auto simp: splits_fit_def)

abbreviation entries_text :: "render_env \<Rightarrow> render_config \<Rightarrow> history_entry list \<Rightarrow> string" where
  "entries_text env config es \<equiv> concat (map (render_history_entry env config) es)"

lemma split_ranges_concat:
  assumes "sorted (p # ss)" "ss \<noteq> []" "last ss \<le> length (eh_entries h)"
  shows "\<exists>ts. split_ranges env config h p ss = Some ts \<and> length ts = length ss \<and>
     concat ts = entries_text env config (take (last ss - p) (drop p (eh_entries h)))"
  using assms
proof (induction ss arbitrary: p)
  case Nil
  then show ?case by simp
next
  case (Cons a ss)
  show ?case
  proof (cases "ss = []")
    case True
    with Cons.prems show ?thesis by (simp add: render_history_range_def)
  next
    case False
    from Cons.prems have "sorted (a # ss)" "p \<le> a" by auto
    moreover from Cons.prems False have "last ss \<le> length (eh_entries h)" by simp
    ultimately obtain ts where ts: "split_ranges env config h a ss = Some ts" "length ts = length ss"
      "concat ts = entries_text env config (take (last ss - a) (drop a (eh_entries h)))"
      using Cons.IH [of a] False by blast
    have "a \<le> last ss" using \<open>sorted (a # ss)\<close> False by simp
    then have "take (last ss - p) (drop p (eh_entries h)) =
        take (a - p) (drop p (eh_entries h)) @ take (last ss - a) (drop a (eh_entries h))"
      using \<open>p \<le> a\<close> take_add [of "a - p" "last ss - a" "drop p (eh_entries h)"] by simp
    with ts False \<open>p \<le> a\<close> \<open>a \<le> last ss\<close> \<open>last ss \<le> length (eh_entries h)\<close> show ?thesis
      by (simp add: render_history_range_def)
  qed
qed

text \<open>The ranges only look at the entries before the last split.\<close>

lemma split_ranges_cong:
  assumes "sorted (p # ss)" "\<forall>x \<in> set ss. x \<le> n" "n \<le> length (eh_entries h)" "n \<le> length (eh_entries h')"
    and "take n (eh_entries h) = take n (eh_entries h')"
  shows "split_ranges env config h p ss = split_ranges env config h' p ss"
  using assms
proof (induction ss arbitrary: p)
  case Nil
  then show ?case by simp
next
  case (Cons a ss)
  have "take (a - p) (drop p (eh_entries h)) = take (a - p) (drop p (eh_entries h'))" if "a \<le> n" for a
    using Cons.prems(5) that by (metis drop_take min.absorb2 min.commute take_take)
  moreover have "a \<le> n" using Cons.prems by simp
  ultimately have "render_history_range env config h p a = render_history_range env config h' p a"
    using Cons.prems by (simp add: render_history_range_def)
  with Cons show ?case by simp
qed

subsection \<open>Layout\<close>

definition tagged :: "string \<Rightarrow> bool" where
  "tagged s \<longleftrightarrow> s = [] \<or> hd s = CHR ''<''"

lemma tagged_nil: "tagged []"
  by (simp add: tagged_def)

lemma tagged_append: "tagged a \<Longrightarrow> tagged b \<Longrightarrow> tagged (a @ b)"
  by (auto simp: tagged_def hd_append)

lemma tagged_append_nonempty: "tagged a \<Longrightarrow> a \<noteq> [] \<Longrightarrow> tagged (a @ b)"
  by (auto simp: tagged_def)

lemma tagged_concat: "\<forall>s \<in> set ss. tagged s \<Longrightarrow> tagged (concat ss)"
proof (induction ss)
  case Nil
  then show ?case by (simp add: tagged_def)
next
  case (Cons a ss)
  then show ?case by (simp add: tagged_append)
qed

lemma tagged_entry: "tagged (render_history_entry env config e)"
  by (cases e) (simp_all add: tagged_def line_def Let_def)

lemma tagged_entries: "tagged (entries_text env config es)"
  by (rule tagged_concat) (auto simp: tagged_entry)

lemma merge_segments_rest:
  "\<forall>s \<in> set (acc # segs). tagged s \<Longrightarrow>
     \<exists>rest. acc @ concat segs = concat (merge_segments segs acc eff) @ rest \<and> tagged rest"
proof (induction segs arbitrary: acc eff)
  case Nil
  then show ?case by simp
next
  case (Cons seg segs)
  show ?case
  proof (cases "eff + length seg \<ge> min_cache_chars")
    case True
    obtain rest where "[] @ concat segs = concat (merge_segments segs [] 0) @ rest" "tagged rest"
      using Cons.IH [of "[]" 0] Cons.prems by (auto simp: tagged_def)
    with True show ?thesis by simp
  next
    case False
    have "tagged (acc @ seg)" using Cons.prems by (simp add: tagged_append)
    then obtain rest where "(acc @ seg) @ concat segs = concat (merge_segments segs (acc @ seg) (eff + length seg)) @ rest"
      "tagged rest"
      using Cons.IH [of "acc @ seg" "eff + length seg"] Cons.prems by auto
    with False show ?thesis by simp
  qed
qed

lemma merge_segments_length: "length (merge_segments segs acc eff) \<le> length segs"
  by (induction segs acc eff rule: merge_segments.induct) auto

lemma build_segments_concat [simp]: "concat (build_segments first ranges) = first @ concat ranges"
  by (cases ranges) (simp_all add: build_segments_def)

lemma build_segments_length: "length (build_segments first ranges) = max 1 (length ranges)"
  by (cases ranges) (simp_all add: build_segments_def)

lemma tagged_head: "tagged (render_head d rp) \<and> render_head d rp \<noteq> []"
proof -
  have "tagged (render_deployment_context d @ x) \<and> render_deployment_context d \<noteq> []" for x
    by (simp add: render_deployment_context_def line_def tagged_def)
  then show ?thesis
    by (auto simp: render_head_def Let_def tagged_append_nonempty split: option.splits) (metis append_Nil2)+
qed

subsection \<open>The parts of a rendered context\<close>

text \<open>What keeps rendering from panicking; the code's own settings satisfy it.\<close>

definition renderable :: "render_config \<Rightarrow> harness_state \<Rightarrow> bool" where
  "renderable config s \<longleftrightarrow>
     splits_fit (cache_stride config) (cache_tiers config) \<and>
     0 < agent_state_memory_max_display config \<and> 0 < modification_window (event_history s)"

lemma render_agent_state_total:
  "0 < agent_state_memory_max_display config \<Longrightarrow> \<exists>t. render_agent_state env config s = Some t"
  by (auto simp: render_agent_state_def render_memory_def sorted_memory_def Let_def min_def split: if_splits)

lemma render_metadata_total:
  "0 < modification_window (event_history s) \<Longrightarrow>
     \<exists>t. render_context_metadata env s compaction compact_at agent pinned n = Some t"
  by (auto simp: render_context_metadata_def modification_boundary_def window_start_def Let_def)

abbreviation used_tiers :: "render_config \<Rightarrow> role_prefix option \<Rightarrow> nat" where
  "used_tiers config rp \<equiv> min (cache_tiers config) (tier_budget rp)"

definition prefix_atts :: "role_prefix option \<Rightarrow> string list" where
  "prefix_atts rp = (case rp of Some rp \<Rightarrow> rp_attach rp | None \<Rightarrow> [])"

definition split_first :: "string \<Rightarrow> role_prefix option \<Rightarrow> string \<times> string" where
  "split_first d rp =
     (if prefix_atts rp = [] then ([], render_head d rp @ line [''<event_history>''])
      else (render_head d rp, line [''<event_history>'']))"

lemma split_first_concat: "fst (split_first d rp) @ snd (split_first d rp) = render_head d rp @ line [''<event_history>'']"
  by (simp add: split_first_def)

lemma split_first_tagged: "tagged (snd (split_first d rp)) \<and> snd (split_first d rp) \<noteq> []"
  using tagged_head [of d rp]
  by (auto simp: split_first_def tagged_append_nonempty) (simp_all add: line_def tagged_def)

lemma render_context_parts:
  assumes "renderable config s"
  obtains r ss ranges st meta where
    "render_context env s d rp compaction config compact_at agent pinned = Some r"
    "cache_splits (event_history s) (cache_stride config) (used_tiers config rp) = Some ss"
    "ss \<noteq> []" "sorted ss" "\<forall>x \<in> set ss. x \<le> immutable_count (event_history s)"
    "length ss \<le> max 1 (used_tiers config rp)"
    "split_ranges env config (event_history s) 0 ss = Some ranges" "length ranges = length ss"
    "concat ranges = entries_text env config (take (last ss) (eh_entries (event_history s)))"
    "render_agent_state env config s = Some st"
    "render_context_metadata env s compaction compact_at agent pinned (length (view_attachments (work_queue s))) = Some meta"
    "prefix_text r = fst (split_first d rp)" "prefix_attachments r = prefix_atts rp"
    "cached_segments r = merge_segments (build_segments (snd (split_first d rp)) ranges) []
       (length (fst (split_first d rp)) + length (prefix_atts rp) * 4096)"
    "rc_text r = fst (split_first d rp) @ concat (build_segments (snd (split_first d rp)) ranges) @
       entries_text env config (drop (last ss) (eh_entries (event_history s))) @ line [''</event_history>''] @
       st @ meta @ render_work_queue env config (work_queue s)"
proof -
  let ?h = "event_history s"
  obtain ss where ss: "cache_splits ?h (cache_stride config) (used_tiers config rp) = Some ss"
    "ss \<noteq> []" "sorted ss" "\<forall>x \<in> set ss. x \<le> immutable_count ?h" "length ss \<le> max 1 (used_tiers config rp)"
    using cache_splits_total splits_fit_mono assms unfolding renderable_def by metis
  have l: "last ss \<le> length (eh_entries ?h)"
    using ss(2,4) last_in_set [OF ss(2)] by (fastforce simp: immutable_count_def)
  obtain ranges where rs: "split_ranges env config ?h 0 ss = Some ranges" "length ranges = length ss"
    "concat ranges = entries_text env config (take (last ss - 0) (drop 0 (eh_entries ?h)))"
    using split_ranges_concat [of 0 ss ?h env config] ss l by auto
  obtain st where st: "render_agent_state env config s = Some st"
    using render_agent_state_total assms unfolding renderable_def by blast
  obtain meta where meta: "render_context_metadata env s compaction compact_at agent pinned
      (length (view_attachments (work_queue s))) = Some meta"
    using render_metadata_total assms unfolding renderable_def by blast
  have last: "render_history_range env config ?h (last ss) (length (eh_entries ?h)) =
      Some (entries_text env config (drop (last ss) (eh_entries ?h)))"
    using l by (simp add: render_history_range_def)
  show thesis
    by (rule that [where r = "\<lparr>prefix_text = fst (split_first d rp), prefix_attachments = prefix_atts rp,
          cached_segments = merge_segments (build_segments (snd (split_first d rp)) ranges) []
            (length (fst (split_first d rp)) + length (prefix_atts rp) * 4096),
          rc_text = fst (split_first d rp) @ concat (build_segments (snd (split_first d rp)) ranges) @
            entries_text env config (drop (last ss) (eh_entries ?h)) @ line [''</event_history>''] @
            st @ meta @ render_work_queue env config (work_queue s),
          rc_attachments = view_attachments (work_queue s)\<rparr>", OF _ ss rs(1,2) _ st meta])
      (use ss rs st meta last in \<open>simp_all add: render_context_def split_first_def prefix_atts_def Let_def\<close>)
qed

lemma split_ranges_tagged: "split_ranges env config h p ss = Some ts \<Longrightarrow> \<forall>t \<in> set ts. tagged t"
  by (induction ss arbitrary: p ts)
    (auto simp: render_history_range_def tagged_entries split: if_splits Option.bind_splits)

lemma render_history_entry_clock: "render_history_entry (env\<lparr>clock := now'\<rparr>) config e = render_history_entry env config e"
  by (cases e) simp_all

lemma split_ranges_clock: "split_ranges (env\<lparr>clock := now'\<rparr>) config h p ss = split_ranges env config h p ss"
proof -
  have "render_history_entry (env\<lparr>clock := now'\<rparr>) config = render_history_entry env config"
    by (rule ext) (rule render_history_entry_clock)
  then show ?thesis by (induction ss arbitrary: p) (simp_all add: render_history_range_def)
qed

lemma cached_layout_lemma:
  assumes "renderable config s"
    and "render_context env s d rp compaction config compact_at agent pinned = Some r"
  shows "\<exists>rest. rc_text r = prefix_text r @ concat (cached_segments r) @ rest \<and>
     (rest = [] \<or> hd rest = CHR ''<'') \<and>
     1 + (if prefix_attachments r = [] then 0 else 1) + length (cached_segments r) \<le> 4"
proof -
  obtain r' ss ranges st meta where
    r': "render_context env s d rp compaction config compact_at agent pinned = Some r'"
    and ss: "length ss \<le> max 1 (used_tiers config rp)" "length ranges = length ss"
    and rs: "split_ranges env config (event_history s) 0 ss = Some ranges"
    and p: "prefix_text r' = fst (split_first d rp)" "prefix_attachments r' = prefix_atts rp"
      "cached_segments r' = merge_segments (build_segments (snd (split_first d rp)) ranges) []
       (length (fst (split_first d rp)) + length (prefix_atts rp) * 4096)"
    and t: "rc_text r' = fst (split_first d rp) @ concat (build_segments (snd (split_first d rp)) ranges) @
       entries_text env config (drop (last ss) (eh_entries (event_history s))) @ line [''</event_history>''] @
       st @ meta @ render_work_queue env config (work_queue s)"
    by (rule render_context_parts [OF assms(1)]) blast
  have eq: "r = r'" using assms(2) r' by simp
  let ?segs = "build_segments (snd (split_first d rp)) ranges"
  have tag: "\<forall>x \<in> set ranges. tagged x"
    using rs by (rule split_ranges_tagged)
  then have "\<forall>x \<in> set ([] # ?segs). tagged x"
    using split_first_tagged [of d rp]
    by (cases ranges) (auto simp: build_segments_def tagged_append tagged_nil)
  from merge_segments_rest [OF this] obtain rest where
    rest: "concat ?segs = concat (cached_segments r) @ rest" "tagged rest"
    unfolding eq p(3) by auto
  let ?tail = "entries_text env config (drop (last ss) (eh_entries (event_history s))) @ line [''</event_history>''] @
       st @ meta @ render_work_queue env config (work_queue s)"
  have "tagged (line [''</event_history>''] @ x)" for x by (simp add: tagged_def line_def)
  then have "tagged (rest @ ?tail)"
    using rest(2) tagged_entries by (metis tagged_append)
  moreover have "rc_text r = prefix_text r @ concat (cached_segments r) @ rest @ ?tail"
    using t p rest(1) by (simp add: eq)
  moreover have "length (cached_segments r) \<le> max 1 (used_tiers config rp)"
    unfolding eq p(3)
    using merge_segments_length [of ?segs "[]" "length (fst (split_first d rp)) + length (prefix_atts rp) * 4096"]
      ss build_segments_length [of "snd (split_first d rp)" ranges] by linarith
  then have "1 + (if prefix_attachments r = [] then 0 else 1) + length (cached_segments r) \<le> 4"
    using p(2) by (auto simp: eq tier_budget_def prefix_atts_def split: option.splits if_splits)
  ultimately show ?thesis unfolding tagged_def by blast
qed

section \<open>Properties\<close>

text \<open>A truncation never panics and never cuts a character: it keeps the longest prefix of
  at most \<open>n\<close> bytes that ends on a char boundary.\<close>

theorem trunc_longest_boundary:
  "(\<exists>r. s = trunc s n @ r) \<and> length (trunc s n) \<le> n \<and> is_char_boundary s (length (trunc s n)) \<and>
   list_all (\<lambda>m. m \<le> length (trunc s n)) (filter (is_char_boundary s) [0..<Suc (min n (length s))])"
proof (cases "length s \<le> n")
  case True
  then show ?thesis by (simp add: trunc_def list_all_iff)
next
  case False
  then have t: "length (trunc s n) = snap_back s n"
    using snap_back_le [of s n] by (simp add: trunc_def)
  have "list_all (\<lambda>m. m \<le> snap_back s n) (filter (is_char_boundary s) [0..<Suc (min n (length s))])"
    using False snap_back_max by (auto simp: list_all_iff)
  then show ?thesis
    using t False trunc_le [of s n] trunc_prefix [of s n] snap_back_boundary [of n s] by simp
qed

text \<open>C3: whatever the state, rendering succeeds, and the text holds the deployment and role
  context, then every history entry exactly once in order, then state, metadata and queue.\<close>

theorem render_context_complete:
  assumes "renderable config s"
  shows "\<exists>r st meta. render_context env s d rp compaction config compact_at agent pinned = Some r \<and>
     rc_text r = render_head d rp @ line [''<event_history>''] @
       concat (map (render_history_entry env config) (eh_entries (event_history s))) @
       line [''</event_history>''] @ st @ meta @ render_work_queue env config (work_queue s) \<and>
     render_agent_state env config s = Some st \<and>
     render_context_metadata env s compaction compact_at agent pinned (length (view_attachments (work_queue s))) = Some meta"
proof -
  obtain r ss ranges st meta where
    r: "render_context env s d rp compaction config compact_at agent pinned = Some r"
    and c: "concat ranges = entries_text env config (take (last ss) (eh_entries (event_history s)))"
    and st: "render_agent_state env config s = Some st"
    and meta: "render_context_metadata env s compaction compact_at agent pinned (length (view_attachments (work_queue s))) = Some meta"
    and t: "rc_text r = fst (split_first d rp) @ concat (build_segments (snd (split_first d rp)) ranges) @
       entries_text env config (drop (last ss) (eh_entries (event_history s))) @ line [''</event_history>''] @
       st @ meta @ render_work_queue env config (work_queue s)"
    by (rule render_context_parts [OF assms]) blast
  have "entries_text env config (take n es) @ entries_text env config (drop n es) = entries_text env config es" for n es
    by (metis append_take_drop_id concat_append map_append)
  then have "rc_text r = render_head d rp @ line [''<event_history>''] @
       entries_text env config (eh_entries (event_history s)) @
       line [''</event_history>''] @ st @ meta @ render_work_queue env config (work_queue s)"
    unfolding t build_segments_concat c append_assoc [symmetric] split_first_concat [unfolded append_assoc [symmetric]]
    by (metis append_assoc)
  with r st meta show ?thesis by blast
qed

lemma sample_renderable: "renderable (render_config_default None None) (hs_new w t)"
  by (simp add: renderable_def render_config_default_def splits_fit_def hs_new_def eh_new_def)

definition sample_env :: render_env where
  "sample_env = \<lparr>format_time = show_int, json_string = (\<lambda>j. None), fixed4 = (\<lambda>x. []), clock = 0\<rparr>"

theorem render_context_complete_witness:
  "\<exists>r. render_context sample_env (hs_new 200000 16384) ''home'' None None (render_config_default None None) 100000 None None = Some r"
  using render_context_complete [OF sample_renderable] by blast

text \<open>The layout the request is built from: the cached segments follow the prefix text at
  the front of the text, what is left for the tail starts at an ASCII character (so the
  slices the request takes never fall inside a character), and with the system prompt and the
  last prefix attachment at most four cache breakpoints are used.\<close>

theorem cached_layout:
  assumes "renderable config s"
    and "render_context env s d rp compaction config compact_at agent pinned = Some r"
  shows "\<exists>rest. rc_text r = prefix_text r @ concat (cached_segments r) @ rest \<and>
     (rest = [] \<or> hd rest = CHR ''<'') \<and>
     1 + (if prefix_attachments r = [] then 0 else 1) + length (cached_segments r) \<le> 4"
  by (rule cached_layout_lemma [OF assms])

theorem cached_layout_witness:
  "\<exists>r rest. render_context sample_env (hs_new 200000 16384) ''home'' None None (render_config_default None None) 100000 None None = Some r
     \<and> rc_text r = prefix_text r @ concat (cached_segments r) @ rest"
proof -
  have "\<exists>r. render_context sample_env (hs_new 200000 16384) ''home'' None None (render_config_default None None) 100000 None None = Some r"
    by (rule render_context_parts [OF sample_renderable]) blast
  then obtain r where r: "render_context sample_env (hs_new 200000 16384) ''home'' None None (render_config_default None None) 100000 None None = Some r"
    by blast
  from cached_layout [OF sample_renderable r] r show ?thesis by blast
qed

text \<open>C2: the cached part of the context is a function of the deployment context, the role
  prefix and the history before the hottest split alone. As long as the number of immutable
  entries stays within one period of the stride and those entries do not change, the prefix
  and all cached segments are byte for byte the same from turn to turn, whatever happens to
  the clock, queue, memory, timers, processes, token counts or recent history.\<close>

theorem cached_segments_stable:
  assumes "renderable config s" "renderable config s'" "0 < cache_stride config" "0 < cache_tiers config"
    and "immutable_count (event_history s) div cache_stride config = immutable_count (event_history s') div cache_stride config"
    and "take (immutable_count (event_history s) div cache_stride config * cache_stride config) (eh_entries (event_history s))
       = take (immutable_count (event_history s') div cache_stride config * cache_stride config) (eh_entries (event_history s'))"
  shows "\<exists>r r'. render_context env s d rp compaction config at agent pinned = Some r \<and>
     render_context (env\<lparr>clock := now'\<rparr>) s' d rp compaction' config at' agent' pinned' = Some r' \<and>
     prefix_text r = prefix_text r' \<and> prefix_attachments r = prefix_attachments r' \<and>
     cached_segments r = cached_segments r'"
proof -
  let ?h = "event_history s" and ?h' = "event_history s'" and ?k = "cache_stride config" and ?t = "used_tiers config rp"
  let ?n = "immutable_count ?h div ?k * ?k"
  obtain r ss ranges where r: "render_context env s d rp compaction config at agent pinned = Some r"
    and ss: "cache_splits ?h ?k ?t = Some ss" "ss \<noteq> []" "sorted ss" "split_ranges env config ?h 0 ss = Some ranges"
    and p: "prefix_text r = fst (split_first d rp)" "prefix_attachments r = prefix_atts rp"
      "cached_segments r = merge_segments (build_segments (snd (split_first d rp)) ranges) []
       (length (fst (split_first d rp)) + length (prefix_atts rp) * 4096)"
    by (rule render_context_parts [OF assms(1)]) blast
  obtain r' ss' ranges' where r': "render_context (env\<lparr>clock := now'\<rparr>) s' d rp compaction' config at' agent' pinned' = Some r'"
    and ss': "cache_splits ?h' ?k ?t = Some ss'" "split_ranges (env\<lparr>clock := now'\<rparr>) config ?h' 0 ss' = Some ranges'"
    and p': "prefix_text r' = fst (split_first d rp)" "prefix_attachments r' = prefix_atts rp"
      "cached_segments r' = merge_segments (build_segments (snd (split_first d rp)) ranges') []
       (length (fst (split_first d rp)) + length (prefix_atts rp) * 4096)"
    by (rule render_context_parts [OF assms(2)]) blast
  have tpos: "0 < ?t" using assms(4) by (simp add: tier_budget_def split: option.splits)
  have "?k ^ ?t < 2 ^ 64"
    using splits_fit_mono [of ?k "cache_tiers config" "tier_budget rp"] assms(1,3) tpos
    by (auto simp: renderable_def splits_fit_def)
  note eqs = cache_splits_eq [OF assms(3) tpos this]
  have "split_at (immutable_count ?h) ?k (?t - i) = split_at (immutable_count ?h') ?k (?t - i)" if "i < ?t" for i
    using assms(5) that by (intro split_at_stable [where j = 1]) auto
  then have same: "ss' = ss" using ss(1) ss'(1) by (auto simp: eqs)
  have le: "\<forall>x \<in> set ss. x \<le> ?n"
    using ss(1) split_at_mono_tier [of 1 _ "immutable_count ?h" ?k] by (auto simp: eqs split_at_def)
  have imm: "immutable_count g \<le> length (eh_entries g)" for g by (simp add: immutable_count_def)
  have "?n \<le> length (eh_entries ?h)"
    using imm [of ?h] div_times_less_eq_dividend order_trans by blast
  moreover have "?n \<le> length (eh_entries ?h')"
    unfolding assms(5) using imm [of ?h'] div_times_less_eq_dividend order_trans by blast
  ultimately have "split_ranges env config ?h 0 ss = split_ranges env config ?h' 0 ss"
    using ss(3) le assms(5,6) by (intro split_ranges_cong [where n = ?n]) auto
  then have "ranges' = ranges" using ss(4) ss'(2) unfolding same by (simp add: split_ranges_clock)
  with r r' p p' show ?thesis by auto
qed

theorem cached_segments_stable_witness:
  "\<exists>r r'. render_context sample_env (hs_new 200000 16384) ''home'' None None (render_config_default None None) 100000 None None = Some r \<and>
     render_context (sample_env\<lparr>clock := 7\<rparr>) ((hs_new 200000 16384)\<lparr>memory := [(''k'', JNull)]\<rparr>) ''home'' None None
       (render_config_default None None) 100000 None None = Some r' \<and>
     cached_segments r = cached_segments r'"
proof -
  have "renderable (render_config_default None None) ((hs_new 200000 16384)\<lparr>memory := [(''k'', JNull)]\<rparr>)"
    using sample_renderable [of 200000 16384] by (simp add: renderable_def)
  from cached_segments_stable [OF sample_renderable [of 200000 16384] this]
  show ?thesis by (simp add: render_config_default_def) blast
qed

text \<open>A long text shown in the history is cut with a note when a line follows the cut, but
  not when the last line itself passes the limit: the rest of that line is dropped without any
  sign of it.\<close>

theorem last_line_cut_silently:
  assumes "lines text = [l]" "history_entry_max_chars config < length l"
    and "0 < history_entry_max_chars config" "0 < history_entry_max_lines config"
  shows "indent_and_truncate text indent config
    = replicate indent (CHR '' '') @ trunc l (history_entry_max_chars config) @ [nl]"
  using assms by (simp add: indent_and_truncate_def line_def)

theorem last_line_cut_silently_witness:
  "indent_and_truncate (replicate 3000 (CHR ''x'')) 2 (render_config_default None None)
    = ''  '' @ trunc (replicate 3000 (CHR ''x'')) 2000 @ [nl]"
proof -
  have "lines (replicate 3000 (CHR ''x'')) = [replicate 3000 (CHR ''x'')]"
    by (rule lines_single) auto
  then show ?thesis
    using last_line_cut_silently [of "replicate 3000 (CHR ''x'')" "replicate 3000 (CHR ''x'')" "render_config_default None None" 2]
    by (simp add: render_config_default_def numeral_2_eq_2)
qed

end
