(* ===== verification/Usage.thy ===== *)
theory Usage
  imports Prelude
begin

text \<open>
  Usage accounting: \<open>TokenAccumulator\<close>, \<open>UsageEntry\<close> and the ring buffer
  \<open>UsageLog\<close> of src/src/types.rs, the ring buffer \<open>ApiTrace\<close> of
  src/src/api_client.rs, and the metrics of src/src/http_server.rs over them. Token counts
  are natural numbers (a sum that passes 2^64 would panic). An \<open>f64\<close> is opaque: the
  operations the code applies come with the argument \<open>fl\<close>.
\<close>

section \<open>Floating point\<close>

record float_ops =
  f_add :: "f64 \<Rightarrow> f64 \<Rightarrow> f64"
  f_sub :: "f64 \<Rightarrow> f64 \<Rightarrow> f64"
  f_mul :: "f64 \<Rightarrow> f64 \<Rightarrow> f64"
  f_div :: "f64 \<Rightarrow> f64 \<Rightarrow> f64"
  f_round :: "f64 \<Rightarrow> f64"
  f_nat :: "nat \<Rightarrow> f64" \<comment> \<open>\<open>as f64\<close>\<close>
  f_dec :: "string \<Rightarrow> f64" \<comment> \<open>a literal, by its digits\<close>
  f_to_nat :: "f64 \<Rightarrow> nat" \<comment> \<open>\<open>as u8\<close>, \<open>as u64\<close> before saturation\<close>
  f_to_int :: "f64 \<Rightarrow> int"
  f_lt :: "f64 \<Rightarrow> f64 \<Rightarrow> bool"
  f_nan :: "f64 \<Rightarrow> bool"
  f_fixed :: "nat \<Rightarrow> f64 \<Rightarrow> string" \<comment> \<open>\<open>{:.N}\<close>\<close>

section \<open>Ring buffers\<close>

text \<open>The loop \<open>while len() >= capacity { pop_front() }\<close>. On an empty buffer of capacity 0 it
  does not end (\<open>None\<close>).\<close>

fun make_room :: "nat \<Rightarrow> 'a list \<Rightarrow> 'a list option" where
  "make_room capacity [] = (if capacity = 0 then None else Some [])"
| "make_room capacity (x # xs) =
     (if length (x # xs) \<ge> capacity then make_room capacity xs else Some (x # xs))"

lemma drop_counts: "(Suc (a + b) - (Suc a - c)) - c + (Suc a - c) = Suc (a + b) - (c :: nat)"
  by (cases "c \<le> Suc a") auto

text \<open>What both buffers promise: a push terminates, keeps the newest entries and stays within
  the capacity.\<close>

locale ring_buffer =
  fixes items :: "'s \<Rightarrow> 'a list"
    and cap :: "'s \<Rightarrow> nat"
    and ok :: "'s \<Rightarrow> bool"
    and push :: "'a \<Rightarrow> 's \<Rightarrow> 's option"
  assumes push_law: "ok s \<Longrightarrow> \<exists>s'. push x s = Some s' \<and> ok s' \<and> cap s' = cap s \<and>
     items s' = drop (Suc (length (items s)) - cap s) (items s @ [x])"
begin

lemma drop_drop_last:
  "length ys \<le> c \<Longrightarrow> drop (Suc (length ys) - c) (ys @ [x]) = drop (length (ys @ [x]) - c) (ys @ [x])"
  by simp

lemma pushes_items:
  assumes "ok s" "length (items s) \<le> cap s"
  shows "\<exists>s'. fold_opt push xs s = Some s' \<and> ok s' \<and> cap s' = cap s \<and> length (items s') \<le> cap s' \<and>
     items s' = drop (length (items s @ xs) - cap s) (items s @ xs)"
  using assms
proof (induction xs arbitrary: s)
  case Nil
  then show ?case by simp
next
  case (Cons x xs)
  obtain s1 where s1: "push x s = Some s1" "ok s1" "cap s1 = cap s"
    "items s1 = drop (Suc (length (items s)) - cap s) (items s @ [x])"
    using push_law [OF Cons.prems(1)] by blast
  have len: "length (items s1) \<le> cap s1"
    using Cons.prems(2) s1(3,4) by simp
  from Cons.IH [OF s1(2) len] obtain s' where s':
    "fold_opt push xs s1 = Some s'" "ok s'" "cap s' = cap s1" "length (items s') \<le> cap s'"
    "items s' = drop (length (items s1 @ xs) - cap s1) (items s1 @ xs)" by blast
  let ?n = "Suc (length (items s)) - cap s"
  have eq: "items s1 @ xs = drop ?n (items s @ x # xs)"
    using s1(4) Cons.prems(2) by (cases "cap s") (simp_all add: drop_append)
  have ar: "(length (items s @ x # xs) - ?n) - cap s + ?n = length (items s @ x # xs) - cap s"
    unfolding length_append list.size add_Suc_right by (rule drop_counts)
  have "items s' = drop (length (items s @ x # xs) - cap s) (items s @ x # xs)"
    unfolding s'(5) eq s1(3) length_drop drop_drop ar by (rule refl)
  with s1(1,3) s'(1-4) show ?case by auto
qed

end

section \<open>The usage log\<close>

record usage_entry =
  ue_ts :: int
  ue_agent :: string
  ue_input_tokens :: nat
  ue_output_tokens :: nat
  ue_cache_read_tokens :: nat
  ue_cache_creation_tokens :: nat
  ue_cost_usd :: f64

record usage_log =
  ul_entries :: "usage_entry list"
  ul_capacity :: nat

definition ul_new :: "nat \<Rightarrow> usage_log" where
  "ul_new capacity = \<lparr>ul_entries = [], ul_capacity = max capacity 1\<rparr>"

definition ul_push :: "usage_entry \<Rightarrow> usage_log \<Rightarrow> usage_log option" where
  "ul_push entry l =
     map_option (\<lambda>es. l\<lparr>ul_entries := es @ [entry]\<rparr>) (make_room (ul_capacity l) (ul_entries l))"

section \<open>The API trace\<close>

record trace_entry =
  te_agent :: string
  te_turn :: u32
  te_request :: json
  te_response :: json

record api_trace =
  at_entries :: "trace_entry list"
  at_capacity :: nat

definition at_new :: "nat \<Rightarrow> api_trace" where
  "at_new capacity = \<lparr>at_entries = [], at_capacity = capacity\<rparr>"

definition at_push :: "trace_entry \<Rightarrow> api_trace \<Rightarrow> api_trace option" where
  "at_push entry t =
     (if at_capacity t = 0 then Some t
      else map_option (\<lambda>es. t\<lparr>at_entries := es @ [entry]\<rparr>) (make_room (at_capacity t) (at_entries t)))"

subsection \<open>Both are ring buffers\<close>

lemma make_room_eq:
  "0 < c \<Longrightarrow> make_room c xs = Some (drop (Suc (length xs) - c) xs)"
proof (induction xs)
  case Nil
  then show ?case by simp
next
  case (Cons x xs)
  then show ?case by (auto simp: Suc_diff_le not_le)
qed

lemma drop_snoc: "0 < c \<Longrightarrow> drop (Suc (length xs) - c) xs @ [x] = drop (Suc (length xs) - c) (xs @ [x])"
  by simp

interpretation usage_ring: ring_buffer ul_entries ul_capacity "\<lambda>l. 0 < ul_capacity l" ul_push
  by unfold_locales (simp add: ul_push_def make_room_eq)

interpretation trace_ring: ring_buffer at_entries at_capacity
  "\<lambda>t. at_capacity t = 0 \<longrightarrow> at_entries t = []" at_push
  by unfold_locales (auto simp: at_push_def make_room_eq)

section \<open>Accumulated tokens and cost\<close>

record token_accumulator =
  ta_input_tokens :: nat
  ta_output_tokens :: nat
  ta_cache_creation_tokens :: nat
  ta_cache_read_tokens :: nat
  ta_turns :: nat
  ta_since :: int

definition ta_new :: "int \<Rightarrow> token_accumulator" where
  "ta_new now_secs =
     \<lparr>ta_input_tokens = 0, ta_output_tokens = 0, ta_cache_creation_tokens = 0, ta_cache_read_tokens = 0,
      ta_turns = 0, ta_since = now_secs\<rparr>"

record prices =
  cost_per_m_input :: f64
  cost_per_m_output :: f64
  cost_per_m_cache_read :: f64
  cost_per_m_cache_write :: f64

text \<open>The cost of token counts (input, output, cache read, cache write), summed in the order of
  \<open>handle_cost\<close>.\<close>

definition usd_cost :: "float_ops \<Rightarrow> prices \<Rightarrow> nat \<Rightarrow> nat \<Rightarrow> nat \<Rightarrow> nat \<Rightarrow> f64" where
  "usd_cost fl pr i out cr cw =
     f_div fl
       (f_add fl (f_add fl (f_add fl (f_mul fl (f_nat fl i) (cost_per_m_input pr))
                                     (f_mul fl (f_nat fl out) (cost_per_m_output pr)))
                           (f_mul fl (f_nat fl cr) (cost_per_m_cache_read pr)))
                 (f_mul fl (f_nat fl cw) (cost_per_m_cache_write pr)))
       (f_dec fl ''1000000.0'')"

definition round_to :: "float_ops \<Rightarrow> string \<Rightarrow> f64 \<Rightarrow> f64" where
  "round_to fl scale x = f_div fl (f_round fl (f_mul fl x (f_dec fl scale))) (f_dec fl scale)"

definition handle_cost :: "float_ops \<Rightarrow> prices \<Rightarrow> token_accumulator \<Rightarrow> json" where
  "handle_cost fl pr acc =
     JObj [(''input_tokens'', JInt (int (ta_input_tokens acc))),
           (''output_tokens'', JInt (int (ta_output_tokens acc))),
           (''cache_read_tokens'', JInt (int (ta_cache_read_tokens acc))),
           (''cache_creation_tokens'', JInt (int (ta_cache_creation_tokens acc))),
           (''estimated_cost_usd'', JFloat (round_to fl ''100.0''
              (usd_cost fl pr (ta_input_tokens acc) (ta_output_tokens acc) (ta_cache_read_tokens acc)
                 (ta_cache_creation_tokens acc)))),
           (''turns'', JInt (int (ta_turns acc))),
           (''since'', JInt (ta_since acc))]"

section \<open>Metrics\<close>

definition usage_json :: "usage_entry \<Rightarrow> json" where
  "usage_json e =
     JObj [(''ts'', JInt (ue_ts e)), (''agent'', JStr (ue_agent e)),
           (''input_tokens'', JInt (int (ue_input_tokens e))),
           (''output_tokens'', JInt (int (ue_output_tokens e))),
           (''cache_read_tokens'', JInt (int (ue_cache_read_tokens e))),
           (''cache_creation_tokens'', JInt (int (ue_cache_creation_tokens e))),
           (''cost_usd'', JFloat (ue_cost_usd e))]"

text \<open>The entries \<open>/metrics/turns\<close> serves.\<close>

definition last_turns :: "nat option \<Rightarrow> usage_log \<Rightarrow> usage_entry list" where
  "last_turns q_limit l =
     (let snap = ul_entries l;
          limit = min (case q_limit of Some n \<Rightarrow> n | None \<Rightarrow> 100) (length snap);
          start = length snap - limit
      in drop start snap)"

definition handle_metrics_turns :: "nat option \<Rightarrow> usage_log \<Rightarrow> json" where
  "handle_metrics_turns q_limit l =
     JObj [(''entries'', JArr (map usage_json (last_turns q_limit l))),
           (''total_in_log'', JInt (int (length (ul_entries l)))),
           (''capacity'', JInt (int (ul_capacity l)))]"

record window_sum =
  w_input :: nat
  w_output :: nat
  w_cache_read :: nat
  w_cache_write :: nat
  w_cost :: f64
  w_turns :: nat
  w_oldest :: "int option"

text \<open>The loop over \<open>snap.iter().rev()\<close> with its break.\<close>

fun rate_loop :: "float_ops \<Rightarrow> int \<Rightarrow> usage_entry list \<Rightarrow> window_sum \<Rightarrow> window_sum" where
  "rate_loop fl cutoff [] w = w"
| "rate_loop fl cutoff (e # es) w =
     (if ue_ts e < cutoff then w
      else rate_loop fl cutoff es
        \<lparr>w_input = w_input w + ue_input_tokens e,
         w_output = w_output w + ue_output_tokens e,
         w_cache_read = w_cache_read w + ue_cache_read_tokens e,
         w_cache_write = w_cache_write w + ue_cache_creation_tokens e,
         w_cost = f_add fl (w_cost w) (ue_cost_usd e),
         w_turns = w_turns w + 1,
         w_oldest = Some (ue_ts e)\<rparr>)"

definition rate_window :: "float_ops \<Rightarrow> int \<Rightarrow> usage_log \<Rightarrow> int \<Rightarrow> window_sum" where
  "rate_window fl now l secs =
     rate_loop fl (now - secs) (rev (ul_entries l))
       \<lparr>w_input = 0, w_output = 0, w_cache_read = 0, w_cache_write = 0, w_cost = f_dec fl ''0.0'',
        w_turns = 0, w_oldest = None\<rparr>"

definition covered_secs :: "int \<Rightarrow> window_sum \<Rightarrow> int" where
  "covered_secs now w = (case w_oldest w of Some t \<Rightarrow> max (now - t) 0 | None \<Rightarrow> 0)"

definition rate_json :: "float_ops \<Rightarrow> int \<Rightarrow> window_sum \<Rightarrow> json" where
  "rate_json fl now w =
     JObj [(''input_tokens'', JInt (int (w_input w))), (''output_tokens'', JInt (int (w_output w))),
           (''cache_read_tokens'', JInt (int (w_cache_read w))),
           (''cache_creation_tokens'', JInt (int (w_cache_write w))),
           (''cost_usd'', JFloat (round_to fl ''10000.0'' (w_cost w))),
           (''turns'', JInt (int (w_turns w))),
           (''window_covered_secs'', JInt (covered_secs now w))]"

definition rate_windows :: "(int \<times> string) list" where
  "rate_windows = [(5 * 60, ''last_5m''), (3600, ''last_1h''), (86400, ''last_24h'')]"

definition handle_metrics_rate :: "float_ops \<Rightarrow> int \<Rightarrow> usage_log \<Rightarrow> json" where
  "handle_metrics_rate fl now l =
     JObj (map (\<lambda>(secs, label). (label, rate_json fl now (rate_window fl now l secs))) rate_windows)"

section \<open>Lemmas\<close>

lemma rate_loop_takeWhile:
  "rate_loop fl c es w =
     \<lparr>w_input = w_input w + sum_list (map ue_input_tokens (takeWhile (\<lambda>e. c \<le> ue_ts e) es)),
      w_output = w_output w + sum_list (map ue_output_tokens (takeWhile (\<lambda>e. c \<le> ue_ts e) es)),
      w_cache_read = w_cache_read w + sum_list (map ue_cache_read_tokens (takeWhile (\<lambda>e. c \<le> ue_ts e) es)),
      w_cache_write = w_cache_write w + sum_list (map ue_cache_creation_tokens (takeWhile (\<lambda>e. c \<le> ue_ts e) es)),
      w_cost = fold (\<lambda>e x. f_add fl x (ue_cost_usd e)) (takeWhile (\<lambda>e. c \<le> ue_ts e) es) (w_cost w),
      w_turns = w_turns w + length (takeWhile (\<lambda>e. c \<le> ue_ts e) es),
      w_oldest = (if takeWhile (\<lambda>e. c \<le> ue_ts e) es = [] then w_oldest w
        else Some (ue_ts (last (takeWhile (\<lambda>e. c \<le> ue_ts e) es))))\<rparr>"
  by (induction es arbitrary: w) auto

lemma takeWhile_rev_sorted:
  "sorted (map f es) \<Longrightarrow> takeWhile (\<lambda>e. (c :: 'b :: linorder) \<le> f e) (rev es) = rev (filter (\<lambda>e. c \<le> f e) es)"
proof (induction es)
  case Nil
  then show ?case by simp
next
  case (Cons e es)
  show ?case
  proof (cases "c \<le> f e")
    case True
    then have all: "\<forall>x \<in> set (e # es). c \<le> f x" using Cons.prems by auto
    then have "filter (\<lambda>e. c \<le> f e) (e # es) = e # es" by (rule filter_True)
    moreover have "takeWhile (\<lambda>e. c \<le> f e) (rev (e # es)) = rev (e # es)"
      using all by (simp add: takeWhile_eq_all_conv)
    ultimately show ?thesis by simp
  next
    case False
    show ?thesis
    proof (cases "\<forall>x \<in> set es. c \<le> f x")
      case True
      then show ?thesis using False by (simp add: takeWhile_append2 takeWhile_tail filter_True)
    next
      case ex: False
      then have "takeWhile (\<lambda>e. c \<le> f e) (rev es @ [e]) = takeWhile (\<lambda>e. c \<le> f e) (rev es)"
        by (metis set_rev takeWhile_append1)
      then show ?thesis using False Cons by simp
    qed
  qed
qed

section \<open>Properties\<close>

text \<open>Whatever is pushed, a usage log of any requested capacity accepts it and then holds
  the last entries pushed, in order, as many as its capacity (at least one) allows; the API
  trace does the same, and of capacity 0 stays empty.\<close>

theorem rings_keep_newest:
  "(\<exists>l. fold_opt ul_push es (ul_new c) = Some l \<and> ul_entries l = drop (length es - max c 1) es) \<and>
   (\<exists>t. fold_opt at_push ts (at_new c) = Some t \<and> at_entries t = drop (length ts - c) ts)"
proof
  have "\<exists>l. fold_opt ul_push es (ul_new c) = Some l \<and> ul_entries l = drop (length ([] @ es) - max c 1) ([] @ es)"
    using usage_ring.pushes_items [of "ul_new c" es] by (auto simp: ul_new_def less_max_iff_disj)
  then show "\<exists>l. fold_opt ul_push es (ul_new c) = Some l \<and> ul_entries l = drop (length es - max c 1) es" by simp
  show "\<exists>t. fold_opt at_push ts (at_new c) = Some t \<and> at_entries t = drop (length ts - c) ts"
    using trace_ring.pushes_items [of "at_new c" ts] unfolding at_new_def by simp blast
qed

text \<open>On a log filled in the order of time, the figures of a rate window are sums over
  exactly the logged turns of the last \<open>secs\<close> seconds, and the seconds covered reach back
  to the oldest of them, never beyond the window.\<close>

theorem rate_window_exact:
  assumes "sorted (map ue_ts (ul_entries l))"
  shows "w_input (rate_window fl now l secs) = sum_list (map ue_input_tokens (filter (\<lambda>e. now - secs \<le> ue_ts e) (ul_entries l))) \<and>
     w_output (rate_window fl now l secs) = sum_list (map ue_output_tokens (filter (\<lambda>e. now - secs \<le> ue_ts e) (ul_entries l))) \<and>
     w_turns (rate_window fl now l secs) = length (filter (\<lambda>e. now - secs \<le> ue_ts e) (ul_entries l)) \<and>
     (0 \<le> secs \<longrightarrow> covered_secs now (rate_window fl now l secs) \<le> secs)"
proof -
  let ?in = "filter (\<lambda>e. now - secs \<le> ue_ts e) (ul_entries l)"
  have t: "takeWhile (\<lambda>e. now - secs \<le> ue_ts e) (rev (ul_entries l)) = rev ?in"
    by (rule takeWhile_rev_sorted [OF assms])
  have "now - ue_ts (last (rev ?in)) \<le> secs" if "?in \<noteq> []"
  proof -
    have "last (rev ?in) \<in> set ?in" using that by (metis last_in_set rev_is_Nil_conv set_rev)
    then show ?thesis by simp
  qed
  then show ?thesis
    by (auto simp: rate_window_def rate_loop_takeWhile t covered_secs_def rev_map [symmetric] sum_list_rev)
qed

definition sample_usage :: "int \<Rightarrow> nat \<Rightarrow> usage_entry" where
  "sample_usage t i = \<lparr>ue_ts = t, ue_agent = ''root'', ue_input_tokens = i, ue_output_tokens = 0,
     ue_cache_read_tokens = 0, ue_cache_creation_tokens = 0, ue_cost_usd = 0\<rparr>"

definition sample_floats :: float_ops where
  "sample_floats =
     \<lparr>f_add = (\<lambda>x y. x), f_sub = (\<lambda>x y. x), f_mul = (\<lambda>x y. x), f_div = (\<lambda>x y. x), f_round = (\<lambda>x. x),
      f_nat = (\<lambda>n. 0), f_dec = (\<lambda>s. 0), f_to_nat = (\<lambda>x. 0), f_to_int = (\<lambda>x. 0), f_lt = (\<lambda>x y. False),
      f_nan = (\<lambda>x. False), f_fixed = (\<lambda>n x. [])\<rparr>"

theorem rate_window_exact_witness:
  "w_input (rate_window sample_floats 1000 \<lparr>ul_entries = [sample_usage 100 7, sample_usage 900 5, sample_usage 950 3], ul_capacity = 10\<rparr> 300) = 8"
  using rate_window_exact [of "\<lparr>ul_entries = [sample_usage 100 7, sample_usage 900 5, sample_usage 950 3], ul_capacity = 10\<rparr>" sample_floats 1000 300]
  by (simp add: sample_usage_def)

end
