(* ===== verification/Http_Server.thy ===== *)
theory Http_Server
  imports Registry Usage
begin

text \<open>
  The HTTP front of the daemon (src/src/http_server.rs): the registry of SSE subscriptions
  with its reference counts, the filter of an SSE stream, and the handlers that turn a
  request into an event. A sender is a channel number as in Registry; a handler returns its
  answer and what it sent. \<open>*c -= 1\<close> on a zero count would panic (\<open>None\<close>).
\<close>

section \<open>Subscriptions\<close>

record subscriber_inner =
  si_exact :: "(string, nat) hmap"
  si_prefix :: "(string, nat) hmap"

record subscriber_guard =
  sg_key :: string
  sg_is_prefix :: bool

definition subs_new :: subscriber_inner where
  "subs_new = \<lparr>si_exact = [], si_prefix = []\<rparr>"

definition count_up :: "string \<Rightarrow> (string, nat) hmap \<Rightarrow> (string, nat) hmap" where
  "count_up key m = AList.update key (Suc (case map_of m key of Some c \<Rightarrow> c | None \<Rightarrow> 0)) m"

definition count_down :: "string \<Rightarrow> (string, nat) hmap \<Rightarrow> (string, nat) hmap option" where
  "count_down key m =
     (case map_of m key of
        None \<Rightarrow> Some m
      | Some 0 \<Rightarrow> None
      | Some (Suc c) \<Rightarrow> if c = 0 then Some (AList.delete key m) else Some (AList.update key c m))"

definition guard_of :: "string \<Rightarrow> subscriber_guard" where
  "guard_of pattern =
     (case strip_suffix_char (CHR ''*'') pattern of
        Some p \<Rightarrow> \<lparr>sg_key = p, sg_is_prefix = True\<rparr>
      | None \<Rightarrow> \<lparr>sg_key = pattern, sg_is_prefix = False\<rparr>)"

definition subs_register :: "string \<Rightarrow> subscriber_inner \<Rightarrow> subscriber_guard \<times> subscriber_inner" where
  "subs_register pattern r =
     (let g = guard_of pattern
      in (g, if sg_is_prefix g then r\<lparr>si_prefix := count_up (sg_key g) (si_prefix r)\<rparr>
             else r\<lparr>si_exact := count_up (sg_key g) (si_exact r)\<rparr>))"

definition guard_drop :: "subscriber_guard \<Rightarrow> subscriber_inner \<Rightarrow> subscriber_inner option" where
  "guard_drop g r =
     (if sg_is_prefix g then map_option (\<lambda>m. r\<lparr>si_prefix := m\<rparr>) (count_down (sg_key g) (si_prefix r))
      else map_option (\<lambda>m. r\<lparr>si_exact := m\<rparr>) (count_down (sg_key g) (si_exact r)))"

definition would_reach :: "string \<Rightarrow> subscriber_inner \<Rightarrow> bool" where
  "would_reach chat_id r \<longleftrightarrow>
     map_of (si_exact r) chat_id \<noteq> None \<or> list_ex (\<lambda>p. starts_with p chat_id) (map fst (si_prefix r))"

text \<open>\<open>wait_for\<close>: the registry at each check, and whether a notification came before the
  deadline; \<open>None\<close> while the last check still waits.\<close>

fun wait_for :: "string \<Rightarrow> (subscriber_inner \<times> bool) list \<Rightarrow> bool option" where
  "wait_for chat_id [] = None"
| "wait_for chat_id ((r, notified) # rs) =
     (if would_reach chat_id r then Some True
      else if notified then wait_for chat_id rs else Some False)"

section \<open>Streams\<close>

datatype broadcast_msg =
    BMessage string string "string list" int string "string option"
      \<comment> \<open>chat\_id, content, attachments, id, created\_at, react\_to\<close>
  | BStatus string

definition sse_passes :: "string \<Rightarrow> string \<Rightarrow> bool" where
  "sse_passes chat_id msg_chat_id =
     (case strip_suffix_char (CHR ''*'') chat_id of
        None \<Rightarrow> msg_chat_id = chat_id
      | Some p \<Rightarrow> starts_with p msg_chat_id)"

definition opt_str :: "string option \<Rightarrow> json" where
  "opt_str s = (case s of Some s \<Rightarrow> JStr s | None \<Rightarrow> JNull)"

text \<open>The SSE event (its name and data) a subscriber of \<open>chat_id\<close> gets for a broadcast.\<close>

fun handle_sse :: "string \<Rightarrow> broadcast_msg \<Rightarrow> (string \<times> json) option" where
  "handle_sse chat_id (BMessage msg_chat_id content attachments i created_at react_to) =
     (if sse_passes chat_id msg_chat_id
      then Some (''message'',
        JObj [(''id'', JInt i), (''chat_id'', JStr msg_chat_id), (''content'', JStr content),
              (''react_to'', opt_str react_to), (''attachments'', JArr (map JStr attachments)),
              (''created_at'', JStr created_at)])
      else None)"
| "handle_sse chat_id (BStatus status) = Some (''status'', JObj [(''status'', JStr status)])"

section \<open>Handlers\<close>

text \<open>\<open>rand_id\<close>: the low 32 bits of the clock.\<close>

definition rand_id :: "nat \<Rightarrow> nat" where
  "rand_id nanos = nanos mod 2 ^ 32"

text \<open>The answer of a handler: a status code (500 where the root channel is closed) or a body.\<close>

definition handle_message ::
  "nat \<Rightarrow> bool \<Rightarrow> nat \<Rightarrow> string option \<Rightarrow> string \<Rightarrow> string \<Rightarrow> string list \<Rightarrow> string option \<Rightarrow>
     (nat + json) \<times> (nat \<times> harness_event) list" where
  "handle_message root_tx root_open nanos chat_id user content attachments message_ref =
     (let chat_id = (case chat_id of Some c \<Rightarrow> c | None \<Rightarrow> show_hex 8 (rand_id nanos))
      in if root_open
         then (Inr (JObj [(''status'', JStr ''queued''), (''chat_id'', JStr chat_id)]),
               [(root_tx, HEUserMessage chat_id user content attachments message_ref)])
         else (Inl 500, []))"

definition handle_event ::
  "nat \<Rightarrow> bool \<Rightarrow> agent_registry \<Rightarrow> string \<Rightarrow> string \<Rightarrow> json \<Rightarrow> u8 option \<Rightarrow> string option \<Rightarrow>
     (nat + json) \<times> (nat \<times> harness_event) list" where
  "handle_event root_tx root_open r source event_type data prio agent =
     (let priority = (case prio of Some p \<Rightarrow> p | None \<Rightarrow> 5);
          event = HEExternalEvent source event_type data priority
      in if agent = None \<or> agent = Some ''root''
         then (if root_open
               then (Inr (JObj [(''status'', JStr ''queued''), (''routed_to'', JStr ''root'')]), [(root_tx, event)])
               else (Inl 500, []))
         else (let name = the agent
               in case send_to name event r of
                    (Inr True, sent) \<Rightarrow>
                      (Inr (JObj [(''status'', JStr ''queued''), (''routed_to'', JStr name)]), sent)
                  | _ \<Rightarrow>
                      (Inr (JObj [(''status'', JStr ''fallback''), (''target'', JStr name), (''routed_to'', JStr ''root'')]),
                       if root_open
                       then [(root_tx, HEExternalEvent (''routed-from:'' @ name) ''agent-not-found''
                               (JObj [(''original_target'', JStr name)]) priority)]
                       else [])))"

definition handle_dashboard_dismiss :: "string \<Rightarrow> agent_registry \<Rightarrow> json \<times> agent_registry" where
  "handle_dashboard_dismiss name r =
     (if name = ''*''
      then (let (n, r') = prune_terminal_snapshots r in (JObj [(''removed'', JInt (int n))], r'))
      else (let (removed, r') = remove_snapshot name r in (JObj [(''removed'', JInt (if removed then 1 else 0))], r')))"

definition handle_get_messages :: "('e + json list) \<Rightarrow> nat + json" where
  "handle_get_messages loaded =
     (case loaded of Inl e \<Rightarrow> Inl 500 | Inr messages \<Rightarrow> Inr (JObj [(''messages'', JArr messages)]))"

definition handle_shutdown :: "bool \<Rightarrow> (nat + json) \<times> bool" where
  "handle_shutdown has_receiver =
     (if has_receiver then (Inr (JObj [(''status'', JStr ''shutting_down'')]), True) else (Inl 500, False))"

definition handle_status :: json where
  "handle_status = JObj [(''status'', JStr ''running''), (''model'', JStr ''claude-server'')]"

section \<open>Sequences of subscriptions and disconnects\<close>

datatype sub_op = Subscribe string | Disconnect nat

text \<open>The registry with the guards of the live streams, in order of connection.\<close>

fun sub_step :: "sub_op \<Rightarrow> subscriber_inner \<times> subscriber_guard list \<Rightarrow> (subscriber_inner \<times> subscriber_guard list) option" where
  "sub_step (Subscribe pattern) (r, gs) = (let (g, r') = subs_register pattern r in Some (r', gs @ [g]))"
| "sub_step (Disconnect i) (r, gs) =
     (if i < length gs then map_option (\<lambda>r'. (r', remove_at i gs)) (guard_drop (gs ! i) r) else Some (r, gs))"

definition guard_passes :: "subscriber_guard \<Rightarrow> string \<Rightarrow> bool" where
  "guard_passes g chat_id \<longleftrightarrow> (if sg_is_prefix g then starts_with (sg_key g) chat_id else chat_id = sg_key g)"

text \<open>A count map counts the live guards of its kind, and keeps no zero.\<close>

definition counts :: "bool \<Rightarrow> (string, nat) hmap \<Rightarrow> subscriber_guard list \<Rightarrow> bool" where
  "counts b m gs \<longleftrightarrow>
     (\<forall>k. map_of m k = (let n = length (filter (\<lambda>g. g = \<lparr>sg_key = k, sg_is_prefix = b\<rparr>) gs)
                       in if n = 0 then None else Some n))"

definition subs_inv :: "subscriber_inner \<Rightarrow> subscriber_guard list \<Rightarrow> bool" where
  "subs_inv r gs \<longleftrightarrow> counts False (si_exact r) gs \<and> counts True (si_prefix r) gs"

lemma length_filter_remove_at:
  "i < length gs \<Longrightarrow> length (filter P gs) = (if P (gs ! i) then 1 else 0) + length (filter P (remove_at i gs))"
  unfolding remove_at_def
  by (subst id_take_nth_drop [of i gs]) (auto simp: nth_append)

lemma counts_up:
  "counts b m gs \<Longrightarrow> counts b (if sg_is_prefix g = b then count_up (sg_key g) m else m) (gs @ [g])"
  by (cases g) (auto simp: counts_def count_up_def Let_def update_conv' fun_upd_def split: if_splits)

lemma counts_down:
  assumes "counts b m gs" "i < length gs" "sg_is_prefix (gs ! i) = b"
  shows "\<exists>m'. count_down (sg_key (gs ! i)) m = Some m' \<and> counts b m' (remove_at i gs)"
proof -
  let ?k = "sg_key (gs ! i)" and ?n = "\<lambda>gs k. length (filter (\<lambda>g. g = \<lparr>sg_key = k, sg_is_prefix = b\<rparr>) gs)"
  have n: "?n gs k = (if k = ?k then 1 else 0) + ?n (remove_at i gs) k" for k
    using length_filter_remove_at [OF assms(2), of "\<lambda>g. g = \<lparr>sg_key = k, sg_is_prefix = b\<rparr>"] assms(3)
    by (cases "gs ! i") auto
  have m: "map_of m k = (if ?n gs k = 0 then None else Some (?n gs k))" for k
    using assms(1) by (simp add: counts_def Let_def)
  show ?thesis
  proof (cases "?n (remove_at i gs) ?k = 0")
    case True
    then have "count_down ?k m = Some (AList.delete ?k m)" using m [of ?k] n [of ?k] by (simp add: count_down_def)
    moreover have "counts b (AList.delete ?k m) (remove_at i gs)"
      using True m n by (simp add: counts_def Let_def delete_conv')
    ultimately show ?thesis by blast
  next
    case False
    then have "count_down ?k m = Some (AList.update ?k (?n (remove_at i gs) ?k) m)"
      using m [of ?k] n [of ?k] by (simp add: count_down_def)
    moreover have "counts b (AList.update ?k (?n (remove_at i gs) ?k) m) (remove_at i gs)"
      using False m n by (simp add: counts_def Let_def update_conv')
    ultimately show ?thesis by blast
  qed
qed

lemma counts_other:
  "counts b m gs \<Longrightarrow> i < length gs \<Longrightarrow> sg_is_prefix (gs ! i) \<noteq> b \<Longrightarrow> counts b m (remove_at i gs)"
  using length_filter_remove_at [of i gs] by (force simp: counts_def)

lemma subs_inv_step:
  assumes "subs_inv r gs"
  shows "\<exists>r' gs'. sub_step op (r, gs) = Some (r', gs') \<and> subs_inv r' gs'"
proof (cases op)
  case (Subscribe p)
  have "counts False (if sg_is_prefix (guard_of p) = False then count_up (sg_key (guard_of p)) (si_exact r) else si_exact r) (gs @ [guard_of p])"
    "counts True (if sg_is_prefix (guard_of p) = True then count_up (sg_key (guard_of p)) (si_prefix r) else si_prefix r) (gs @ [guard_of p])"
    using assms counts_up unfolding subs_inv_def by blast+
  with Subscribe show ?thesis
    by (cases "sg_is_prefix (guard_of p)") (simp_all add: subs_register_def Let_def subs_inv_def)
next
  case (Disconnect i)
  show ?thesis
  proof (cases "i < length gs")
    case True
    show ?thesis
    proof (cases "sg_is_prefix (gs ! i)")
      case prefix: True
      then obtain m where "count_down (sg_key (gs ! i)) (si_prefix r) = Some m" "counts True m (remove_at i gs)"
        using assms True counts_down [of True "si_prefix r" gs i] by (auto simp: subs_inv_def)
      with prefix True Disconnect assms counts_other [of False "si_exact r" gs i] show ?thesis
        by (simp add: guard_drop_def subs_inv_def)
    next
      case exact: False
      then obtain m where "count_down (sg_key (gs ! i)) (si_exact r) = Some m" "counts False m (remove_at i gs)"
        using assms True counts_down [of False "si_exact r" gs i] by (auto simp: subs_inv_def)
      with exact True Disconnect assms counts_other [of True "si_prefix r" gs i] show ?thesis
        by (simp add: guard_drop_def subs_inv_def)
    qed
  qed (use assms Disconnect in simp)
qed

lemma subs_inv_run:
  "subs_inv r gs \<Longrightarrow> \<exists>r' gs'. fold_opt sub_step ops (r, gs) = Some (r', gs') \<and> subs_inv r' gs'"
proof (induction ops arbitrary: r gs)
  case Nil
  then show ?case by simp
next
  case (Cons op ops)
  from subs_inv_step [OF Cons.prems, of op] obtain r' gs' where s: "sub_step op (r, gs) = Some (r', gs')" "subs_inv r' gs'"
    by blast
  from Cons.IH [OF s(2)] s(1) show ?case by simp
qed

lemma counts_mem:
  assumes "counts b m gs"
  shows "k \<in> fst ` set m \<longleftrightarrow> \<lparr>sg_key = k, sg_is_prefix = b\<rparr> \<in> set gs"
proof -
  let ?l = "filter (\<lambda>g. g = \<lparr>sg_key = k, sg_is_prefix = b\<rparr>) gs"
  have "map_of m k = (if length ?l = 0 then None else Some (length ?l))"
    using assms by (simp only: counts_def Let_def)
  then have "map_of m k = None \<longleftrightarrow> ?l = []" by (simp split: if_splits)
  moreover have "?l = [] \<longleftrightarrow> \<lparr>sg_key = k, sg_is_prefix = b\<rparr> \<notin> set gs" by (auto simp: filter_empty_conv)
  ultimately show ?thesis unfolding map_of_eq_None_iff by blast
qed

lemma would_reach_guards:
  assumes "subs_inv r gs"
  shows "would_reach c r \<longleftrightarrow> (\<exists>g \<in> set gs. guard_passes g c)"
proof -
  have "would_reach c r \<longleftrightarrow> \<lparr>sg_key = c, sg_is_prefix = False\<rparr> \<in> set gs \<or>
      (\<exists>k. \<lparr>sg_key = k, sg_is_prefix = True\<rparr> \<in> set gs \<and> starts_with k c)"
    using counts_mem [of False "si_exact r" gs] counts_mem [of True "si_prefix r" gs] assms
    unfolding would_reach_def subs_inv_def map_of_eq_None_iff list_ex_iff by force
  also have "\<dots> \<longleftrightarrow> (\<exists>g \<in> set gs. guard_passes g c)"
  proof
    assume "\<exists>g \<in> set gs. guard_passes g c"
    then obtain g where g: "g \<in> set gs" "guard_passes g c" by blast
    then show "\<lparr>sg_key = c, sg_is_prefix = False\<rparr> \<in> set gs \<or>
      (\<exists>k. \<lparr>sg_key = k, sg_is_prefix = True\<rparr> \<in> set gs \<and> starts_with k c)"
    proof (cases "sg_is_prefix g")
      case True
      then have "g = \<lparr>sg_key = sg_key g, sg_is_prefix = True\<rparr>" by simp
      with True g show ?thesis by (metis guard_passes_def)
    next
      case False
      then have "g = \<lparr>sg_key = sg_key g, sg_is_prefix = False\<rparr>" by simp
      with False g show ?thesis by (metis guard_passes_def)
    qed
  qed (force simp: guard_passes_def)
  finally show ?thesis .
qed

lemma guard_of_passes: "guard_passes (guard_of pattern) c \<longleftrightarrow> sse_passes pattern c"
  by (auto simp: guard_passes_def guard_of_def sse_passes_def split: option.splits)

section \<open>Properties\<close>

text \<open>C31: through any sequence of SSE connections and disconnects the counting never panics,
  and \<open>would_reach\<close> says exactly whether one of the streams still connected would pass a
  message for that chat on.\<close>

theorem would_reach_exact:
  "\<exists>r gs. fold_opt sub_step ops (subs_new, []) = Some (r, gs) \<and>
     (\<forall>c. would_reach c r \<longleftrightarrow> (\<exists>g \<in> set gs. guard_passes g c)) \<and>
     (\<forall>pattern m. guard_passes (guard_of pattern) m =
        (handle_sse pattern (BMessage m content atts i t react) \<noteq> None))"
proof -
  have "subs_inv subs_new []" by (simp add: subs_inv_def counts_def subs_new_def)
  from subs_inv_run [OF this] would_reach_guards show ?thesis
    by (fastforce simp: guard_of_passes)
qed

text \<open>An external event is never lost without a trace while the root agent listens: it
  goes unchanged to the agent it names when that agent runs, to the root agent when it names
  none, and otherwise the root agent is told which agent was not found. (The notice carries
  the target's name only, the event's own source, type and data are gone.)\<close>

theorem handle_event_routes:
  "snd (handle_event root_tx True r source ty data prio agent) =
     (let p = (case prio of Some p \<Rightarrow> p | None \<Rightarrow> 5) in
      case agent of
        None \<Rightarrow> [(root_tx, HEExternalEvent source ty data p)]
      | Some name \<Rightarrow>
          if name = ''root'' then [(root_tx, HEExternalEvent source ty data p)]
          else if running_agent r name
          then [(ae_event_tx (the (map_of (ar_agents r) name)), HEExternalEvent source ty data p)]
          else [(root_tx, HEExternalEvent (''routed-from:'' @ name) ''agent-not-found''
                  (JObj [(''original_target'', JStr name)]) p)])"
  by (auto simp: handle_event_def send_to_def running_agent_def Let_def split: option.splits)

end
