(* ===== verification/Py_Objects.thy ===== *)
theory Py_Objects
  imports Renderer Http_Server
begin

text \<open>
  What an agent's script sees and asks for (src/src/python.rs): the effects a turn collects, the
  objects the harness hands out, the calls on them and the script itself. The Python
  interpreter is not modelled: a script is the tree of the calls it makes, each continued by
  what the call returned or raised, so every script is some tree, whatever its text. Values
  arrive after pyo3's conversion (an argument that does not convert raises and nothing is
  called), seconds as whole numbers. The file system, the compiler that checks a hook's
  source, the clock and the outcome of waiting for a channel come with the context.
  A panic inside a call is \<open>None\<close>: it holds the lock of the timers, so the commit panics too
  and the turn fails whether or not the script caught it.
\<close>

section \<open>Effects\<close>

record outbound_message =
  om_chat_id :: string
  om_content :: string
  om_attachments :: "string list"
  om_react_to :: "string option"

record fork_child =
  fc_name :: string
  fc_task :: string
  fc_model :: "string option"
  fc_max_turns :: "u32 option"
  fc_can_compact :: bool
  fc_inherit_history :: bool
  fc_attach :: "string list"
  fc_prefix_context :: "string option"
  fc_prefix_attach :: "string list"

record agent_message_request =
  am_recipient :: string
  am_content :: string
  am_priority :: u8

record external_effects =
  ef_messages :: "outbound_message list"
  ef_process_starts :: "process_start_request list"
  ef_process_kills :: "string list"
  ef_stdin_writes :: "(string \<times> string) list"
  ef_stdin_closes :: "string list"
  ef_child_kills :: "string list"
  ef_view_paths :: "string list"
  ef_fork_requests :: "fork_child list list"
  ef_agent_messages :: "agent_message_request list"
  ef_compaction_script_appends :: "string list"
  ef_compact_called :: bool
  ef_compaction_requested :: bool
  ef_done_called :: bool
  ef_done_result :: "(string, json) hmap"
  ef_memory_pins :: "(string \<times> string) list"
  ef_memory_unpins :: "string list"

definition no_effects :: external_effects where
  "no_effects =
     \<lparr>ef_messages = [], ef_process_starts = [], ef_process_kills = [], ef_stdin_writes = [], ef_stdin_closes = [],
      ef_child_kills = [], ef_view_paths = [], ef_fork_requests = [], ef_agent_messages = [],
      ef_compaction_script_appends = [], ef_compact_called = False, ef_compaction_requested = False,
      ef_done_called = False, ef_done_result = [], ef_memory_pins = [], ef_memory_unpins = []\<rparr>"

section \<open>Objects as Python sees them\<close>

record py_work_item =
  pw_id :: string
  pw_priority :: u8
  pw_time :: string
  pw_item_type :: string
  pw_fields :: "(string, json) hmap"

definition opt_json :: "string option \<Rightarrow> json" where
  "opt_json s = (case s of Some s \<Rightarrow> JStr s | None \<Rightarrow> JNull)"

fun item_type_name :: "work_item_type \<Rightarrow> string" where
  "item_type_name (UserMessage c u t r) = ''UserMessage''"
| "item_type_name (TimerFired t e d) = ''TimerFired''"
| "item_type_name (ProcessCompleted p e out d) = ''ProcessCompleted''"
| "item_type_name (ProcessFailed p e out d) = ''ProcessFailed''"
| "item_type_name (ProcessTimeout p) = ''ProcessTimeout''"
| "item_type_name (ChildAgentCompleted n r t s sm c h) = ''ChildAgentCompleted''"
| "item_type_name (AgentMessage f c) = ''AgentMessage''"
| "item_type_name (ExternalEvent s e d) = ''ExternalEvent''"
| "item_type_name (View ps) = ''View''"
| "item_type_name Compaction = ''Compaction''"
| "item_type_name (AgentStartup c) = ''AgentStartup''"
| "item_type_name (HookException n e orig) = ''HookException''"

fun item_fields :: "work_item_type \<Rightarrow> (string, json) hmap" where
  "item_fields (UserMessage chat_id user content message_ref) =
     (case message_ref of Some r \<Rightarrow> [(''message_ref'', JStr r)] | None \<Rightarrow> []) @
     [(''chat_id'', JStr chat_id), (''user'', JStr user), (''content'', JStr content)]"
| "item_fields (TimerFired timer_id every description) =
     [(''timer_id'', JStr (aid timer_id)),
      (''every'', case every of Some d \<Rightarrow> JInt (int (d div 1000000000)) | None \<Rightarrow> JNull),
      (''description'', JStr description)]"
| "item_fields (ProcessCompleted pid exit_code preview description) =
     [(''pid'', JStr (aid pid)), (''exit_code'', JInt exit_code), (''output_preview'', opt_json preview),
      (''description'', JStr description)]"
| "item_fields (ProcessFailed pid error preview description) =
     [(''pid'', JStr (aid pid)), (''error'', JStr error), (''output_preview'', opt_json preview),
      (''description'', JStr description)]"
| "item_fields (ProcessTimeout pid) = [(''pid'', JStr (aid pid))]"
| "item_fields (ChildAgentCompleted child_name result turns_used success summary cost_usd cache_hit_pct) =
     [(''child_name'', JStr child_name), (''result'', JObj result), (''turns_used'', JInt (int (unat turns_used))),
      (''success'', JBool success), (''summary'', JStr summary), (''cost_usd'', JFloat cost_usd),
      (''cache_hit_pct'', JInt (int (unat cache_hit_pct)))]"
| "item_fields (AgentMessage from_name content) = [(''from_agent'', JStr from_name), (''content'', JStr content)]"
| "item_fields (ExternalEvent source event_type data) =
     [(''source'', JStr source), (''event_type'', JStr event_type), (''data'', data)]"
| "item_fields (View paths) = [(''paths'', JArr (map JStr paths))]"
| "item_fields Compaction = [(''description'', JStr ''You must compact your context.'')]"
| "item_fields (AgentStartup changelog) =
     (case changelog of Some c \<Rightarrow> [(''changelog'', JStr c)] | None \<Rightarrow> []) @
     [(''description'', JStr (''Harness restarted. Any processes/bridges you were managing are dead '' @ em_dash @
       '' inspect memory and reconnect as needed.''))]"
| "item_fields (HookException hname error original) =
     [(''hook_name'', JStr hname), (''error'', JStr error), (''original'', original)]"

definition work_item_to_py :: "(time \<Rightarrow> string) \<Rightarrow> work_item \<Rightarrow> py_work_item" where
  "work_item_to_py format_utc item =
     \<lparr>pw_id = aid (wi_id item), pw_priority = wi_priority item, pw_time = format_utc (wi_time item),
      pw_item_type = item_type_name (wi_type item),
      pw_fields = item_fields (wi_type item) @ [(''attachments'', JArr (map JStr (wi_attachments item)))]\<rparr>"

text \<open>\<open>__getattr__\<close>; the field map lists its keys in order.\<close>

definition item_getattr :: "py_work_item \<Rightarrow> string \<Rightarrow> string + json" where
  "item_getattr w name =
     (if name = ''type'' then Inr (JStr (pw_item_type w))
      else case map_of (pw_fields w) name of
        Some v \<Rightarrow> Inr v
      | None \<Rightarrow> Inl (pw_item_type w @ '' work item has no field '' @ quoted name @ ''. Available fields: '' @
                     join '', '' (sort (map fst (pw_fields w)))))"

definition item_repr :: "py_work_item \<Rightarrow> string" where
  "item_repr w = ''WorkItem(id='' @ quoted (pw_id w) @ '', type='' @ quoted (pw_item_type w) @ '', priority='' @
     show_nat (unat (pw_priority w)) @ '')''"

record py_history_entry =
  ph_code :: string
  ph_output :: string
  ph_full_output :: string
  ph_time :: string

fun history_entry_to_py :: "(time \<Rightarrow> string) \<Rightarrow> history_entry \<Rightarrow> py_history_entry" where
  "history_entry_to_py f (Execution i t code out e) = \<lparr>ph_code = code, ph_output = out, ph_full_output = out, ph_time = f t\<rparr>"
| "history_entry_to_py f (Summary i t d) = \<lparr>ph_code = [], ph_output = d, ph_full_output = d, ph_time = f t\<rparr>"
| "history_entry_to_py f (SystemAlert i t m) = \<lparr>ph_code = [], ph_output = m, ph_full_output = m, ph_time = f t\<rparr>"

section \<open>Calls and scripts\<close>

datatype py_error = PyErr string string \<comment> \<open>class, message\<close>

datatype py_call =
    WQGet nat | WQLen | WQPopFront | WQRemove string
  | MemGetItem string | MemSetItem string "py_error + json" | MemDelItem string | MemContains string
  | MemGet string | MemSet string "py_error + json" u8 | MemSetPriority string u8 | MemGetPriority string
  | MemPin string string | MemUnpin string | MemListPinned
  | MemMarkSensitive string | MemUnmarkSensitive string
  | TimerAdd "nat option" "int option" u8 string \<comment> \<open>every (s), at (epoch seconds), priority, description\<close>
  | TimerCancel string | TimerList
  | HistGet string | HistReplace string string | HistRemove string | HistAdd string
  | SendMessage string string "string list" "string option"
  | WaitForChannel string nat
  | ShellExec string "string list" "(string, string) hmap" string "nat option" u8 u8 "nat option" bool
      \<comment> \<open>cmd, args, env, description, alert timer (s), success\_prio, fail\_prio, block\_for (ms), interactive\<close>
  | ShellInput string string | ShellCloseStdin string | KillChild string
  | ShellStatus string | ShellOutput string "nat option" | ShellKill string | ProcessesList
  | ViewPaths "string list" | AcknowledgeTimer string
  | Compact | RequestCompaction
  | Fork "fork_child list"
  | MessageAgent string string u8
  | RegisterHook string int string string nat | RemoveHook string | ListHooks
  | DoneCall "(string \<times> (py_error + json)) list"
  | Print string

datatype py_value =
    VNone
  | VBool bool
  | VNat nat
  | VStr string
  | VJson json
  | VItem py_work_item
  | VEntry py_history_entry
  | VStrs "string list"
  | VTimers "(string \<times> string \<times> u8) list"
  | VProcs "(string \<times> string \<times> string \<times> string) list"
  | VHooks "(string \<times> int \<times> string) list"

text \<open>
  How a script goes on. \<open>End r l\<close> is its normal end: \<open>r\<close> is what a hook returned
  (nothing, or its event with the priority and note that have the right type), \<open>l\<close> the
  local \<open>compaction_script\<close> (absent, an error when it is not a string, or its text); each
  executor reads the one it looks for. \<open>Hang k\<close> is a script still running when its time is
  up; \<open>k\<close> is what it does after the interrupt.
\<close>

datatype py_return = ReturnsNone | ReturnsEvent "u8 option" "string option"

datatype script =
    End py_return "(string + string) option"
  | Raise string
  | Hang script
  | Call py_call "py_error + py_value \<Rightarrow> script"

section \<open>The context and the transaction\<close>

record py_ctx =
  px_is_compaction :: bool
  px_process_outputs :: "(string, string) hmap"
  px_child_depth :: u32
  px_pinned :: "(string, string) hmap"
  px_subscribers :: "subscriber_inner option"
  px_runtime :: bool \<comment> \<open>a tokio runtime was found\<close>
  px_waits :: "string \<Rightarrow> nat \<Rightarrow> (subscriber_inner \<times> bool) list"
  px_is_file :: "string \<Rightarrow> bool"
  px_compile :: "string \<Rightarrow> string \<Rightarrow> string \<Rightarrow> string option" \<comment> \<open>source, file name, mode; the error\<close>
  px_format_utc :: "time \<Rightarrow> string"
  px_now :: time
  px_utc_range :: "time \<times> time"
  px_hook_mode :: bool

record py_txn =
  tx_state :: harness_state
  tx_effects :: external_effects
  tx_stdout :: string

type_synonym py_result = "((py_error + py_value) \<times> py_txn) option"

definition returns :: "py_value \<Rightarrow> py_txn \<Rightarrow> py_result" where
  "returns v t = Some (Inr v, t)"

definition raise :: "string \<Rightarrow> string \<Rightarrow> py_txn \<Rightarrow> py_result" where
  "raise cls msg t = Some (Inl (PyErr cls msg), t)"

definition runtime_error :: "string \<Rightarrow> py_txn \<Rightarrow> py_result" where
  "runtime_error = raise ''RuntimeError''"

definition with_state :: "(harness_state \<Rightarrow> harness_state) \<Rightarrow> py_txn \<Rightarrow> py_txn" where
  "with_state f t = t\<lparr>tx_state := f (tx_state t)\<rparr>"

definition with_effects :: "(external_effects \<Rightarrow> external_effects) \<Rightarrow> py_txn \<Rightarrow> py_txn" where
  "with_effects f t = t\<lparr>tx_effects := f (tx_effects t)\<rparr>"

text \<open>The next id, drawn in the transaction.\<close>

definition tx_next_id :: "py_txn \<Rightarrow> agent_id \<times> py_txn" where
  "tx_next_id t = (let (i, s) = draw_id (tx_state t) in (i, t\<lparr>tx_state := s\<rparr>))"

end
