(* ===== verification/Python_Api.thy ===== *)
theory Python_Api
  imports Py_Objects
begin

text \<open>
  The calls a script can make (the \<open>pymethods\<close> of src/src/python.rs), one definition per
  method. A turn works on a copy of the state; what cannot be undone is collected in the
  effects.
\<close>

section \<open>work\_queue\<close>

definition wq_getitem :: "py_ctx \<Rightarrow> nat \<Rightarrow> py_txn \<Rightarrow> py_result" where
  "wq_getitem c i t =
     (case wq_get (work_queue (tx_state t)) i of
        Some item \<Rightarrow> returns (VItem (work_item_to_py (px_format_utc c) item)) t
      | None \<Rightarrow> raise ''IndexError'' ''work queue index out of range'' t)"

definition wq_pop_front :: "py_ctx \<Rightarrow> py_txn \<Rightarrow> py_result" where
  "wq_pop_front c t =
     (let q = work_queue (tx_state t) in
      if wq_is_empty q then returns VNone t
      else case wq_remove (wi_id (wq_items q ! 0)) q of
        (None, q') \<Rightarrow> None
      | (Some item, q') \<Rightarrow>
          returns (VItem (work_item_to_py (px_format_utc c) item)) (with_state (\<lambda>s. s\<lparr>work_queue := q'\<rparr>) t))"

definition wq_remove_call :: "string \<Rightarrow> py_txn \<Rightarrow> py_result" where
  "wq_remove_call i t =
     returns VNone (with_state (\<lambda>s. s\<lparr>work_queue := snd (wq_remove (AgentId i) (work_queue s))\<rparr>) t)"

section \<open>memory\<close>

definition mem_getitem :: "string \<Rightarrow> py_txn \<Rightarrow> py_result" where
  "mem_getitem k t =
     (case map_of (memory (tx_state t)) k of
        Some v \<Rightarrow> returns (VJson v) t
      | None \<Rightarrow> raise ''KeyError'' k t)"

definition mem_setitem :: "string \<Rightarrow> py_error + json \<Rightarrow> py_txn \<Rightarrow> py_result" where
  "mem_setitem k v t =
     (case v of
        Inl e \<Rightarrow> Some (Inl e, t)
      | Inr j \<Rightarrow> returns VNone (with_state (\<lambda>s. s\<lparr>
          memory_priorities := (if map_of (memory_priorities s) k = None
            then AList.update k 5 (memory_priorities s) else memory_priorities s),
          memory := AList.update k j (memory s)\<rparr>) t))"

definition mem_delitem :: "string \<Rightarrow> py_txn \<Rightarrow> py_result" where
  "mem_delitem k t = returns VNone (with_state (\<lambda>s. s\<lparr>memory := AList.delete k (memory s),
     memory_priorities := AList.delete k (memory_priorities s)\<rparr>) t)"

definition mem_contains :: "py_ctx \<Rightarrow> string \<Rightarrow> py_txn \<Rightarrow> py_result" where
  "mem_contains c k t =
     returns (VBool (map_of (memory (tx_state t)) k \<noteq> None \<or> map_of (px_pinned c) k \<noteq> None)) t"

text \<open>\<open>get\<close>; the caller's default is \<open>VNone\<close>'s place.\<close>

definition mem_get :: "py_ctx \<Rightarrow> string \<Rightarrow> py_txn \<Rightarrow> py_result" where
  "mem_get c k t =
     (case map_of (memory (tx_state t)) k of
        Some v \<Rightarrow> returns (VJson v) t
      | None \<Rightarrow> (case map_of (px_pinned c) k of
          Some s \<Rightarrow> returns (VStr s) t
        | None \<Rightarrow> returns VNone t))"

definition mem_set :: "string \<Rightarrow> py_error + json \<Rightarrow> u8 \<Rightarrow> py_txn \<Rightarrow> py_result" where
  "mem_set k v p t =
     (case v of
        Inl e \<Rightarrow> Some (Inl e, t)
      | Inr j \<Rightarrow> returns VNone (with_state (\<lambda>s. s\<lparr>memory := AList.update k j (memory s),
          memory_priorities := AList.update k p (memory_priorities s)\<rparr>) t))"

definition mem_set_priority :: "string \<Rightarrow> u8 \<Rightarrow> py_txn \<Rightarrow> py_result" where
  "mem_set_priority k p t =
     returns VNone (with_state (\<lambda>s. s\<lparr>memory_priorities := AList.update k p (memory_priorities s)\<rparr>) t)"

definition mem_get_priority :: "string \<Rightarrow> py_txn \<Rightarrow> py_result" where
  "mem_get_priority k t =
     returns (VNat (case map_of (memory_priorities (tx_state t)) k of Some p \<Rightarrow> unat p | None \<Rightarrow> 5)) t"

definition mem_pin :: "string \<Rightarrow> string \<Rightarrow> py_txn \<Rightarrow> py_result" where
  "mem_pin k v t = returns VNone (with_effects (\<lambda>e. e\<lparr>ef_memory_pins := ef_memory_pins e @ [(k, v)]\<rparr>) t)"

definition mem_unpin :: "string \<Rightarrow> py_txn \<Rightarrow> py_result" where
  "mem_unpin k t = returns VNone (with_effects (\<lambda>e. e\<lparr>ef_memory_unpins := ef_memory_unpins e @ [k]\<rparr>) t)"

definition mem_list_pinned :: "py_ctx \<Rightarrow> py_txn \<Rightarrow> py_result" where
  "mem_list_pinned c t = returns (VStrs (sort (map fst (px_pinned c)))) t"

definition mem_mark_sensitive :: "string \<Rightarrow> py_txn \<Rightarrow> py_result" where
  "mem_mark_sensitive k t = returns VNone (with_state (\<lambda>s. s\<lparr>sensitive_keys := List.insert k (sensitive_keys s)\<rparr>) t)"

definition mem_unmark_sensitive :: "string \<Rightarrow> py_txn \<Rightarrow> py_result" where
  "mem_unmark_sensitive k t = returns VNone (with_state (\<lambda>s. s\<lparr>sensitive_keys := removeAll k (sensitive_keys s)\<rparr>) t)"

section \<open>timers\<close>

text \<open>Epochs outside the range of a \<open>DateTime\<close> fall back to a minute from now.\<close>

definition build_timer_schedule :: "py_ctx \<Rightarrow> nat option \<Rightarrow> int option \<Rightarrow> timer_schedule option" where
  "build_timer_schedule c every_secs at_epoch =
     (let (min_utc, max_utc) = px_utc_range c;
          in_a_minute = map_option OneShot (rearm max_utc (px_now c) 60000000000)
      in case every_secs of
        Some secs \<Rightarrow> map_option (Recurring (secs * 1000000000)) (rearm max_utc (px_now c) (secs * 1000000000))
      | None \<Rightarrow> (case at_epoch of
          Some epoch \<Rightarrow>
            if min_utc \<le> epoch * 1000000000 \<and> epoch * 1000000000 \<le> max_utc
            then Some (OneShot (epoch * 1000000000)) else in_a_minute
        | None \<Rightarrow> in_a_minute))"

definition timers_add :: "py_ctx \<Rightarrow> nat option \<Rightarrow> int option \<Rightarrow> u8 \<Rightarrow> string \<Rightarrow> py_txn \<Rightarrow> py_result" where
  "timers_add c every at prio description t =
     (let (i, t) = tx_next_id t in
      case build_timer_schedule c every at of
        None \<Rightarrow> None
      | Some sched \<Rightarrow>
          returns (VStr (aid i)) (with_state (\<lambda>s. s\<lparr>timer_manager := tm_add
            \<lparr>t_id = i, t_description = description, t_priority = prio, t_schedule = sched,
             t_created_at = px_now c, pending_ack = False\<rparr> (timer_manager s)\<rparr>) t))"

definition timers_cancel :: "string \<Rightarrow> py_txn \<Rightarrow> py_result" where
  "timers_cancel i t =
     returns VNone (with_state (\<lambda>s. s\<lparr>timer_manager := snd (tm_cancel (AgentId i) (timer_manager s))\<rparr>) t)"

definition timers_list :: "py_txn \<Rightarrow> py_result" where
  "timers_list t =
     returns (VTimers (map (\<lambda>x. (aid (t_id x), t_description x, t_priority x)) (tm_list (timer_manager (tx_state t))))) t"

section \<open>history\<close>

definition history_getitem :: "py_ctx \<Rightarrow> string \<Rightarrow> py_txn \<Rightarrow> py_result" where
  "history_getitem c i t =
     (case List.find (\<lambda>e. aid (he_id e) = i) (eh_entries (event_history (tx_state t))) of
        Some e \<Rightarrow> returns (VEntry (history_entry_to_py (px_format_utc c) e)) t
      | None \<Rightarrow> raise ''KeyError'' (''No history entry with id '' @ i) t)"

definition may_modify :: "py_ctx \<Rightarrow> agent_id \<Rightarrow> harness_state \<Rightarrow> bool" where
  "may_modify c i s \<longleftrightarrow> px_is_compaction c \<or> is_modifiable i (event_history s)"

definition history_replace :: "py_ctx \<Rightarrow> string \<Rightarrow> string \<Rightarrow> py_txn \<Rightarrow> py_result" where
  "history_replace c i description t =
     returns VNone (if may_modify c (AgentId i) (tx_state t)
       then with_state (\<lambda>s. s\<lparr>event_history := replace_with_summary (AgentId i) description (event_history s)\<rparr>) t
       else t)"

definition history_remove :: "py_ctx \<Rightarrow> string \<Rightarrow> py_txn \<Rightarrow> py_result" where
  "history_remove c i t =
     returns VNone (if may_modify c (AgentId i) (tx_state t)
       then with_state (\<lambda>s. s\<lparr>event_history := snd (eh_remove (AgentId i) (event_history s))\<rparr>) t
       else t)"

definition history_add :: "py_ctx \<Rightarrow> string \<Rightarrow> py_txn \<Rightarrow> py_result" where
  "history_add c text t =
     (if \<not> px_is_compaction c then runtime_error ''history.add() can only be used during compaction'' t
      else let (i, t) = tx_next_id t in
           returns VNone (with_state (push_history (Summary i (px_now c) text)) t))"

section \<open>The harness\<close>

definition send_message ::
  "py_ctx \<Rightarrow> string \<Rightarrow> string \<Rightarrow> string list \<Rightarrow> string option \<Rightarrow> py_txn \<Rightarrow> py_result" where
  "send_message c chat_id content attach react_to t =
     (if (case px_subscribers c of Some r \<Rightarrow> \<not> would_reach chat_id r | None \<Rightarrow> False)
      then runtime_error (''send_message: no subscriber for chat_id '' @ quoted chat_id @
        ''. If you just spawned the bridge, call wait_for_message_channel('' @ quoted chat_id @
        '', timeout_ms=...) first.'') t
      else case List.find (\<lambda>p. \<not> px_is_file c p) attach of
        Some p \<Rightarrow> raise ''FileNotFoundError'' (''send_message: attachment not found: '' @ p) t
      | None \<Rightarrow> returns VNone (with_effects (\<lambda>e. e\<lparr>ef_messages := ef_messages e @
          [\<lparr>om_chat_id = chat_id, om_content = content, om_attachments = attach, om_react_to = react_to\<rparr>]\<rparr>) t))"

definition wait_for_message_channel :: "py_ctx \<Rightarrow> string \<Rightarrow> nat \<Rightarrow> py_txn \<Rightarrow> py_result" where
  "wait_for_message_channel c chat_id timeout_ms t =
     (if px_hook_mode c then runtime_error ''wait_for_message_channel: hooks cannot block on external state'' t
      else if px_subscribers c = None \<or> \<not> px_runtime c
      then runtime_error ''wait_for_message_channel: not available in this context (no HTTP server)'' t
      else if wait_for chat_id (px_waits c chat_id timeout_ms) = Some True then returns VNone t
      else raise ''TimeoutError'' (''no subscriber for '' @ quoted chat_id @ '' after '' @ show_nat timeout_ms @ ''ms'') t)"

definition shell_exec ::
  "py_ctx \<Rightarrow> string \<Rightarrow> string list \<Rightarrow> (string, string) hmap \<Rightarrow> string \<Rightarrow> nat option \<Rightarrow> u8 \<Rightarrow> u8 \<Rightarrow>
   nat option \<Rightarrow> bool \<Rightarrow> py_txn \<Rightarrow> py_result" where
  "shell_exec c cmd args env description alert_timer success_prio fail_prio block_for interactive t =
     (let alert_secs = (case alert_timer of Some v \<Rightarrow> v | None \<Rightarrow> 300) in
      if px_hook_mode c \<and> block_for \<noteq> None
      then runtime_error (''shell_exec(block_for=...) not available in hooks '' @ em_dash @
        '' spawn fire-and-forget, then register a second hook matching the ProcessCompleted event to handle the result'') t
      else let (i, t) = tx_next_id t in
        returns (VStr (aid i))
          (with_effects (\<lambda>e. e\<lparr>ef_process_starts := ef_process_starts e @
             [\<lparr>ps_id = i, ps_cmd = cmd, ps_args = args, ps_env = env, ps_description = description,
               ps_alert_timer_secs = alert_secs, ps_fail_prio = fail_prio, ps_block_for_ms = block_for,
               ps_interactive = interactive\<rparr>]\<rparr>)
          (with_state (\<lambda>s. s\<lparr>process_manager := pm_add
             \<lparr>mp_id = i, mp_cmd = cmd, mp_args = args, mp_env = env, mp_description = description,
              mp_status = Running, mp_success_prio = success_prio, mp_fail_prio = fail_prio,
              mp_started_at = px_now c, mp_os_pid = None\<rparr> (process_manager s)\<rparr>) t)))"

definition shell_input :: "string \<Rightarrow> string \<Rightarrow> py_txn \<Rightarrow> py_result" where
  "shell_input pid data t = returns VNone (with_effects (\<lambda>e. e\<lparr>ef_stdin_writes := ef_stdin_writes e @ [(pid, data)]\<rparr>) t)"

definition shell_close_stdin :: "string \<Rightarrow> py_txn \<Rightarrow> py_result" where
  "shell_close_stdin pid t = returns VNone (with_effects (\<lambda>e. e\<lparr>ef_stdin_closes := ef_stdin_closes e @ [pid]\<rparr>) t)"

definition kill_child :: "string \<Rightarrow> py_txn \<Rightarrow> py_result" where
  "kill_child nm t = returns VNone (with_effects (\<lambda>e. e\<lparr>ef_child_kills := ef_child_kills e @ [nm]\<rparr>) t)"

definition shell_status :: "string \<Rightarrow> py_txn \<Rightarrow> py_result" where
  "shell_status pid t =
     returns (VStr (case pm_get (AgentId pid) (process_manager (tx_state t)) of
       None \<Rightarrow> ''unknown''
     | Some p \<Rightarrow> (case mp_status p of Running \<Rightarrow> ''running'' | Completed n \<Rightarrow> ''completed'' | Failed e \<Rightarrow> ''failed''))) t"

text \<open>The last \<open>n\<close> lines, or all of the output.\<close>

definition shell_output :: "py_ctx \<Rightarrow> string \<Rightarrow> nat option \<Rightarrow> py_txn \<Rightarrow> py_result" where
  "shell_output c pid n t =
     (let full = (case map_of (px_process_outputs c) pid of Some s \<Rightarrow> s | None \<Rightarrow> [])
      in returns (VStr (case n of
           Some n \<Rightarrow> (let ls = lines full in join [nl] (drop (length ls - n) ls))
         | None \<Rightarrow> full)) t)"

definition shell_kill :: "string \<Rightarrow> py_txn \<Rightarrow> py_result" where
  "shell_kill pid t = returns VNone (with_effects (\<lambda>e. e\<lparr>ef_process_kills := ef_process_kills e @ [pid]\<rparr>) t)"

definition processes_list :: "py_txn \<Rightarrow> py_result" where
  "processes_list t =
     returns (VProcs (map (\<lambda>p. (aid (mp_id p), mp_cmd p, mp_description p,
       (case mp_status p of
          Running \<Rightarrow> ''running''
        | Completed n \<Rightarrow> ''completed (exit '' @ show_int n @ '')''
        | Failed e \<Rightarrow> ''failed: '' @ e))) (pm_processes (process_manager (tx_state t))))) t"

definition view_paths :: "py_ctx \<Rightarrow> string list \<Rightarrow> py_txn \<Rightarrow> py_result" where
  "view_paths c paths t =
     (case List.find (\<lambda>p. \<not> px_is_file c p) paths of
        Some p \<Rightarrow> raise ''FileNotFoundError'' (''view: file not found or not a regular file: '' @ p) t
      | None \<Rightarrow> returns VNone (with_effects (\<lambda>e. e\<lparr>ef_view_paths := ef_view_paths e @ paths\<rparr>) t))"

definition acknowledge_timer :: "py_ctx \<Rightarrow> string \<Rightarrow> py_txn \<Rightarrow> py_result" where
  "acknowledge_timer c i t =
     (case tm_acknowledge (snd (px_utc_range c)) (px_now c) (AgentId i) (timer_manager (tx_state t)) of
        None \<Rightarrow> None
      | Some m \<Rightarrow> returns VNone (with_state (\<lambda>s. s\<lparr>timer_manager := m\<rparr>) t))"

definition compact_call :: "py_ctx \<Rightarrow> py_txn \<Rightarrow> py_result" where
  "compact_call c t =
     (if px_hook_mode c then runtime_error ''compact: not available in hooks'' t
      else returns VNone (with_effects (\<lambda>e. e\<lparr>ef_compact_called := True\<rparr>) t))"

definition request_compaction :: "py_ctx \<Rightarrow> py_txn \<Rightarrow> py_result" where
  "request_compaction c t =
     (if px_hook_mode c then runtime_error ''request_compaction: not available in hooks'' t
      else returns VNone (with_effects (\<lambda>e. e\<lparr>ef_compaction_requested := True\<rparr>) t))"

text \<open>The first child with an invalid name stops a fork; turn limits are capped at 50.\<close>

fun fork_error :: "fork_child list \<Rightarrow> string option" where
  "fork_error [] = None"
| "fork_error (x # xs) = (case new_child (fc_name x) of Inl e \<Rightarrow> Some e | Inr n \<Rightarrow> fork_error xs)"

definition fork_settings :: "fork_child \<Rightarrow> fork_child" where
  "fork_settings x = x\<lparr>fc_max_turns := map_option (\<lambda>n. min n 50) (fc_max_turns x)\<rparr>"

definition fork_call :: "py_ctx \<Rightarrow> fork_child list \<Rightarrow> py_txn \<Rightarrow> py_result" where
  "fork_call c children t =
     (if px_hook_mode c then runtime_error ''fork: not available in hooks'' t
      else if px_child_depth c = 0 then runtime_error ''Cannot fork sub-agents at this depth'' t
      else if children = [] then raise ''ValueError'' ''fork() requires at least one child'' t
      else case fork_error children of
        Some e \<Rightarrow> raise ''ValueError'' (''ChildSettings.name invalid: '' @ e) t
      | None \<Rightarrow> returns (VStrs (map fc_name children))
          (with_effects (\<lambda>e. e\<lparr>ef_fork_requests := ef_fork_requests e @ [map fork_settings children]\<rparr>) t))"

definition message_agent :: "string \<Rightarrow> string \<Rightarrow> u8 \<Rightarrow> py_txn \<Rightarrow> py_result" where
  "message_agent nm content prio t =
     returns VNone (with_effects (\<lambda>e. e\<lparr>ef_agent_messages := ef_agent_messages e @
       [\<lparr>am_recipient = nm, am_content = content, am_priority = prio\<rparr>]\<rparr>) t)"

definition wrap_body :: "string \<Rightarrow> string" where
  "wrap_body process = join [nl] (map (\<lambda>l. ''    '' @ l) (lines process))"

text \<open>Replace if the name exists, push, sort by priority descending; \<open>sort_by\<close> is stable.\<close>

definition put_hook :: "hook \<Rightarrow> hook list \<Rightarrow> hook list" where
  "put_hook h hs = sort_key (\<lambda>h. - hook_priority h) (filter (\<lambda>h'. hook_name h' \<noteq> hook_name h) hs @ [h])"

definition register_hook ::
  "py_ctx \<Rightarrow> string \<Rightarrow> int \<Rightarrow> string \<Rightarrow> string \<Rightarrow> nat \<Rightarrow> py_txn \<Rightarrow> py_result" where
  "register_hook c nm prio mexpr process timeout_ms t =
     (if px_hook_mode c then runtime_error ''register_hook: not available inside a hook'' t
      else case px_compile c mexpr (''<hook:'' @ nm @ '':match>'') ''eval'' of
        Some e \<Rightarrow> raise ''SyntaxError'' (''match_expr: '' @ e) t
      | None \<Rightarrow>
          (case px_compile c (''def __hook():'' @ nl # wrap_body process) (''<hook:'' @ nm @ '':process>'') ''exec'' of
             Some e \<Rightarrow> raise ''SyntaxError'' (''process: '' @ e) t
           | None \<Rightarrow> returns VNone (with_state (\<lambda>s. s\<lparr>hooks := put_hook
               \<lparr>hook_name = nm, hook_priority = prio, match_expr = mexpr, hook_process = process,
                hook_timeout_ms = timeout_ms\<rparr> (hooks s)\<rparr>) t)))"

definition remove_hook :: "py_ctx \<Rightarrow> string \<Rightarrow> py_txn \<Rightarrow> py_result" where
  "remove_hook c nm t =
     (if px_hook_mode c then runtime_error ''remove_hook: not available inside a hook'' t
      else returns VNone (with_state (\<lambda>s. s\<lparr>hooks := filter (\<lambda>h. hook_name h \<noteq> nm) (hooks s)\<rparr>) t))"

definition list_hooks :: "py_txn \<Rightarrow> py_result" where
  "list_hooks t = returns (VHooks (map (\<lambda>h. (hook_name h, hook_priority h, match_expr h)) (hooks (tx_state t)))) t"

text \<open>\<open>done\<close> sets its flag before it converts the results, and keeps those it inserted
  before one that does not convert.\<close>

fun done_results :: "(string \<times> (py_error + json)) list \<Rightarrow> (string, json) hmap \<Rightarrow> py_error option \<times> (string, json) hmap" where
  "done_results [] m = (None, m)"
| "done_results ((k, Inl e) # rs) m = (Some e, m)"
| "done_results ((k, Inr v) # rs) m = done_results rs (AList.update k v m)"

definition done_call :: "py_ctx \<Rightarrow> (string \<times> (py_error + json)) list \<Rightarrow> py_txn \<Rightarrow> py_result" where
  "done_call c result t =
     (if px_hook_mode c then runtime_error ''done: not available in hooks'' t
      else let (err, m) = done_results result (ef_done_result (tx_effects t));
               t' = with_effects (\<lambda>e. e\<lparr>ef_done_called := True, ef_done_result := m\<rparr>) t
           in case err of Some e \<Rightarrow> Some (Inl e, t') | None \<Rightarrow> returns VNone t')"

definition stdout_write :: "string \<Rightarrow> py_txn \<Rightarrow> py_result" where
  "stdout_write text t = returns (VNat (length text)) (t\<lparr>tx_stdout := tx_stdout t @ text\<rparr>)"

section \<open>A call and a script\<close>

text \<open>A hook is given its event, \<open>memory\<close> and the harness; \<open>work_queue\<close>, \<open>timers\<close> and
  \<open>history\<close> are names it does not have.\<close>

definition main_only :: "py_ctx \<Rightarrow> string \<Rightarrow> (py_txn \<Rightarrow> py_result) \<Rightarrow> py_txn \<Rightarrow> py_result" where
  "main_only c nm f t =
     (if px_hook_mode c then raise ''NameError'' (''name '' @ quoted nm @ '' is not defined'') t else f t)"

fun py_api :: "py_ctx \<Rightarrow> py_call \<Rightarrow> py_txn \<Rightarrow> py_result" where
  "py_api c (WQGet i) = main_only c ''work_queue'' (wq_getitem c i)"
| "py_api c WQLen = main_only c ''work_queue'' (\<lambda>t. returns (VNat (wq_len (work_queue (tx_state t)))) t)"
| "py_api c WQPopFront = main_only c ''work_queue'' (wq_pop_front c)"
| "py_api c (WQRemove i) = main_only c ''work_queue'' (wq_remove_call i)"
| "py_api c (MemGetItem k) = mem_getitem k"
| "py_api c (MemSetItem k v) = mem_setitem k v"
| "py_api c (MemDelItem k) = mem_delitem k"
| "py_api c (MemContains k) = mem_contains c k"
| "py_api c (MemGet k) = mem_get c k"
| "py_api c (MemSet k v p) = mem_set k v p"
| "py_api c (MemSetPriority k p) = mem_set_priority k p"
| "py_api c (MemGetPriority k) = mem_get_priority k"
| "py_api c (MemPin k v) = mem_pin k v"
| "py_api c (MemUnpin k) = mem_unpin k"
| "py_api c MemListPinned = mem_list_pinned c"
| "py_api c (MemMarkSensitive k) = mem_mark_sensitive k"
| "py_api c (MemUnmarkSensitive k) = mem_unmark_sensitive k"
| "py_api c (TimerAdd every at p d) = main_only c ''timers'' (timers_add c every at p d)"
| "py_api c (TimerCancel i) = main_only c ''timers'' (timers_cancel i)"
| "py_api c TimerList = main_only c ''timers'' timers_list"
| "py_api c (HistGet i) = main_only c ''history'' (history_getitem c i)"
| "py_api c (HistReplace i d) = main_only c ''history'' (history_replace c i d)"
| "py_api c (HistRemove i) = main_only c ''history'' (history_remove c i)"
| "py_api c (HistAdd x) = main_only c ''history'' (history_add c x)"
| "py_api c (SendMessage chat x at r) = send_message c chat x at r"
| "py_api c (WaitForChannel chat ms) = wait_for_message_channel c chat ms"
| "py_api c (ShellExec cmd args env d al sp fp bf ia) = shell_exec c cmd args env d al sp fp bf ia"
| "py_api c (ShellInput p d) = shell_input p d"
| "py_api c (ShellCloseStdin p) = shell_close_stdin p"
| "py_api c (KillChild n) = kill_child n"
| "py_api c (ShellStatus p) = shell_status p"
| "py_api c (ShellOutput p n) = shell_output c p n"
| "py_api c (ShellKill p) = shell_kill p"
| "py_api c ProcessesList = processes_list"
| "py_api c (ViewPaths ps) = view_paths c ps"
| "py_api c (AcknowledgeTimer i) = acknowledge_timer c i"
| "py_api c Compact = compact_call c"
| "py_api c RequestCompaction = request_compaction c"
| "py_api c (Fork cs) = fork_call c cs"
| "py_api c (MessageAgent n x p) = message_agent n x p"
| "py_api c (RegisterHook n p m s ms) = register_hook c n p m s ms"
| "py_api c (RemoveHook n) = remove_hook c n"
| "py_api c ListHooks = list_hooks"
| "py_api c (DoneCall r) = done_call c r"
| "py_api c (Print x) = stdout_write x"

datatype outcome =
    Ended py_return "(string + string) option" py_txn
  | Raised string py_txn
  | Hung script py_txn
  | Panicked

primrec run_script :: "script \<Rightarrow> py_ctx \<Rightarrow> py_txn \<Rightarrow> outcome" where
  "run_script (End r l) c t = Ended r l t"
| "run_script (Raise e) c t = Raised e t"
| "run_script (Hang k) c t = Hung k t"
| "run_script (Call q k) c t =
     (case py_api c q t of
        None \<Rightarrow> Panicked
      | Some rt \<Rightarrow> run_script (k (fst rt)) c (snd rt))"

end
