(* ===== verification/Script_Executor.thy ===== *)
theory Script_Executor
  imports Python_Api "HOL-Library.Sublist"
begin

text \<open>
  Running scripts (\<open>execute_inner\<close>, \<open>execute_with_timeout\<close> and \<open>run_hooks\<close> of
  src/src/python.rs). A turn's script works on a copy of the state; the copy and the effects
  are handed on only when it ends normally. A hook works on the memory and the id generator
  alone, and what it did counts even when it raises. What the interpreter makes of a text is
  the argument \<open>interp\<close>. The lemmas show what every script, whatever its text, leaves
  behind.
\<close>

section \<open>A turn\<close>

record execution_result =
  er_stdout :: string
  er_is_error :: bool
  er_error_text :: string
  er_effects :: external_effects
  er_committed :: "harness_state option"

definition failed_run :: "string \<Rightarrow> string \<Rightarrow> execution_result" where
  "failed_run out e = \<lparr>er_stdout = out, er_is_error = True, er_error_text = e, er_effects = no_effects, er_committed = None\<rparr>"

definition begin_txn :: "harness_state \<Rightarrow> py_txn" where
  "begin_txn s = \<lparr>tx_state = s, tx_effects = no_effects, tx_stdout = []\<rparr>"

text \<open>The state reassembled from the parts the objects held; the other fields keep their
  value from before the turn.\<close>

definition reassemble :: "harness_state \<Rightarrow> harness_state \<Rightarrow> harness_state" where
  "reassemble txn s =
     \<lparr>work_queue = work_queue s, event_history = event_history s, timer_manager = timer_manager s,
      process_manager = process_manager s, memory = memory s, memory_priorities = memory_priorities s,
      sensitive_keys = sensitive_keys s, last_harness_version = last_harness_version txn, hooks = hooks s,
      hook_stats = hook_stats txn, id_gen = id_gen s, last_input_tokens = last_input_tokens txn,
      last_total_input_tokens = last_total_input_tokens txn, context_window = context_window txn,
      max_tokens = max_tokens txn\<rparr>"

definition committed_run :: "harness_state \<Rightarrow> py_txn \<Rightarrow> execution_result" where
  "committed_run txn t =
     \<lparr>er_stdout = tx_stdout t, er_is_error = False, er_error_text = [], er_effects = tx_effects t,
      er_committed = Some (reassemble txn (tx_state t))\<rparr>"

text \<open>What the executor's thread has come to: it sent a result, it panicked, or it still runs.\<close>

datatype thread_state =
    Sent execution_result
  | Dropped
  | StillRunning script py_txn

definition nul :: char where
  "nul = CHR 0x00"

definition thread_of :: "py_ctx \<Rightarrow> harness_state \<Rightarrow> outcome \<Rightarrow> thread_state" where
  "thread_of c txn out =
     (case out of
        Ended r l t \<Rightarrow>
          if px_is_compaction c then
            (case l of
               None \<Rightarrow> Sent (committed_run txn t)
             | Some (Inl e) \<Rightarrow> Sent (failed_run (tx_stdout t) e)
             | Some (Inr script) \<Rightarrow> Sent (committed_run txn
                 (if script = [] then t
                  else with_effects (\<lambda>e. e\<lparr>ef_compaction_script_appends := ef_compaction_script_appends e @ [script]\<rparr>) t)))
          else Sent (committed_run txn t)
      | Raised e t \<Rightarrow> Sent (failed_run (tx_stdout t) e)
      | Hung k t \<Rightarrow> StillRunning k t
      | Panicked \<Rightarrow> Dropped)"

definition execute_inner :: "py_ctx \<Rightarrow> (string \<Rightarrow> script) \<Rightarrow> string \<Rightarrow> harness_state \<Rightarrow> thread_state" where
  "execute_inner c interp code s =
     (if nul \<in> set code then Sent (failed_run [] ''SyntaxError: Code contains null bytes'')
      else thread_of c s (run_script (interp code) c (begin_txn s)))"

text \<open>\<open>None\<close>: no timeout was set and the script never ends.\<close>

definition execute_with_timeout ::
  "nat \<Rightarrow> py_ctx \<Rightarrow> (string \<Rightarrow> script) \<Rightarrow> string \<Rightarrow> harness_state \<Rightarrow> execution_result option" where
  "execute_with_timeout timeout_secs c interp code s =
     (case execute_inner c interp code s of
        Sent r \<Rightarrow> Some r
      | Dropped \<Rightarrow> Some (failed_run [] ''Python execution thread panicked'')
      | StillRunning k t \<Rightarrow>
          if timeout_secs = 0 then None
          else (case thread_of c s (run_script k c t) of
            Sent r \<Rightarrow> Some r
          | _ \<Rightarrow> Some (failed_run [] (''Script execution timed out after '' @ show_nat timeout_secs @
              ''s. Your script must not block '' @ em_dash @ '' no sleep(), no infinite loops, no blocking I/O. '' @
              ''Use shell_exec() for long-running operations.''))))"

section \<open>Hooks\<close>

datatype hook_outcome =
    NoMatch
  | Consumed string
  | Passed string u8 "string option" \<comment> \<open>hook\_name, priority, hook\_note\<close>
  | HookFailed string string \<comment> \<open>hook\_name, error\<close>

record hook_commit =
  hc_memory :: memory
  hc_memory_priorities :: "(string, u8) hmap"
  hc_id_generator :: id_generator
  hc_messages :: "outbound_message list"
  hc_process_starts :: "process_start_request list"
  hc_process_manager :: process_manager

text \<open>The dictionary \<open>e\<close>.\<close>

definition hook_event :: "py_work_item \<Rightarrow> (string, json) hmap" where
  "hook_event w = fold (\<lambda>(k, v). AList.update k v)
     ([(''id'', JStr (pw_id w)), (''priority'', JInt (int (unat (pw_priority w)))), (''type'', JStr (pw_item_type w)),
       (''time'', JStr (pw_time w))] @ pw_fields w) []"

definition hook_program :: "string \<Rightarrow> string" where
  "hook_program process =
     ''from datetime import timedelta, datetime'' @ nl # ''send_message = _harness.send_message'' @ nl #
     ''shell_exec = _harness.shell_exec'' @ nl # ''def __hook():'' @ nl # wrap_body process @ nl #
     ''_result = __hook()'' @ [nl]"

definition hook_ctx :: "py_ctx \<Rightarrow> py_ctx" where
  "hook_ctx c = c\<lparr>px_is_compaction := False, px_process_outputs := [], px_child_depth := 0, px_pinned := [],
     px_hook_mode := True\<rparr>"

definition hook_txn :: "harness_state \<Rightarrow> py_txn" where
  "hook_txn s = begin_txn ((hs_new 0 0)\<lparr>memory := memory s, memory_priorities := memory_priorities s, id_gen := id_gen s\<rparr>)"

definition commit_of :: "py_txn \<Rightarrow> hook_commit" where
  "commit_of t =
     \<lparr>hc_memory = memory (tx_state t), hc_memory_priorities = memory_priorities (tx_state t),
      hc_id_generator = id_gen (tx_state t), hc_messages = ef_messages (tx_effects t),
      hc_process_starts = ef_process_starts (tx_effects t), hc_process_manager = process_manager (tx_state t)\<rparr>"

definition find_hook :: "(string \<Rightarrow> (string, json) hmap \<Rightarrow> bool) \<Rightarrow> (string, json) hmap \<Rightarrow> hook list \<Rightarrow> hook option" where
  "find_hook matches e hs = List.find (\<lambda>h. nul \<notin> set (match_expr h) \<and> matches (match_expr h) e) hs"

text \<open>The end of a hook's run; \<open>None\<close> when it does not come to one.\<close>

definition hook_result :: "string \<Rightarrow> u8 \<Rightarrow> outcome \<Rightarrow> (hook_outcome \<times> hook_commit option) option" where
  "hook_result nm prio out =
     (case out of
        Ended ReturnsNone l t \<Rightarrow> Some (Consumed nm, Some (commit_of t))
      | Ended (ReturnsEvent p note) l t \<Rightarrow>
          Some (Passed nm (case p of Some p \<Rightarrow> p | None \<Rightarrow> prio) note, Some (commit_of t))
      | Raised e t \<Rightarrow> Some (HookFailed nm e, Some (commit_of t))
      | Hung k t \<Rightarrow> None
      | Panicked \<Rightarrow> None)"

text \<open>After the timeout the watchdog interrupts once and the harness goes on waiting.\<close>

definition run_hooks ::
  "py_ctx \<Rightarrow> (string \<Rightarrow> (string, json) hmap \<Rightarrow> bool) \<Rightarrow> (string \<Rightarrow> (string, json) hmap \<Rightarrow> script) \<Rightarrow>
   hook list \<Rightarrow> work_item \<Rightarrow> harness_state \<Rightarrow> (hook_outcome \<times> hook_commit option) option" where
  "run_hooks c matches interp hs item s =
     (let e = hook_event (work_item_to_py (px_format_utc c) item) in
      case find_hook matches e hs of
        None \<Rightarrow> Some (NoMatch, None)
      | Some h \<Rightarrow>
          let code = hook_program (hook_process h) in
          if nul \<in> set code
          then Some (HookFailed (hook_name h) (''NUL in process: nul byte found in provided data at position: '' @
            show_nat (length (takeWhile (\<lambda>x. x \<noteq> nul) code))), None)
          else hook_result (hook_name h) (wi_priority item)
            (case run_script (interp code e) (hook_ctx c) (hook_txn s) of
               Hung k t \<Rightarrow> run_script k (hook_ctx c) t
             | out \<Rightarrow> out))"

section \<open>What every script keeps\<close>

text \<open>The transaction an outcome ends with.\<close>

fun outcome_txn :: "outcome \<Rightarrow> py_txn option" where
  "outcome_txn (Ended r l t) = Some t"
| "outcome_txn (Raised e t) = Some t"
| "outcome_txn (Hung k t) = Some t"
| "outcome_txn Panicked = None"

text \<open>A property of transactions that no call breaks holds after every script.\<close>

locale script_invariant =
  fixes c :: py_ctx and Inv :: "py_txn \<Rightarrow> bool"
  assumes call_keeps: "\<lbrakk>Inv t; py_api c q t = Some (r, t')\<rbrakk> \<Longrightarrow> Inv t'"
    and append_keeps: "Inv t \<Longrightarrow> Inv (with_effects (\<lambda>e. e\<lparr>ef_compaction_script_appends := xs\<rparr>) t)"
begin

lemma script_keeps: "\<lbrakk>Inv t; outcome_txn (run_script s c t) = Some t'\<rbrakk> \<Longrightarrow> Inv t'"
proof (induction s arbitrary: t)
  case (Call q k)
  then obtain r t1 where "py_api c q t = Some (r, t1)"
    by (auto split: option.splits)
  with Call.prems call_keeps Call.IH [of "k r" t1] show ?case by simp
qed auto

lemma ended_keeps: "\<lbrakk>Inv t; run_script s c t = Ended r l t'\<rbrakk> \<Longrightarrow> Inv t'"
  and raised_keeps: "\<lbrakk>Inv t; run_script s c t = Raised e t'\<rbrakk> \<Longrightarrow> Inv t'"
  and hung_keeps: "\<lbrakk>Inv t; run_script s c t = Hung k t'\<rbrakk> \<Longrightarrow> Inv t'"
  using script_keeps [of t s t'] by simp_all

lemma thread_keeps:
  assumes "Inv t" "thread_of c s (run_script p c t) = Sent r" "er_committed r = Some s'"
  shows "\<exists>t'. Inv t' \<and> s' = reassemble s (tx_state t') \<and> er_effects r = tx_effects t' \<and> er_stdout r = tx_stdout t'"
proof -
  obtain rv l t1 where run: "run_script p c t = Ended rv l t1"
    using assms by (cases "run_script p c t") (auto simp: thread_of_def failed_run_def)
  then have "Inv t1" using assms(1) by (rule ended_keeps [rotated])
  moreover from this have "Inv (with_effects (\<lambda>e. e\<lparr>ef_compaction_script_appends := ef_compaction_script_appends e @ xs\<rparr>) t1)" for xs
    using append_keeps [of t1 "ef_compaction_script_appends (tx_effects t1) @ xs"] by (simp add: with_effects_def)
  ultimately show ?thesis
    using assms(2,3) run by (force simp: thread_of_def committed_run_def failed_run_def split: if_splits option.splits sum.splits)
qed

text \<open>What a turn commits comes from a transaction with the property.\<close>

lemma turn_keeps:
  assumes "Inv (begin_txn s)" "execute_with_timeout n c interp code s = Some r" "er_committed r = Some s'"
  shows "\<exists>t'. Inv t' \<and> s' = reassemble s (tx_state t') \<and> er_effects r = tx_effects t' \<and> er_stdout r = tx_stdout t'"
proof (cases "execute_inner c interp code s")
  case (Sent r1)
  with assms have "r1 = r" by (simp add: execute_with_timeout_def)
  with Sent assms thread_keeps [OF assms(1)] show ?thesis
    by (auto simp: execute_inner_def failed_run_def split: if_splits)
next
  case Dropped
  with assms show ?thesis by (auto simp: execute_with_timeout_def failed_run_def)
next
  case (StillRunning k t)
  then have "run_script (interp code) c (begin_txn s) = Hung k t"
    by (auto simp: execute_inner_def thread_of_def split: if_splits outcome.splits option.splits sum.splits)
  with assms(1) have "Inv t" by (rule hung_keeps)
  from StillRunning assms have "thread_of c s (run_script k c t) = Sent r"
    by (auto simp: execute_with_timeout_def failed_run_def split: if_splits thread_state.splits)
  with \<open>Inv t\<close> assms(3) show ?thesis by (intro thread_keeps)
qed

end

lemmas method_defs =
  returns_def raise_def runtime_error_def with_state_def with_effects_def tx_next_id_def draw_id_def main_only_def
  wq_getitem_def wq_pop_front_def wq_remove_call_def mem_getitem_def mem_setitem_def mem_delitem_def
  mem_contains_def mem_get_def mem_set_def mem_set_priority_def mem_get_priority_def mem_pin_def mem_unpin_def
  mem_list_pinned_def mem_mark_sensitive_def mem_unmark_sensitive_def timers_add_def timers_cancel_def
  timers_list_def history_getitem_def history_replace_def history_remove_def history_add_def
  send_message_def wait_for_message_channel_def shell_exec_def shell_input_def shell_close_stdin_def
  kill_child_def shell_status_def shell_output_def shell_kill_def processes_list_def view_paths_def
  acknowledge_timer_def compact_call_def request_compaction_def fork_call_def message_agent_def
  register_hook_def remove_hook_def list_hooks_def done_call_def stdout_write_def Let_def

lemmas method_splits = if_splits option.splits sum.splits prod.splits

text \<open>What is not handed to the objects stays as it was.\<close>

definition untouched :: "harness_state \<Rightarrow> harness_state \<Rightarrow> bool" where
  "untouched s s' \<longleftrightarrow> last_harness_version s' = last_harness_version s \<and> hook_stats s' = hook_stats s \<and>
     last_input_tokens s' = last_input_tokens s \<and> last_total_input_tokens s' = last_total_input_tokens s \<and>
     context_window s' = context_window s \<and> max_tokens s' = max_tokens s \<and>
     modification_window (event_history s') = modification_window (event_history s)"

lemma eh_remove_window [simp]: "modification_window (snd (eh_remove i h)) = modification_window h"
  by (simp add: eh_remove_def split: option.splits)

lemma untouched_frames:
  "untouched s s' \<Longrightarrow> untouched s (s'\<lparr>work_queue := q\<rparr>)"
  "untouched s s' \<Longrightarrow> untouched s (s'\<lparr>memory := m\<rparr>)"
  "untouched s s' \<Longrightarrow> untouched s (s'\<lparr>memory_priorities := p\<rparr>)"
  "untouched s s' \<Longrightarrow> untouched s (s'\<lparr>sensitive_keys := ks\<rparr>)"
  "untouched s s' \<Longrightarrow> untouched s (s'\<lparr>timer_manager := tm\<rparr>)"
  "untouched s s' \<Longrightarrow> untouched s (s'\<lparr>process_manager := pm\<rparr>)"
  "untouched s s' \<Longrightarrow> untouched s (s'\<lparr>hooks := hs\<rparr>)"
  "untouched s s' \<Longrightarrow> untouched s (s'\<lparr>id_gen := g\<rparr>)"
  "\<lbrakk>untouched s s'; modification_window h = modification_window (event_history s)\<rbrakk> \<Longrightarrow>
     untouched s (s'\<lparr>event_history := h\<rparr>)"
  "untouched s s' \<Longrightarrow> modification_window (event_history s') = modification_window (event_history s)"
  by (simp_all add: untouched_def)

interpretation untouched: script_invariant c "\<lambda>t. untouched s (tx_state t)" for c s
proof unfold_locales
  fix t q r t'
  assume "untouched s (tx_state t)" "py_api c q t = Some (r, t')"
  then show "untouched s (tx_state t')"
    by (cases q) (auto simp: method_defs untouched_frames push_history_def eh_push_def split: method_splits)
qed (simp add: with_effects_def)

text \<open>A script takes items out of the queue; it does not add, change or move any.\<close>

lemma take_out_subseq: "subseq (snd (take_out P xs)) xs"
  by (induction xs) (auto simp: vec_simps)

lemma wq_remove_subseq: "subseq (wq_items (snd (wq_remove i q))) (wq_items q)"
proof -
  have "wq_items (snd (wq_remove i q)) = snd (take_out (\<lambda>w. wi_id w = i) (wq_items q))"
    by (simp add: wq_remove_def take_out_def split: option.splits)
  then show ?thesis by (simp add: take_out_subseq)
qed

lemma subseq_removed: "subseq (wq_items q) xs \<Longrightarrow> subseq (wq_items (snd (wq_remove i q))) xs"
  by (rule subseq_order.order_trans [OF wq_remove_subseq])

lemma wq_pop_front_queue:
  "wq_pop_front c t = Some (r, t') \<Longrightarrow>
     t' = t \<or> (\<exists>i. work_queue (tx_state t') = snd (wq_remove i (work_queue (tx_state t))))"
  by (auto simp: method_defs split: method_splits) (metis snd_conv)

interpretation queue_shrinks: script_invariant c "\<lambda>t. subseq (wq_items (work_queue (tx_state t))) xs" for c xs
proof unfold_locales
  fix t q r t'
  assume *: "subseq (wq_items (work_queue (tx_state t))) xs" "py_api c q t = Some (r, t')"
  show "subseq (wq_items (work_queue (tx_state t'))) xs"
  proof (cases "q = WQPopFront")
    case True
    with * wq_pop_front_queue [of c t r t'] show ?thesis
      by (auto simp: main_only_def raise_def subseq_removed split: if_splits)
  next
    case False
    with * show ?thesis
      by (cases q) (auto simp: method_defs push_history_def subseq_removed split: method_splits)
  qed
qed (simp add: with_effects_def)

text \<open>The hooks stay in the order \<open>run_hooks\<close> relies on, one for each name.\<close>

definition hooks_ordered :: "hook list \<Rightarrow> bool" where
  "hooks_ordered hs \<longleftrightarrow> sorted (map (\<lambda>h. - hook_priority h) hs) \<and> distinct (map hook_name hs)"

lemma hooks_ordered_filter: "hooks_ordered hs \<Longrightarrow> hooks_ordered (filter P hs)"
  by (simp add: hooks_ordered_def sorted_filter distinct_map_filter)

lemma hooks_ordered_put: "hooks_ordered hs \<Longrightarrow> hooks_ordered (put_hook h hs)"
proof -
  assume hs: "hooks_ordered hs"
  let ?xs = "filter (\<lambda>h'. hook_name h' \<noteq> hook_name h) hs @ [h]"
  have "distinct (map hook_name ?xs)"
    using hs by (auto simp: hooks_ordered_def distinct_map_filter)
  moreover have "mset (map hook_name (put_hook h hs)) = mset (map hook_name ?xs)"
    unfolding put_hook_def by (simp only: mset_map mset_sort)
  ultimately have "distinct (map hook_name (put_hook h hs))"
    by (metis mset_eq_imp_distinct_iff)
  then show ?thesis
    by (simp add: hooks_ordered_def put_hook_def)
qed

interpretation hooks_kept: script_invariant c "\<lambda>t. hooks_ordered (hooks (tx_state t))" for c
proof unfold_locales
  fix t q r t'
  assume "hooks_ordered (hooks (tx_state t))" "py_api c q t = Some (r, t')"
  then show "hooks_ordered (hooks (tx_state t'))"
    by (cases q) (auto simp: method_defs push_history_def hooks_ordered_put hooks_ordered_filter split: method_splits)
qed (simp add: with_effects_def)

text \<open>Its timers have intervals of whole seconds.\<close>

lemma secs_only_times [simp]: "secs_only (n * 1000000000) = n * 1000000000"
  by (simp add: secs_only_def)

lemma stored_built: "build_timer_schedule c every at = Some sched \<Longrightarrow> stored_schedule sched = sched"
  by (auto simp: build_timer_schedule_def Let_def split: option.splits if_splits prod.splits)

lemma whole_timers_add: "\<lbrakk>build_timer_schedule c every at = Some (t_schedule t); whole_timers m\<rbrakk> \<Longrightarrow> whole_timers (tm_add t m)"
  by (auto simp: whole_timers_def tm_add_def dest: stored_built)

interpretation whole: script_invariant c "\<lambda>t. whole_timers (timer_manager (tx_state t))" for c
proof unfold_locales
  fix t q r t'
  assume "whole_timers (timer_manager (tx_state t))" "py_api c q t = Some (r, t')"
  then show "whole_timers (timer_manager (tx_state t'))"
    by (cases q) (auto simp: method_defs push_history_def whole_timers_cancel whole_timers_add
        intro: whole_timers_acknowledge split: method_splits)
qed (simp add: with_effects_def)

text \<open>Every process a script starts is in the bookkeeping, under the id, the command and the
  failure priority of its request, and nothing else has been added.\<close>

definition tracks :: "managed_process \<Rightarrow> process_start_request \<Rightarrow> bool" where
  "tracks p r \<longleftrightarrow> mp_id p = ps_id r \<and> mp_cmd p = ps_cmd r \<and> mp_args p = ps_args r \<and> mp_env p = ps_env r \<and>
     mp_description p = ps_description r \<and> mp_fail_prio p = ps_fail_prio r \<and> mp_status p = Running \<and> mp_os_pid p = None"

definition starts_tracked :: "process_manager \<Rightarrow> process_manager \<Rightarrow> process_start_request list \<Rightarrow> bool" where
  "starts_tracked m m' rs \<longleftrightarrow> (\<exists>ps. pm_processes m' = pm_processes m @ ps \<and> list_all2 tracks ps rs)"

lemma starts_tracked_add:
  "\<lbrakk>starts_tracked m m' rs; tracks p r\<rbrakk> \<Longrightarrow> starts_tracked m (pm_add p m') (rs @ [r])"
  unfolding starts_tracked_def pm_add_def
  by (metis (no_types, lifting) append_assoc list_all2_Cons list_all2_Nil list_all2_appendI process_manager.select_convs(1) process_manager.simps(3) process_manager.surjective process_manager.update_convs(1))

interpretation starts: script_invariant c
  "\<lambda>t. starts_tracked m (process_manager (tx_state t)) (ef_process_starts (tx_effects t))" for c m
proof unfold_locales
  fix t q r t'
  assume "starts_tracked m (process_manager (tx_state t)) (ef_process_starts (tx_effects t))" "py_api c q t = Some (r, t')"
  then show "starts_tracked m (process_manager (tx_state t')) (ef_process_starts (tx_effects t'))"
    by (cases q) (auto simp: method_defs push_history_def tracks_def intro!: starts_tracked_add split: method_splits)
qed (simp add: with_effects_def)

text \<open>What a fork can ask for.\<close>

definition fork_allowed :: "py_ctx \<Rightarrow> fork_child list \<Rightarrow> bool" where
  "fork_allowed c xs \<longleftrightarrow> \<not> px_hook_mode c \<and> px_child_depth c \<noteq> 0 \<and> xs \<noteq> [] \<and>
     (\<forall>x \<in> set xs. fc_name x \<noteq> [] \<and> fc_name x \<noteq> ''root'' \<and> (case fc_max_turns x of None \<Rightarrow> True | Some n \<Rightarrow> n \<le> 50))"

lemma fork_error_None: "fork_error xs = None \<longleftrightarrow> (\<forall>x \<in> set xs. fc_name x \<noteq> [] \<and> fc_name x \<noteq> ''root'')"
  by (induction xs) (auto simp: new_child_def split: sum.splits)

lemma fork_allowed_settings:
  "\<lbrakk>fork_error xs = None; xs \<noteq> []; \<not> px_hook_mode c; px_child_depth c \<noteq> 0\<rbrakk> \<Longrightarrow> fork_allowed c (map fork_settings xs)"
  by (auto simp: fork_allowed_def fork_error_None fork_settings_def split: option.splits)

interpretation forks: script_invariant c "\<lambda>t. \<forall>xs \<in> set (ef_fork_requests (tx_effects t)). fork_allowed c xs" for c
proof unfold_locales
  fix t q r t'
  assume "\<forall>xs \<in> set (ef_fork_requests (tx_effects t)). fork_allowed c xs" "py_api c q t = Some (r, t')"
  then show "\<forall>xs \<in> set (ef_fork_requests (tx_effects t')). fork_allowed c xs"
    by (cases q) (auto simp: method_defs push_history_def fork_allowed_settings split: method_splits)
qed (simp add: with_effects_def)

text \<open>Where no call panics, a script that does not hang comes to its end.\<close>

primrec never_hangs :: "script \<Rightarrow> bool" where
  "never_hangs (End r l) \<longleftrightarrow> True"
| "never_hangs (Raise e) \<longleftrightarrow> True"
| "never_hangs (Hang k) \<longleftrightarrow> False"
| "never_hangs (Call q k) \<longleftrightarrow> (\<forall>r. never_hangs (k r))"

locale total_calls = script_invariant +
  assumes call_returns: "Inv t \<Longrightarrow> py_api c q t \<noteq> None"
begin

lemma no_panic: "Inv t \<Longrightarrow> run_script s c t \<noteq> Panicked"
proof (induction s arbitrary: t)
  case (Call q k)
  then obtain r t1 where "py_api c q t = Some (r, t1)"
    using call_returns [of t q] by auto
  with Call.prems call_keeps Call.IH [of "k r" t1] show ?case by simp
qed auto

lemma comes_to_end:
  "\<lbrakk>Inv t; never_hangs s\<rbrakk> \<Longrightarrow> (\<exists>r l t'. run_script s c t = Ended r l t') \<or> (\<exists>e t'. run_script s c t = Raised e t')"
proof (induction s arbitrary: t)
  case (Call q k)
  then obtain r t1 where q: "py_api c q t = Some (r, t1)"
    using call_returns [of t q] by auto
  with Call.prems call_keeps have "Inv t1" by simp
  with Call.IH [of "k r" t1] Call.prems q show ?case by simp
qed auto

end

text \<open>A hook has none of the turn's reach: no timers (so nothing of it can panic), nothing
  that waits for a process, forks, compacts or ends the agent.\<close>

definition hook_quiet :: "py_txn \<Rightarrow> bool" where
  "hook_quiet t \<longleftrightarrow> tm_timers (timer_manager (tx_state t)) = [] \<and>
     (\<forall>r \<in> set (ef_process_starts (tx_effects t)). ps_block_for_ms r = None) \<and>
     ef_fork_requests (tx_effects t) = [] \<and> \<not> ef_compact_called (tx_effects t) \<and>
     \<not> ef_compaction_requested (tx_effects t) \<and> \<not> ef_done_called (tx_effects t)"

lemma hook_ctx_mode [simp]: "px_hook_mode (hook_ctx c)" "\<not> px_is_compaction (hook_ctx c)"
  by (simp_all add: hook_ctx_def)

interpretation quiet: total_calls "hook_ctx c" hook_quiet for c
proof unfold_locales
  fix t q r t'
  assume "hook_quiet t" "py_api (hook_ctx c) q t = Some (r, t')"
  then show "hook_quiet t'"
    by (cases q) (auto simp: method_defs hook_quiet_def tm_acknowledge_def split: method_splits)
next
  fix t xs
  assume "hook_quiet t"
  then show "hook_quiet (with_effects (\<lambda>e. e\<lparr>ef_compaction_script_appends := xs\<rparr>) t)"
    by (simp add: hook_quiet_def with_effects_def)
next
  fix t q
  assume "hook_quiet t"
  then show "py_api (hook_ctx c) q t \<noteq> None"
    by (cases q) (auto simp: method_defs hook_quiet_def tm_acknowledge_def split: method_splits)
qed

text \<open>Outside compaction the entries before the window are out of reach; the window is
  counted from the end of what is left.\<close>

lemma take_update_first: "\<forall>x \<in> set (take m xs). \<not> P x \<Longrightarrow> take m (update_first P f xs) = take m xs"
  by (induction xs arbitrary: m) (auto simp: take_Cons split: nat.splits)

lemma take_take_out:
  "\<lbrakk>\<forall>x \<in> set (take m xs). \<not> P x; m < length xs\<rbrakk> \<Longrightarrow> take m (snd (take_out P xs)) = take m xs"
  by (induction xs arbitrary: m) (auto simp: vec_simps take_Cons split: nat.splits)

definition protected :: "event_history \<Rightarrow> event_history \<Rightarrow> bool" where
  "protected h0 h \<longleftrightarrow> modification_window h = modification_window h0 \<and> distinct (map he_id (eh_entries h)) \<and>
     length (eh_entries h) \<le> length (eh_entries h0) \<and>
     take (immutable_count h) (eh_entries h) = take (immutable_count h) (eh_entries h0)"

lemma modifiable_not_before:
  assumes "distinct (map he_id (eh_entries h))" "is_modifiable i h"
  shows "\<forall>e \<in> set (take (immutable_count h) (eh_entries h)). he_id e \<noteq> i"
proof -
  let ?m = "immutable_count h"
  have "distinct (map he_id (take ?m (eh_entries h) @ drop ?m (eh_entries h)))" using assms(1) by simp
  with assms(2) show ?thesis
    by (auto simp: is_modifiable_def list_ex_iff window_start_def immutable_count_def simp del: append_take_drop_id)
qed

lemma protected_replace:
  assumes "protected h0 h" "is_modifiable i h"
  shows "protected h0 (replace_with_summary i d h)"
proof -
  have "take (immutable_count h) (eh_entries (replace_with_summary i d h)) = take (immutable_count h) (eh_entries h)"
    using assms modifiable_not_before [of h i]
    by (simp add: protected_def replace_with_summary_def take_update_first)
  moreover have "length (eh_entries (replace_with_summary i d h)) = length (eh_entries h)"
    by (simp add: replace_with_summary_def vec_simps)
  ultimately show ?thesis
    using assms(1) by (auto simp: protected_def immutable_count_def)
qed

lemma protected_remove:
  assumes "protected h0 h" "is_modifiable i h"
  shows "protected h0 (snd (eh_remove i h))"
proof -
  let ?xs = "eh_entries h" and ?w = "modification_window h"
  have e: "eh_entries (snd (eh_remove i h)) = snd (take_out (\<lambda>e. he_id e = i) ?xs)"
    by (simp add: eh_remove_def take_out_def split: option.splits)
  have in_h: "\<exists>x \<in> set ?xs. he_id x = i"
    using assms(2) by (auto simp: is_modifiable_def list_ex_iff dest: in_set_dropD)
  then have "?xs \<noteq> []" by auto
  have len: "length (snd (take_out (\<lambda>e. he_id e = i) ?xs)) = length ?xs - 1"
    using in_h arg_cong [OF take_out_mset [of ?xs "\<lambda>e. he_id e = i"], of size]
    by (auto simp: take_out_None split: option.splits)
  let ?m = "length ?xs - 1 - ?w"
  have "?m \<le> immutable_count h" by (simp add: immutable_count_def)
  moreover have "\<forall>x \<in> set (take ?m ?xs). he_id x \<noteq> i"
    using modifiable_not_before [of h i] assms set_take_subset_set_take [OF calculation, of ?xs]
    by (auto simp: protected_def)
  ultimately have "take ?m (snd (take_out (\<lambda>e. he_id e = i) ?xs)) = take ?m ?xs"
    using \<open>?xs \<noteq> []\<close> by (intro take_take_out) (auto simp: less_diff_conv2)
  moreover have "take ?m ?xs = take ?m (eh_entries h0)"
    using assms(1) \<open>?m \<le> immutable_count h\<close> by (metis min.absorb1 protected_def take_take)
  moreover have "distinct (map he_id (snd (take_out (\<lambda>e. he_id e = i) ?xs)))"
    using assms(1) by (simp add: protected_def take_out_distinct distinct_map_filter)
  ultimately show ?thesis
    using assms(1) len by (auto simp: protected_def immutable_count_def e)
qed

interpretation window: script_invariant c "\<lambda>t. \<not> px_is_compaction c \<and> protected h0 (event_history (tx_state t))" for c h0
proof unfold_locales
  fix t q r t'
  assume "\<not> px_is_compaction c \<and> protected h0 (event_history (tx_state t))" "py_api c q t = Some (r, t')"
  then show "\<not> px_is_compaction c \<and> protected h0 (event_history (tx_state t'))"
    by (cases q) (auto simp: method_defs may_modify_def protected_replace protected_remove split: method_splits)
qed (simp add: with_effects_def)

lemma reassemble_untouched: "untouched s s' \<Longrightarrow> reassemble s s' = s'"
  by (simp add: untouched_def reassemble_def)

lemma begin_txn_simps [simp]:
  "tx_state (begin_txn s) = s" "tx_effects (begin_txn s) = no_effects" "tx_stdout (begin_txn s) = []"
  by (simp_all add: begin_txn_def)

lemma untouched_refl [simp]: "untouched s s"
  by (simp add: untouched_def)

lemma no_effects_simps [simp]:
  "ef_process_starts no_effects = []" "ef_fork_requests no_effects = []" "ef_messages no_effects = []"
  by (simp_all add: no_effects_def)

text \<open>The transaction's state is committed whole.\<close>

lemma commit_whole:
  assumes "execute_with_timeout n c interp code s = Some r" "er_committed r = Some s'"
    and "script_invariant c Inv" "Inv (begin_txn s)"
  shows "\<exists>t. Inv t \<and> s' = tx_state t \<and> er_effects r = tx_effects t"
proof -
  have "script_invariant c (\<lambda>t. Inv t \<and> untouched s (tx_state t))"
    using assms(3) untouched.script_invariant_axioms [of c s]
    by (simp add: script_invariant_def) blast
  from script_invariant.turn_keeps [OF this _ assms(1,2)] show ?thesis
    using assms(4) reassemble_untouched by fastforce
qed

lemma sorted_wrt_subseq: "\<lbrakk>subseq xs ys; sorted_wrt R ys\<rbrakk> \<Longrightarrow> sorted_wrt R xs"
  by (induction rule: list_emb.induct) (auto dest: list_emb_set)

lemma queue_sorted_subseq: "\<lbrakk>subseq (wq_items q') (wq_items q); queue_sorted q\<rbrakk> \<Longrightarrow> queue_sorted q'"
  unfolding queue_sorted_def by (auto intro: sorted_wrt_subseq subseq_map)

text \<open>Concrete data for the witnesses.\<close>

definition sample_ctx :: py_ctx where
  "sample_ctx = \<lparr>px_is_compaction = False, px_process_outputs = [], px_child_depth = 1, px_pinned = [],
     px_subscribers = None, px_runtime = False, px_waits = (\<lambda>chat ms. []), px_is_file = (\<lambda>p. True),
     px_compile = (\<lambda>src file mode. None), px_format_utc = (\<lambda>t. []), px_now = 0, px_utc_range = (0, 2 ^ 62),
     px_hook_mode = False\<rparr>"

definition sample_state :: harness_state where
  "sample_state = (hs_new 200000 16384)\<lparr>event_history := eh_new\<lparr>eh_entries :=
     map (\<lambda>x. Summary (AgentId [x]) 0 []) ''0123456''\<rparr>\<rparr>"

definition sample_script :: script where
  "sample_script = Call (ShellExec ''ls'' [] [] [] None 7 8 None False) (\<lambda>r.
     Call (Fork [\<lparr>fc_name = ''worker'', fc_task = [], fc_model = None, fc_max_turns = Some 99, fc_can_compact = True,
       fc_inherit_history = True, fc_attach = [], fc_prefix_context = None, fc_prefix_attach = []\<rparr>]) (\<lambda>r.
     Call (HistRemove ''6'') (\<lambda>r. End ReturnsNone None)))"

section \<open>Properties\<close>

lemma error_or_commit:
  assumes "execute_with_timeout n c interp code s = Some r"
  shows "(er_is_error r \<longrightarrow> er_effects r = no_effects \<and> er_committed r = None) \<and>
      (\<not> er_is_error r \<longrightarrow> er_error_text r = [] \<and> er_committed r \<noteq> None)"
proof -
  have "(er_is_error r \<longrightarrow> er_effects r = no_effects \<and> er_committed r = None) \<and>
      (\<not> er_is_error r \<longrightarrow> er_error_text r = [] \<and> er_committed r \<noteq> None)" if "thread_of c s out = Sent r" for out
    using that by (auto simp: thread_of_def failed_run_def committed_run_def
        split: outcome.splits if_splits option.splits sum.splits)
  with assms show ?thesis
    by (auto simp: execute_with_timeout_def execute_inner_def failed_run_def split: thread_state.splits if_splits)
qed



lemma sample_run:
  "\<exists>r s'. execute_with_timeout 5 sample_ctx (\<lambda>_. sample_script) [] sample_state = Some r \<and> er_committed r = Some s'"
  by (simp add: execute_with_timeout_def execute_inner_def thread_of_def committed_run_def sample_script_def
      method_defs sample_ctx_def new_child_def split: prod.split)

text \<open>C9: whatever a script does, the state its turn commits has its queue in order, made of
  items the queue had, in their old order; its hooks sorted by priority with one per name (the
  order \<open>run_hooks\<close> takes the first match in).\<close>

theorem committed_state_in_order:
  assumes "execute_with_timeout n c interp code s = Some r" "er_committed r = Some s'"
    and "queue_sorted (work_queue s)" "hooks_ordered (hooks s)"
  shows "queue_sorted (work_queue s') \<and> subseq (wq_items (work_queue s')) (wq_items (work_queue s)) \<and>
     hooks_ordered (hooks s')"
proof -
  have "subseq (wq_items (work_queue s')) (wq_items (work_queue s))"
    using commit_whole [OF assms(1,2) queue_shrinks.script_invariant_axioms [of c "wq_items (work_queue s)"]] by auto
  moreover have "hooks_ordered (hooks s')"
    using commit_whole [OF assms(1,2) hooks_kept.script_invariant_axioms [of c]] assms(4) by auto
  ultimately show ?thesis
    using assms(3) queue_sorted_subseq by blast
qed

theorem committed_state_in_order_witness:
  "\<exists>s'. (\<exists>r. execute_with_timeout 5 sample_ctx (\<lambda>_. sample_script) [] sample_state = Some r \<and> er_committed r = Some s') \<and>
     hooks_ordered (hooks s')"
  using sample_run committed_state_in_order [of 5 sample_ctx "\<lambda>_. sample_script" "[]" sample_state]
  by (fastforce simp: sample_state_def hs_new_def wq_new_def queue_sorted_def hooks_ordered_def)

text \<open>C10: process bookkeeping and process starts agree. The processes a committed turn adds to
  the manager are, in order, one for each start it requests, with the id, command, arguments,
  environment, description and failure priority of the request, running and without an OS
  pid; the earlier entries stay.\<close>

theorem starts_are_tracked:
  assumes "execute_with_timeout n c interp code s = Some r" "er_committed r = Some s'"
  shows "\<exists>ps. pm_processes (process_manager s') = pm_processes (process_manager s) @ ps \<and>
     list_all2 tracks ps (ef_process_starts (er_effects r))"
  using commit_whole [OF assms starts.script_invariant_axioms [of c "process_manager s"]]
  by (auto simp: starts_tracked_def)

theorem starts_are_tracked_witness:
  "\<exists>r s' ps. execute_with_timeout 5 sample_ctx (\<lambda>_. sample_script) [] sample_state = Some r \<and> er_committed r = Some s' \<and>
     pm_processes (process_manager s') = pm_processes (process_manager sample_state) @ ps \<and>
     list_all2 tracks ps (ef_process_starts (er_effects r))"
  using sample_run starts_are_tracked [of 5 sample_ctx "\<lambda>_. sample_script" "[]" sample_state] by blast



text \<open>C8: outside compaction a turn leaves the cached part of the history alone: it adds no
  entry, and the entries before the window of the history it commits are the first entries of
  the history it began with, unchanged.\<close>

theorem history_prefix_protected:
  assumes "execute_with_timeout n c interp code s = Some r" "er_committed r = Some s'" "\<not> px_is_compaction c"
    and "distinct (map he_id (eh_entries (event_history s)))"
  shows "length (eh_entries (event_history s')) \<le> length (eh_entries (event_history s)) \<and>
     take (immutable_count (event_history s')) (eh_entries (event_history s')) =
     take (immutable_count (event_history s')) (eh_entries (event_history s))"
  using commit_whole [OF assms(1,2) window.script_invariant_axioms [of c "event_history s"]] assms(3,4)
  by (auto simp: protected_def)

theorem history_prefix_protected_witness:
  "\<exists>s'. take (immutable_count (event_history s')) (eh_entries (event_history s')) =
     take (immutable_count (event_history s')) (eh_entries (event_history sample_state)) \<and>
     (\<exists>r. execute_with_timeout 5 sample_ctx (\<lambda>_. sample_script) [] sample_state = Some r \<and> er_committed r = Some s')"
proof -
  have "\<not> px_is_compaction sample_ctx" "distinct (map he_id (eh_entries (event_history sample_state)))"
    by (simp_all add: sample_ctx_def sample_state_def show_nat_def digit_def)
  with sample_run history_prefix_protected [of 5 sample_ctx "\<lambda>_. sample_script" "[]" sample_state]
  show ?thesis by blast
qed

text \<open>The script that removes the entries of a list of ids, one call each.\<close>

primrec remove_entries :: "string list \<Rightarrow> script" where
  "remove_entries [] = End ReturnsNone None"
| "remove_entries (i # is) = Call (HistRemove i) (\<lambda>r. remove_entries is)"

lemma remove_last_entry:
  assumes "distinct (map he_id (xs @ [e]))" "eh_entries h = xs @ [e]" "0 < modification_window h"
  shows "is_modifiable (he_id e) h \<and> eh_entries (snd (eh_remove (he_id e) h)) = xs"
proof -
  have "is_modifiable (he_id e) h"
    using assms(2,3) by (auto simp: is_modifiable_def window_start_def list_ex_iff)
  moreover have "eh_entries (snd (eh_remove (he_id e) h)) = filter (\<lambda>x. he_id x \<noteq> he_id e) (xs @ [e])"
    using assms(1,2) eh.del_distinct [of h "he_id e"] by simp
  moreover have "filter (\<lambda>x. he_id x \<noteq> he_id e) (xs @ [e]) = xs"
    using assms(1) by (auto intro!: filter_True simp: image_iff)
  ultimately show ?thesis by simp
qed

lemma run_remove_entries:
  assumes "distinct (map he_id xs)" "eh_entries (event_history (tx_state t)) = xs"
    "0 < modification_window (event_history (tx_state t))" "\<not> px_hook_mode c"
  shows "\<exists>t'. run_script (remove_entries (rev (map (aid \<circ> he_id) xs))) c t = Ended ReturnsNone None t' \<and>
     eh_entries (event_history (tx_state t')) = []"
  using assms
proof (induction xs arbitrary: t rule: rev_induct)
  case (snoc e xs)
  let ?t = "with_state (\<lambda>s. s\<lparr>event_history := snd (eh_remove (he_id e) (event_history s))\<rparr>) t"
  note last = remove_last_entry [OF snoc.prems(1-3)]
  have "py_api c (HistRemove (aid (he_id e))) t = Some (Inr VNone, ?t)"
    using last snoc.prems(4) by (simp add: main_only_def history_remove_def returns_def may_modify_def)
  moreover have "\<exists>t'. run_script (remove_entries (rev (map (aid \<circ> he_id) xs))) c ?t = Ended ReturnsNone None t' \<and>
      eh_entries (event_history (tx_state t')) = []"
    using last snoc.prems by (intro snoc.IH) (simp_all add: with_state_def)
  ultimately show ?case by (simp add: comp_def)
qed simp

text \<open>The window slides back with every removal, so the protection of older entries is one
  of order only. In any state whose entries have distinct ids, the script that removes the
  entries newest first, in one turn outside compaction, commits an empty history.\<close>

theorem window_slides_to_empty:
  assumes "distinct (map he_id (eh_entries (event_history s)))" "0 < modification_window (event_history s)"
    "\<not> px_hook_mode c" "\<not> px_is_compaction c" "nul \<notin> set code"
  shows "\<exists>r s'. execute_with_timeout n c
       (\<lambda>_. remove_entries (rev (map (aid \<circ> he_id) (eh_entries (event_history s))))) code s = Some r \<and>
     er_committed r = Some s' \<and> eh_entries (event_history s') = []"
  using run_remove_entries [of _ "begin_txn s", OF assms(1) _ _ assms(3)] assms
  by (auto simp: execute_with_timeout_def execute_inner_def thread_of_def committed_run_def reassemble_def)

theorem window_slides_to_empty_witness:
  "\<exists>r s'. execute_with_timeout 5 sample_ctx
       (\<lambda>_. remove_entries (rev (map (aid \<circ> he_id) (eh_entries (event_history sample_state))))) [] sample_state = Some r \<and>
     er_committed r = Some s' \<and> eh_entries (event_history s') = []"
proof -
  have "distinct (map he_id (eh_entries (event_history sample_state)))" "0 < modification_window (event_history sample_state)"
    "\<not> px_hook_mode sample_ctx" "\<not> px_is_compaction sample_ctx" "nul \<notin> set []"
    by (simp_all add: sample_ctx_def sample_state_def eh_new_def show_nat_def digit_def)
  then show ?thesis by (rule window_slides_to_empty)
qed

lemma hook_txn_quiet [simp]: "hook_quiet (hook_txn s)" "starts_tracked pm_new (process_manager (tx_state (hook_txn s))) []"
  "ef_process_starts (tx_effects (hook_txn s)) = []"
  by (simp_all add: hook_txn_def hook_quiet_def hs_new_def tm_new_def pm_new_def starts_tracked_def no_effects_def)

text \<open>Both runs of a hook, before the interrupt and after it, keep an invariant of calls.\<close>

definition hook_outcome_of :: "py_ctx \<Rightarrow> script \<Rightarrow> harness_state \<Rightarrow> outcome" where
  "hook_outcome_of c p s =
     (case run_script p (hook_ctx c) (hook_txn s) of Hung k t \<Rightarrow> run_script k (hook_ctx c) t | out \<Rightarrow> out)"

lemma hook_outcome_keeps:
  assumes "script_invariant (hook_ctx c) Inv" "Inv (hook_txn s)" "outcome_txn (hook_outcome_of c p s) = Some t"
  shows "Inv t"
proof -
  have k: "outcome_txn (run_script q (hook_ctx c) u) = Some v \<Longrightarrow> Inv u \<Longrightarrow> Inv v" for q u v
    using script_invariant.script_keeps [OF assms(1)] by blast
  show ?thesis
  proof (cases "run_script p (hook_ctx c) (hook_txn s)")
    case (Hung q u)
    with assms(2,3) k [of p "hook_txn s" u] k [of q u t] show ?thesis by (simp add: hook_outcome_of_def)
  qed (use assms(2,3) k [of p "hook_txn s" t] in \<open>simp_all add: hook_outcome_of_def\<close>)
qed

lemma run_hooks_commit:
  assumes "run_hooks c matches interp hs item s = Some (out, Some hc)"
  shows "\<exists>p t. outcome_txn (hook_outcome_of c p s) = Some t \<and> hc = commit_of t"
proof -
  let ?e = "hook_event (work_item_to_py (px_format_utc c) item)"
  obtain h where h: "find_hook matches ?e hs = Some h"
    using assms by (auto simp: run_hooks_def Let_def split: option.splits)
  let ?p = "interp (hook_program (hook_process h)) ?e"
  from assms h have "hook_result (hook_name h) (wi_priority item) (hook_outcome_of c ?p s) = Some (out, Some hc)"
    by (auto simp: run_hooks_def hook_outcome_of_def Let_def split: if_splits)
  then have "outcome_txn (hook_outcome_of c ?p s) \<noteq> None \<and> (\<forall>t. outcome_txn (hook_outcome_of c ?p s) = Some t \<longrightarrow> hc = commit_of t)"
    by (auto simp: hook_result_def split: outcome.splits py_return.splits)
  then show ?thesis by blast
qed

text \<open>A hook starts processes and sends messages, it does not wait. Whatever its script does
  and whether or not it raises, each start it hands over has no \<open>block_for\<close>, and the process
  entries it hands over are one for each start.\<close>

theorem hook_run_contained:
  assumes "run_hooks c matches interp hs item s = Some (out, Some hc)"
  shows "list_all2 tracks (pm_processes (hc_process_manager hc)) (hc_process_starts hc) \<and>
     (\<forall>r \<in> set (hc_process_starts hc). ps_block_for_ms r = None)"
proof -
  obtain p t where t: "outcome_txn (hook_outcome_of c p s) = Some t" "hc = commit_of t"
    using run_hooks_commit [OF assms] by blast
  have "hook_quiet t"
    using hook_outcome_keeps [OF quiet.script_invariant_axioms _ t(1)] by simp
  moreover have "starts_tracked pm_new (process_manager (tx_state t)) (ef_process_starts (tx_effects t))"
    using hook_outcome_keeps [OF starts.script_invariant_axioms _ t(1)] by simp
  ultimately show ?thesis
    using t(2) by (auto simp: commit_of_def hook_quiet_def starts_tracked_def pm_new_def)
qed

definition sample_hook :: hook where
  "sample_hook = \<lparr>hook_name = ''h'', hook_priority = 5, match_expr = ''True'', hook_process = ''return None'', hook_timeout_ms = 3000\<rparr>"

theorem hook_run_contained_witness:
  "\<exists>out hc. run_hooks sample_ctx (\<lambda>x e. True) (\<lambda>code e. sample_script) [sample_hook] (sample_item 0 5 0) sample_state =
       Some (out, Some hc) \<and> (\<forall>r \<in> set (hc_process_starts hc). ps_block_for_ms r = None)"
proof -
  have "\<exists>out hc. run_hooks sample_ctx (\<lambda>x e. True) (\<lambda>code e. sample_script) [sample_hook] (sample_item 0 5 0) sample_state =
       Some (out, Some hc)"
    by (simp add: run_hooks_def find_hook_def hook_result_def sample_script_def method_defs sample_hook_def
        hook_program_def wrap_body_def nul_def hook_ctx_def sample_ctx_def lines_def chomp_def split: prod.split)
  then show ?thesis using hook_run_contained by blast
qed

text \<open>A hook run always comes back to the harness when its script does: for scripts that do
  not hang, no call of any of them panics and \<open>run_hooks\<close> returns an outcome.\<close>

theorem hook_run_returns:
  assumes "\<And>code e. never_hangs (interp code e)"
  shows "\<exists>out hc. run_hooks c matches interp hs item s = Some (out, hc)"
proof -
  have "\<exists>out hc. hook_result nm prio (case run_script (interp code e) (hook_ctx c) (hook_txn s) of
      Hung k t \<Rightarrow> run_script k (hook_ctx c) t | out \<Rightarrow> out) = Some (out, hc)" for nm prio code e
    using quiet.comes_to_end [of "hook_txn s" "interp code e" c] assms [of code e]
    by (auto simp: hook_result_def split: py_return.splits)
  then show ?thesis
    by (auto simp: run_hooks_def Let_def split: option.splits)
qed

theorem hook_run_returns_witness:
  "\<exists>out hc. run_hooks sample_ctx (\<lambda>x e. True) (\<lambda>code e. sample_script) [sample_hook] (sample_item 0 5 0) sample_state =
       Some (out, hc)"
  by (rule hook_run_returns) (simp add: sample_script_def)

end
