(* ===== verification/Compaction.thy ===== *)
theory Compaction
  imports Script_Executor
begin

text \<open>
  Compaction (\<open>CompactionManager\<close> of src/src/compaction.rs): when the prompt has grown
  past a threshold a work item asks the agent to write a script that shortens its history;
  the script is gathered over turns and can be tried on a copy.
\<close>

record compaction_manager =
  cm_active :: bool
  cm_script :: string
  cm_target_usage :: nat

definition cm_new :: compaction_manager where
  "cm_new = \<lparr>cm_active = False, cm_script = [], cm_target_usage = 0\<rparr>"

definition should_trigger :: "harness_state \<Rightarrow> nat \<Rightarrow> bool" where
  "should_trigger s compact_at \<longleftrightarrow> last_total_input_tokens s > compact_at"

definition cm_trigger ::
  "time \<Rightarrow> nat \<Rightarrow> harness_state \<Rightarrow> compaction_manager \<Rightarrow> compaction_manager \<times> harness_state" where
  "cm_trigger now compact_target s m =
     (let (i, s) = draw_id s
      in (m\<lparr>cm_active := True, cm_script := [], cm_target_usage := compact_target\<rparr>,
          push_queue \<lparr>wi_id = i, wi_priority = 10, wi_time = now, wi_type = Compaction, wi_attachments = []\<rparr> s))"

text \<open>The context \<open>python::execute\<close> gives a trial run: no HTTP server, no pinned memory.\<close>

definition trial_ctx :: "py_ctx \<Rightarrow> py_ctx" where
  "trial_ctx c = c\<lparr>px_is_compaction := True, px_process_outputs := [], px_child_depth := 1, px_pinned := [],
     px_subscribers := None, px_hook_mode := False\<rparr>"

definition python_execute :: "py_ctx \<Rightarrow> (string \<Rightarrow> script) \<Rightarrow> string \<Rightarrow> harness_state \<Rightarrow> execution_result option" where
  "python_execute c interp code s = execute_with_timeout 5 (trial_ctx c) interp code s"

text \<open>\<open>None\<close> when rendering panics.\<close>

definition estimate_post_compaction ::
  "py_ctx \<Rightarrow> (string \<Rightarrow> script) \<Rightarrow> render_env \<Rightarrow> harness_state \<Rightarrow> string \<Rightarrow> render_config \<Rightarrow> nat \<Rightarrow>
   compaction_manager \<Rightarrow> nat option" where
  "estimate_post_compaction c interp env s deployment_context config compact_at m =
     (let tokens = (\<lambda>s. map_option (\<lambda>r. length (rc_text r) div 4)
            (render_context env s deployment_context None None config compact_at None None)) in
      if cm_script m = [] then tokens s
      else case python_execute c interp (cm_script m) s of
        None \<Rightarrow> None
      | Some result \<Rightarrow> tokens (case er_committed result of Some post \<Rightarrow> post | None \<Rightarrow> s))"

definition cm_state :: "nat \<Rightarrow> compaction_manager \<Rightarrow> compaction_state" where
  "cm_state current_usage m =
     \<lparr>cs_current_usage = current_usage, cs_target_usage = cm_target_usage m, cs_compaction_script = cm_script m,
      cs_estimated = current_usage\<rparr>"

definition cm_complete :: "compaction_manager \<Rightarrow> compaction_manager" where
  "cm_complete m = m\<lparr>cm_active := False, cm_script := [], cm_target_usage := 0\<rparr>"

section \<open>Lemmas\<close>

text \<open>A trial always ends: the executor waits five seconds and one more.\<close>

lemma python_execute_ends: "\<exists>r. python_execute c interp code s = Some r"
  by (auto simp: python_execute_def execute_with_timeout_def split: thread_state.splits)

lemma cm_trigger_active: "cm_active (fst (cm_trigger now target s m))"
  by (simp add: cm_trigger_def split_beta)

lemma cm_trigger_queue:
  "queue_sorted (work_queue s) \<Longrightarrow> queue_sorted (work_queue (snd (cm_trigger now target s m)))"
  by (simp add: cm_trigger_def split_beta push_queue_def draw_id_def queue_sorted_push)

end
