(* ===== verification/Api_Client.thy ===== *)
theory Api_Client
  imports Renderer Usage
begin

text \<open>
  The client of the Claude API (src/src/api_client.rs, src/src/model_capabilities.rs, the API
  types of src/src/types.rs): the request built from a rendered context, attachments, the
  retry loop, the redaction of the trace and the reading of the answer. The network is the
  function giving the outcome of each attempt; files, base64, serde_json and floating point
  are arguments. A panic is \<open>None\<close>.
\<close>

section \<open>API types\<close>

type_synonym cache_control = "string option"

datatype content_block =
    BThinking string
  | BText string cache_control
  | BToolUse string string json \<comment> \<open>id, name, input\<close>
  | BToolResult string string "bool option"
  | BImage string string string cache_control \<comment> \<open>source\_type, media\_type, data\<close>

definition ephemeral :: cache_control where
  "ephemeral = Some ''ephemeral''"

fun set_cache_control :: "cache_control \<Rightarrow> content_block \<Rightarrow> content_block" where
  "set_cache_control cc (BText text c) = BText text cc"
| "set_cache_control cc (BImage s m d c) = BImage s m d cc"
| "set_cache_control cc b = b"

fun has_cc :: "content_block \<Rightarrow> bool" where
  "has_cc (BText text c) = (c \<noteq> None)"
| "has_cc (BImage s m d c) = (c \<noteq> None)"
| "has_cc b = False"

datatype thinking_mode = TNone | TAdaptive | TEnabled

record model_capabilities =
  mc_thinking :: thinking_mode
  mc_supports_effort :: bool

datatype thinking_config = ThinkAdaptive | ThinkEnabled nat

record system_block =
  sb_type :: string
  sb_text :: string
  sb_cache_control :: cache_control

record tool_definition =
  td_name :: string
  td_description :: string
  td_input_schema :: json

record api_request =
  rq_model :: string
  rq_max_tokens :: nat
  rq_system :: "system_block list"
  rq_tools :: "tool_definition list"
  rq_messages :: "(string \<times> content_block list) list" \<comment> \<open>role, content\<close>
  rq_thinking :: "thinking_config option"
  rq_output_config :: "string option" \<comment> \<open>effort\<close>

record api_usage =
  u_input_tokens :: nat
  u_output_tokens :: nat
  u_cache_creation :: nat
  u_cache_read :: nat

record api_response =
  rsp_content :: "content_block list"
  rsp_stop_reason :: string
  rsp_usage :: api_usage

record api_turn_result =
  tr_code :: string
  tr_thinking :: "string option"
  tr_input_tokens :: nat
  tr_output_tokens :: nat
  tr_cache_creation_tokens :: nat
  tr_cache_read_tokens :: nat

section \<open>Model capabilities\<close>

definition caps_fallback :: model_capabilities where
  "caps_fallback = \<lparr>mc_thinking = TNone, mc_supports_effort = False\<rparr>"

text \<open>One step of a JSON pointer; array indices without sign or leading zeros.\<close>

definition parse_index :: "string \<Rightarrow> nat option" where
  "parse_index t =
     (if starts_with ''+'' t \<or> (starts_with ''0'' t \<and> length t \<noteq> 1) then None else parse_uint 64 t)"

fun json_index :: "string \<Rightarrow> json \<Rightarrow> json option" where
  "json_index t (JObj m) = map_of m t"
| "json_index t (JArr xs) =
     (case parse_index t of Some i \<Rightarrow> if i < length xs then Some (xs ! i) else None | None \<Rightarrow> None)"
| "json_index t _ = None"

fun json_pointer :: "string list \<Rightarrow> json \<Rightarrow> json option" where
  "json_pointer [] j = Some j"
| "json_pointer (t # ts) j = (case json_index t j of Some v \<Rightarrow> json_pointer ts v | None \<Rightarrow> None)"

fun json_get :: "string \<Rightarrow> json \<Rightarrow> json option" where
  "json_get k (JObj m) = map_of m k"
| "json_get k _ = None"

fun as_bool :: "json \<Rightarrow> bool option" where
  "as_bool (JBool b) = Some b"
| "as_bool _ = None"

fun as_str :: "json \<Rightarrow> string option" where
  "as_str (JStr s) = Some s"
| "as_str _ = None"

fun as_i64 :: "json \<Rightarrow> int option" where
  "as_i64 (JInt i) = (if - (2 ^ 63) \<le> i \<and> i < 2 ^ 63 then Some i else None)"
| "as_i64 _ = None"

fun as_u64 :: "json \<Rightarrow> nat option" where
  "as_u64 (JInt i) = (if 0 \<le> i \<and> i < 2 ^ 64 then Some (nat i) else None)"
| "as_u64 _ = None"

fun as_arr :: "json \<Rightarrow> json list option" where
  "as_arr (JArr xs) = Some xs"
| "as_arr _ = None"

text \<open>\<open>v[k]\<close> of a \<open>Value\<close>: null where there is no such member.\<close>

definition json_at :: "string \<Rightarrow> json \<Rightarrow> json" where
  "json_at k j = (case json_get k j of Some x \<Rightarrow> x | None \<Rightarrow> JNull)"

definition flag_at :: "string list \<Rightarrow> json option \<Rightarrow> bool" where
  "flag_at path caps =
     (case Option.bind (Option.bind caps (json_pointer path)) as_bool of Some b \<Rightarrow> b | None \<Rightarrow> False)"

definition parse_capabilities :: "json \<Rightarrow> model_capabilities" where
  "parse_capabilities body =
     (let caps = json_get ''capabilities'' body;
          adaptive = flag_at [''thinking'', ''types'', ''adaptive'', ''supported''] caps;
          enabled = flag_at [''thinking'', ''types'', ''enabled'', ''supported''] caps;
          supports_effort = flag_at [''effort'', ''supported''] caps
      in \<lparr>mc_thinking = (if adaptive then TAdaptive else if enabled then TEnabled else TNone),
          mc_supports_effort = supports_effort\<rparr>)"

text \<open>\<open>get\<close>: the answer of the probe comes with the argument \<open>fetch\<close>; failures are not cached.\<close>

definition caps_get ::
  "(string \<Rightarrow> string + json) \<Rightarrow> string \<Rightarrow> (string, model_capabilities) hmap \<Rightarrow>
     model_capabilities \<times> (string, model_capabilities) hmap" where
  "caps_get fetch model cache =
     (case map_of cache model of
        Some caps \<Rightarrow> (caps, cache)
      | None \<Rightarrow>
          (case fetch model of
             Inr body \<Rightarrow> (parse_capabilities body, AList.update model (parse_capabilities body) cache)
           | Inl e \<Rightarrow> (caps_fallback, cache)))"

section \<open>Attachments\<close>

text \<open>\<open>Path::file_name\<close> and \<open>Path::extension\<close> on a Unix path.\<close>

definition file_name :: "string \<Rightarrow> string option" where
  "file_name path =
     (let comps = filter (\<lambda>c. c \<noteq> [] \<and> c \<noteq> ''.'') (split_on (CHR ''/'') path)
      in if comps = [] \<or> last comps = ''..'' then None else Some (last comps))"

definition extension :: "string \<Rightarrow> string option" where
  "extension path =
     (case file_name path of
        None \<Rightarrow> None
      | Some name \<Rightarrow>
          (let parts = split_on (CHR ''.'') name
           in if length parts < 2 \<or> (length parts = 2 \<and> hd parts = []) then None else Some (last parts)))"

definition sniff_image_media_type :: "string \<Rightarrow> string option" where
  "sniff_image_media_type path =
     (case map_option to_ascii_lowercase (extension path) of
        None \<Rightarrow> None
      | Some e \<Rightarrow>
          if e = ''jpg'' \<or> e = ''jpeg'' then Some ''image/jpeg''
          else if e = ''png'' then Some ''image/png''
          else if e = ''gif'' then Some ''image/gif''
          else if e = ''webp'' then Some ''image/webp''
          else None)"

definition max_text_attachment_bytes :: nat where
  "max_text_attachment_bytes = 64 * 1024"

record file_env =
  read_bytes :: "string \<Rightarrow> string + string"
  read_to_string :: "string \<Rightarrow> string + string"
  base64 :: "string \<Rightarrow> string"

definition read_error :: "string \<Rightarrow> string \<Rightarrow> content_block" where
  "read_error path e = BText (''[attachment read error: '' @ path @ '' '' @ em_dash @ '' '' @ e @ '']'') None"

text \<open>\<open>String::truncate\<close> panics off a char boundary.\<close>

definition resolve_attachment :: "file_env \<Rightarrow> string \<Rightarrow> content_block option" where
  "resolve_attachment fs path =
     (case sniff_image_media_type path of
        Some media_type \<Rightarrow>
          (case read_bytes fs path of
             Inr bytes \<Rightarrow> Some (BImage ''base64'' media_type (base64 fs bytes) None)
           | Inl e \<Rightarrow> Some (read_error path e))
      | None \<Rightarrow>
          (case read_to_string fs path of
             Inr text \<Rightarrow>
               map_option (\<lambda>t. BText (''<attachment path='' @ quote2 path @ ''>'' @ [nl] @ t @ [nl] @ ''</attachment>'') None)
                 (if length text > max_text_attachment_bytes
                  then map_option (\<lambda>t. t @ [nl] @ ''[... truncated, '' @ show_nat (length text) @ '' bytes total]'')
                         (slice_to text max_text_attachment_bytes)
                  else Some text)
           | Inl e \<Rightarrow> Some (read_error path e)))"

section \<open>The request\<close>

record client_config =
  cc_model :: string
  cc_effort :: string
  cc_max_tokens :: nat
  cc_base_prompt :: string

definition build_system_prompt :: "string \<Rightarrow> (string \<times> string) list \<Rightarrow> string" where
  "build_system_prompt base pinned_memory =
     (if pinned_memory = [] then base
      else base @ [nl, nl] @ line [''<pinned_memory>''] @
        concat (map (\<lambda>(key, content). line [''## '', key] @ content @ [nl, nl]) pinned_memory) @
        line [''</pinned_memory>''])"

definition execute_tool :: tool_definition where
  "execute_tool =
     \<lparr>td_name = ''execute'',
      td_description = ''Execute a Python script in the agent environment. You have access to '' @
        ''the work queue, memory, timers, event history, and deployment-specific tools. '' @
        ''Use this tool to perform all actions.'',
      td_input_schema = JObj [(''type'', JStr ''object''),
        (''properties'', JObj [(''code'', JObj [(''type'', JStr ''string''),
           (''description'', JStr ''Python code to execute'')])]),
        (''required'', JArr [JStr ''code''])]\<rparr>"

definition mark_last :: "content_block list \<Rightarrow> content_block list" where
  "mark_last bs = (if bs = [] then [] else butlast bs @ [set_cache_control ephemeral (last bs)])"

definition request_blocks :: "file_env \<Rightarrow> rendered_context \<Rightarrow> content_block list option" where
  "request_blocks fs rc =
     (let prefix_len = length (prefix_text rc); cached_len = sum_list (map length (cached_segments rc))
      in do {
        tail \<leftarrow> slice_from (rc_text rc) (prefix_len + cached_len);
        prefix_blocks \<leftarrow> those (map (resolve_attachment fs) (prefix_attachments rc));
        tail_blocks \<leftarrow> those (map (resolve_attachment fs) (rc_attachments rc));
        Some ((if prefix_text rc \<noteq> [] then [BText (prefix_text rc) None] else []) @
              mark_last prefix_blocks @
              map (\<lambda>seg. BText seg ephemeral) (cached_segments rc) @
              [BText tail None] @ tail_blocks) })"

definition build_request ::
  "file_env \<Rightarrow> client_config \<Rightarrow> rendered_context \<Rightarrow> (string \<times> string) list \<Rightarrow> model_capabilities \<Rightarrow> api_request option" where
  "build_request fs config rc pinned_memory caps =
     map_option (\<lambda>blocks.
       \<lparr>rq_model = cc_model config, rq_max_tokens = cc_max_tokens config,
        rq_system = [\<lparr>sb_type = ''text'', sb_text = build_system_prompt (cc_base_prompt config) pinned_memory,
          sb_cache_control = ephemeral\<rparr>],
        rq_tools = [execute_tool],
        rq_messages = [(''user'', blocks)],
        rq_thinking = (case mc_thinking caps of TAdaptive \<Rightarrow> Some ThinkAdaptive
          | TEnabled \<Rightarrow> Some (ThinkEnabled 10000) | TNone \<Rightarrow> None),
        rq_output_config =
          (if mc_thinking caps = TAdaptive \<and> mc_supports_effort caps then Some (cc_effort config) else None)\<rparr>)
     (request_blocks fs rc)"

section \<open>Retries\<close>

definition saturating_pow2 :: "nat \<Rightarrow> nat" where
  "saturating_pow2 attempt = min (2 ^ attempt) (2 ^ 64 - 1)"

definition fastrand_ish :: "float_ops \<Rightarrow> nat \<Rightarrow> f64" where
  "fastrand_ish fl nanos = f_div fl (f_nat fl (nanos mod 1000)) (f_dec fl ''1000.0'')"

definition jitter :: "float_ops \<Rightarrow> nat \<Rightarrow> nat \<Rightarrow> int" where
  "jitter fl base nanos =
     f_to_int fl (f_mul fl (f_mul fl (f_nat fl base) (f_dec fl ''0.25''))
       (f_sub fl (f_mul fl (fastrand_ish fl nanos) (f_dec fl ''2.0'')) (f_dec fl ''1.0'')))"

definition backoff :: "float_ops \<Rightarrow> nat \<Rightarrow> nat \<Rightarrow> nat \<Rightarrow> nat" where
  "backoff fl nanos attempt cap_secs =
     (let base = min (saturating_pow2 attempt) cap_secs
      in nat (max (int base + jitter fl base nanos) 1))"

text \<open>What one attempt brings: an answer with a success status (its body, or an error reading
  it), another status with its \<open>retry-after\<close> header and body, or a network error.\<close>

datatype send_result =
    Success "string + json"
  | HttpStatus nat "string option" string
  | NetworkError string

datatype attempt_outcome =
    Done "string + json"
  | Fail string
  | Retry string nat nat string \<comment> \<open>kind, max, wait, detail\<close>

definition classify :: "float_ops \<Rightarrow> nat \<Rightarrow> bool \<Rightarrow> nat \<Rightarrow> send_result \<Rightarrow> attempt_outcome" where
  "classify fl nanos bearer attempt r =
     (case r of
        Success raw \<Rightarrow> Done raw
      | HttpStatus status retry_after body \<Rightarrow>
          if status = 401 \<and> bearer
          then Fail (''API returned 401 in bearer mode '' @ em_dash @ '' token likely expired or revoked. '' @
                 ''Restart with a fresh CLAUDE_SERVER_BEARER_TOKEN. Body: '' @ body)
          else if status = 529 then Retry ''overloaded'' 20 (backoff fl nanos attempt 60) body
          else if status = 429
          then Retry ''rate-limited'' 8
                 (case Option.bind retry_after (parse_uint 64) of Some s \<Rightarrow> s | None \<Rightarrow> backoff fl nanos attempt 60) body
          else if 500 \<le> status \<and> status \<le> 599 then Retry ''server error'' 5 (backoff fl nanos attempt 30) body
          else Fail (''API returned '' @ show_nat status @ '': '' @ body)
      | NetworkError e \<Rightarrow> Retry ''network'' 8 (backoff fl nanos attempt 30) e)"

definition give_up :: "string \<Rightarrow> nat \<Rightarrow> string \<Rightarrow> string" where
  "give_up kind attempt detail = ''API '' @ kind @ '' after '' @ show_nat attempt @ '' attempts: '' @ detail"

lemma classify_max: "classify fl nanos bearer attempt r = Retry kind m wait detail \<Longrightarrow> m \<le> 20"
  by (auto simp: classify_def split: send_result.splits if_splits)

text \<open>The loop: the answers and the clock by attempt, the attempts made so far; the result and
  the waits in between.\<close>

function call_loop ::
  "float_ops \<Rightarrow> (nat \<Rightarrow> nat) \<Rightarrow> bool \<Rightarrow> (nat \<Rightarrow> send_result) \<Rightarrow> nat \<Rightarrow> (string + json) \<times> nat list" where
  "call_loop fl nanos bearer send attempt0 =
     (let attempt = attempt0 + 1
      in case classify fl (nanos attempt) bearer attempt (send attempt) of
           Done raw \<Rightarrow> (raw, [])
         | Fail e \<Rightarrow> (Inl e, [])
         | Retry kind mx wait detail \<Rightarrow>
             if attempt \<ge> mx then (Inl (give_up kind attempt detail), [])
             else (let (r, waits) = call_loop fl nanos bearer send attempt in (r, wait # waits)))"
  by pat_completeness auto
termination
  by (relation "measure (\<lambda>(_, _, _, _, attempt). 20 - attempt)") (auto dest!: classify_max sym [of "Retry _ _ _ _"])

declare call_loop.simps [simp del]

section \<open>Redaction and the trace\<close>

definition redacted :: string where
  "redacted = ''<SENSITIVE, REDACTED>''"

text \<open>\<open>str::replace\<close>; an empty pattern matches at every char boundary.\<close>

definition str_replace :: "string \<Rightarrow> string \<Rightarrow> string \<Rightarrow> string" where
  "str_replace p r s = (if p = [] then r @ concat (map (\<lambda>c. c @ r) (utf8_chars s)) else replace_sub p r s)"

definition trim_matches :: "char \<Rightarrow> string \<Rightarrow> string" where
  "trim_matches c s = rev (dropWhile ((=) c) (rev (dropWhile ((=) c) s)))"

definition scrub_value :: "(json \<Rightarrow> string option) \<Rightarrow> string \<Rightarrow> string \<Rightarrow> string" where
  "scrub_value enc val s =
     (let s1 = str_replace val redacted s
      in case enc (JStr val) of
           None \<Rightarrow> s1
         | Some e \<Rightarrow> (let esc = trim_matches dquote e in if esc \<noteq> val then str_replace esc redacted s1 else s1))"

definition scrub_text :: "(json \<Rightarrow> string option) \<Rightarrow> string list \<Rightarrow> string \<Rightarrow> string" where
  "scrub_text enc sensitive_values s = fold (scrub_value enc) sensitive_values s"

definition scrub :: "(json \<Rightarrow> string option) \<Rightarrow> (string \<Rightarrow> json option) \<Rightarrow> string list \<Rightarrow> json \<Rightarrow> json" where
  "scrub enc dec sensitive_values v =
     (case dec (scrub_text enc sensitive_values (case enc v of Some s \<Rightarrow> s | None \<Rightarrow> []))
      of Some j \<Rightarrow> j | None \<Rightarrow> JNull)"

definition trace_of ::
  "(json \<Rightarrow> string option) \<Rightarrow> (string \<Rightarrow> json option) \<Rightarrow> string \<Rightarrow> u32 \<Rightarrow> string list \<Rightarrow> json \<Rightarrow> json \<Rightarrow> trace_entry" where
  "trace_of enc dec agent turn sensitive_values req raw =
     (if sensitive_values = [] then \<lparr>te_agent = agent, te_turn = turn, te_request = req, te_response = raw\<rparr>
      else \<lparr>te_agent = agent, te_turn = turn, te_request = scrub enc dec sensitive_values req,
            te_response = scrub enc dec sensitive_values raw\<rparr>)"

section \<open>The answer\<close>

fun find_execute :: "content_block list \<Rightarrow> json option" where
  "find_execute [] = None"
| "find_execute (BToolUse i name input # bs) = (if name = ''execute'' then Some input else find_execute bs)"
| "find_execute (b # bs) = find_execute bs"

fun thinking_parts :: "content_block list \<Rightarrow> string list" where
  "thinking_parts [] = []"
| "thinking_parts (BThinking t # bs) = t # thinking_parts bs"
| "thinking_parts (b # bs) = thinking_parts bs"

fun text_parts :: "content_block list \<Rightarrow> string list" where
  "text_parts [] = []"
| "text_parts (BText t c # bs) = t # text_parts bs"
| "text_parts (b # bs) = text_parts bs"

definition extract_code :: "api_response \<Rightarrow> string + api_turn_result" where
  "extract_code response =
     (let parts = thinking_parts (rsp_content response);
          thinking = (if parts = [] then None else Some (join [nl] parts));
          u = rsp_usage response
      in case find_execute (rsp_content response) of
           Some input \<Rightarrow>
             Inr \<lparr>tr_code = (case Option.bind (json_get ''code'' input) as_str of Some c \<Rightarrow> c | None \<Rightarrow> []),
                  tr_thinking = thinking, tr_input_tokens = u_input_tokens u, tr_output_tokens = u_output_tokens u,
                  tr_cache_creation_tokens = u_cache_creation u, tr_cache_read_tokens = u_cache_read u\<rparr>
         | None \<Rightarrow>
             Inl (''No execute tool_use in response (stop_reason='' @ rsp_stop_reason response @ ''). Text: '' @
                  trunc (join [nl] (text_parts (rsp_content response))) 200 @ ''...''))"

text \<open>\<open>call\<close>: the loop, then the trace entry, then decoding (\<open>decode\<close> is serde's reading of the
  body) and extraction. The trace is written before the body is decoded.\<close>

definition api_call ::
  "float_ops \<Rightarrow> (nat \<Rightarrow> nat) \<Rightarrow> bool \<Rightarrow> (nat \<Rightarrow> send_result) \<Rightarrow>
   (json \<Rightarrow> string option) \<Rightarrow> (string \<Rightarrow> json option) \<Rightarrow> (json \<Rightarrow> string + api_response) \<Rightarrow>
   string \<Rightarrow> u32 \<Rightarrow> string list \<Rightarrow> json \<Rightarrow> api_trace option \<Rightarrow>
   ((string + api_turn_result) \<times> api_trace option) option" where
  "api_call fl nanos bearer send enc dec decode agent turn sensitive_values req trace =
     (case fst (call_loop fl nanos bearer send 0) of
        Inl e \<Rightarrow> Some (Inl e, trace)
      | Inr raw \<Rightarrow>
          (case (case trace of None \<Rightarrow> Some None
                 | Some t \<Rightarrow> map_option Some (at_push (trace_of enc dec agent turn sensitive_values req raw) t)) of
             None \<Rightarrow> None
           | Some trace' \<Rightarrow>
               Some (case decode raw of Inl e \<Rightarrow> Inl e | Inr response \<Rightarrow> extract_code response, trace')))"

section \<open>Lemmas\<close>

lemma call_loop_bounds:
  "attempt0 < 20 \<Longrightarrow> length (snd (call_loop fl nanos bearer send attempt0)) \<le> 19 - attempt0"
proof (induction fl nanos bearer send attempt0 rule: call_loop.induct)
  case (1 fl nanos bearer send a)
  show ?case
  proof (cases "classify fl (nanos (a + 1)) bearer (a + 1) (send (a + 1))")
    case (Retry kind mx wait detail)
    show ?thesis
    proof (cases "a + 1 \<ge> mx")
      case True
      with Retry show ?thesis by (subst call_loop.simps) simp
    next
      case False
      then have "a + 1 < 20" using classify_max [OF Retry] by simp
      with "1.IH" [OF refl Retry False] have "length (snd (call_loop fl nanos bearer send (a + 1))) \<le> 19 - (a + 1)"
        by simp
      with Retry False \<open>a + 1 < 20\<close> show ?thesis by (subst call_loop.simps) (simp add: split_beta)
    qed
  qed (subst call_loop.simps, simp)+
qed

text \<open>Failures the loop retries.\<close>

definition transient :: "send_result \<Rightarrow> bool" where
  "transient r \<longleftrightarrow>
     (case r of Success raw \<Rightarrow> False | NetworkError e \<Rightarrow> True
      | HttpStatus st ra b \<Rightarrow> st = 429 \<or> (500 \<le> st \<and> st \<le> 599))"

lemma classify_transient:
  "transient r \<Longrightarrow> \<exists>kind mx wait detail. classify fl n bearer a r = Retry kind mx wait detail \<and> 5 \<le> mx"
  by (auto simp: transient_def classify_def split: send_result.splits)

lemma call_loop_success:
  assumes "send k = Success raw" "\<forall>j. a < j \<and> j < k \<longrightarrow> transient (send j)" "a < k" "k \<le> 5"
  shows "fst (call_loop fl nanos bearer send a) = raw \<and> length (snd (call_loop fl nanos bearer send a)) = k - a - 1"
  using assms
proof (induction "k - a" arbitrary: a)
  case 0
  then show ?case by simp
next
  case (Suc d)
  show ?case
  proof (cases "a + 1 = k")
    case True
    with Suc.prems show ?thesis by (subst (1 2) call_loop.simps) (auto simp: classify_def)
  next
    case False
    with Suc.prems have "transient (send (a + 1))" by simp
    from classify_transient [OF this] obtain kind mx wait detail
      where c: "classify fl (nanos (a + 1)) bearer (a + 1) (send (a + 1)) = Retry kind mx wait detail" "5 \<le> mx" by blast
    with False Suc.prems have "\<not> a + 1 \<ge> mx" by simp
    moreover have "fst (call_loop fl nanos bearer send (a + 1)) = raw \<and>
        length (snd (call_loop fl nanos bearer send (a + 1))) = k - (a + 1) - 1"
      using False Suc.prems Suc.hyps(2) by (intro Suc.hyps(1)) auto
    ultimately show ?thesis using c False Suc.prems
      by (subst (1 2) call_loop.simps) (simp add: split_beta)
  qed
qed

lemma replace_sub_head:
  "replace_sub p r s = w @ b \<Longrightarrow> r \<noteq> [] \<Longrightarrow> set w \<inter> set r = {} \<Longrightarrow> \<exists>b'. s = w @ b'"
proof (induction p r s arbitrary: w rule: replace_sub.induct)
  case (1 p r)
  then show ?case by simp
next
  case (2 p r x xs)
  show ?case
  proof (cases w)
    case (Cons y w')
    show ?thesis
    proof (cases "p \<noteq> [] \<and> starts_with p (x # xs)")
      case True
      with "2.prems" Cons have "hd r \<in> set w" by (cases r) auto
      with "2.prems" show ?thesis by (metis disjoint_iff hd_in_set)
    next
      case False
      with "2.prems" Cons have "y = x" "replace_sub p r xs = w' @ b" by auto
      with "2.IH"(2) [OF False, of w'] "2.prems" Cons show ?thesis by auto
    qed
  qed simp
qed

lemma replace_sub_gone:
  "replace_sub p r s = a @ p @ b \<Longrightarrow> p \<noteq> [] \<Longrightarrow> r \<noteq> [] \<Longrightarrow> set p \<inter> set r = {} \<Longrightarrow> False"
proof (induction p r s arbitrary: a rule: replace_sub.induct)
  case (1 p r)
  then show ?case by simp
next
  case (2 p r x xs)
  show ?case
  proof (cases "p \<noteq> [] \<and> starts_with p (x # xs)")
    case True
    let ?t = "replace_sub p r (drop (length p) (x # xs))"
    have eq: "r @ ?t = a @ p @ b" using True "2.prems" by simp
    show ?thesis
    proof (cases "length a < length r")
      case short: True
      have "(a @ p @ b) ! length a = hd p" using "2.prems"(2) by (simp add: nth_append hd_conv_nth)
      moreover have "(r @ ?t) ! length a = r ! length a" using short by (simp add: nth_append)
      ultimately have "hd p = r ! length a" using eq by simp
      then have "hd p \<in> set r" using short by simp
      with "2.prems" show ?thesis by (metis disjoint_iff hd_in_set)
    next
      case False
      then have "?t = drop (length r) a @ p @ b"
        using arg_cong [OF eq, of "drop (length r)"] by simp
      from "2.IH"(1) [OF True this] "2.prems" show ?thesis by blast
    qed
  next
    case False
    then have eq: "x # replace_sub p r xs = a @ p @ b" using "2.prems" by simp
    show ?thesis
    proof (cases a)
      case Nil
      then obtain p' where p: "p = x # p'" "replace_sub p r xs = p' @ b"
        using eq "2.prems"(2) by (cases p) auto
      moreover have "set p' \<inter> set r = {}" using p "2.prems" by auto
      ultimately obtain b' where "xs = p' @ b'" using replace_sub_head "2.prems"(3) by blast
      with p False "2.prems" show ?thesis by (auto simp: starts_with_def)
    next
      case (Cons y a')
      with eq have "replace_sub p r xs = a' @ p @ b" by simp
      from "2.IH"(2) [OF False this] "2.prems" show ?thesis by blast
    qed
  qed
qed

text \<open>A replacement brings up no text that was not there before.\<close>

lemma replace_sub_occ:
  "replace_sub p r s = a @ w @ b \<Longrightarrow> r \<noteq> [] \<Longrightarrow> w \<noteq> [] \<Longrightarrow> set w \<inter> set r = {} \<Longrightarrow> \<exists>a' b'. s = a' @ w @ b'"
proof (induction p r s arbitrary: a rule: replace_sub.induct)
  case (1 p r)
  then show ?case by simp
next
  case (2 p r x xs)
  show ?case
  proof (cases "p \<noteq> [] \<and> starts_with p (x # xs)")
    case True
    let ?t = "replace_sub p r (drop (length p) (x # xs))"
    have eq: "r @ ?t = a @ w @ b" using True "2.prems" by simp
    show ?thesis
    proof (cases "length a < length r")
      case short: True
      have "hd w = (r @ ?t) ! length a" unfolding eq using "2.prems"(3) by (simp add: nth_append hd_conv_nth)
      then have "hd w \<in> set r" using short by (simp add: nth_append)
      with "2.prems" show ?thesis by (metis disjoint_iff hd_in_set)
    next
      case False
      then have "?t = drop (length r) a @ w @ b"
        using arg_cong [OF eq, of "drop (length r)"] by simp
      from "2.IH"(1) [OF True this] "2.prems" obtain a' b' where "drop (length p) (x # xs) = a' @ w @ b'" by blast
      then have "x # xs = (take (length p) (x # xs) @ a') @ w @ b'"
        by (metis append.assoc append_take_drop_id)
      then show ?thesis by blast
    qed
  next
    case False
    show ?thesis
    proof (cases a)
      case Nil
      with "2.prems" have "replace_sub p r (x # xs) = w @ b" by simp
      from replace_sub_head [OF this] "2.prems" show ?thesis by (metis append_Nil)
    next
      case (Cons y a')
      with False "2.prems" have "replace_sub p r xs = a' @ w @ b" by auto
      from "2.IH"(2) [OF False this] "2.prems" obtain a'' b' where "xs = a'' @ w @ b'" by blast
      then have "x # xs = (x # a'') @ w @ b'" by simp
      then show ?thesis by blast
    qed
  qed
qed

definition occurs :: "string \<Rightarrow> string \<Rightarrow> bool" where
  "occurs w s \<longleftrightarrow> (\<exists>a b. s = a @ w @ b)"

text \<open>A secret the redaction handles: not empty, needing no JSON escape, and sharing no character
  with the marker that replaces it.\<close>

definition plain_secret :: "(json \<Rightarrow> string option) \<Rightarrow> string \<Rightarrow> bool" where
  "plain_secret enc v \<longleftrightarrow> v \<noteq> [] \<and> set v \<inter> set redacted = {} \<and> (\<exists>e. enc (JStr v) = Some e \<and> trim_matches dquote e = v)"

lemma scrub_value_plain: "plain_secret enc v \<Longrightarrow> scrub_value enc v s = replace_sub v redacted s"
  by (auto simp: plain_secret_def scrub_value_def str_replace_def)

lemma redacted_nonempty: "redacted \<noteq> []"
  by (simp add: redacted_def)

lemma scrub_text_absent:
  "\<forall>v \<in> set vs. plain_secret enc v \<Longrightarrow> w \<noteq> [] \<Longrightarrow> set w \<inter> set redacted = {} \<Longrightarrow>
     \<not> occurs w s \<Longrightarrow> \<not> occurs w (scrub_text enc vs s)"
proof (induction vs arbitrary: s)
  case Nil
  then show ?case by (simp add: scrub_text_def)
next
  case (Cons v vs)
  have "\<not> occurs w (replace_sub v redacted s)"
    using replace_sub_occ [OF _ redacted_nonempty Cons.prems(2,3)] Cons.prems(4) unfolding occurs_def by metis
  with Cons show ?case by (simp add: scrub_text_def scrub_value_plain)
qed

lemma slice_tail: "hd r = CHR ''<'' \<or> r = [] \<Longrightarrow> slice_from (a @ r) (length a) = Some r"
  by (cases r) (auto simp: slice_from_def is_char_boundary_def is_cont_def nth_append)

lemma those_total: "\<forall>x \<in> set xs. f x \<noteq> None \<Longrightarrow> \<exists>ys. those (map f xs) = Some ys \<and> list_all2 (\<lambda>x y. f x = Some y) xs ys"
  by (induction xs) auto

lemma resolve_no_cc: "resolve_attachment fs p = Some b \<Longrightarrow> \<not> has_cc b"
  by (auto simp: resolve_attachment_def read_error_def split: option.splits sum.splits if_splits)

lemma length_filter_map_true: "length (filter (has_cc \<circ> (\<lambda>seg. BText seg ephemeral)) segs) = length segs"
  by (simp add: comp_def ephemeral_def)

lemma has_cc_mark_last:
  assumes "\<forall>b \<in> set bs. \<not> has_cc b"
  shows "length (filter has_cc (mark_last bs)) \<le> (if bs = [] then 0 else 1)"
proof (cases bs rule: rev_cases)
  case Nil
  then show ?thesis by (simp add: mark_last_def)
next
  case (snoc ys y)
  have "filter has_cc ys = []" using assms snoc by (auto simp: filter_empty_conv)
  with snoc show ?thesis by (simp add: mark_last_def)
qed

section \<open>Properties\<close>

text \<open>C32: the retry policy: whatever the API answers, a call ends after at most twenty attempts;
  an answer within the first five attempts that only transient failures precede is returned,
  after exactly that many attempts; and a permanent failure is reported at once, with no
  second attempt.\<close>

theorem call_retry_policy:
  "length (snd (call_loop fl nanos bearer send 0)) \<le> 19 \<and>
   (\<forall>k raw. send k = Success raw \<and> (\<forall>j. 0 < j \<and> j < k \<longrightarrow> transient (send j)) \<and> 0 < k \<and> k \<le> 5 \<longrightarrow>
      fst (call_loop fl nanos bearer send 0) = raw \<and> length (snd (call_loop fl nanos bearer send 0)) = k - 1) \<and>
   (\<forall>st ra body. send 1 = HttpStatus st ra body \<and> \<not> transient (send 1) \<longrightarrow>
      isl (fst (call_loop fl nanos bearer send 0)) \<and> snd (call_loop fl nanos bearer send 0) = [])"
proof (intro conjI allI impI)
  show "length (snd (call_loop fl nanos bearer send 0)) \<le> 19"
    using call_loop_bounds [of 0] by simp
next
  fix k raw
  assume "send k = Success raw \<and> (\<forall>j. 0 < j \<and> j < k \<longrightarrow> transient (send j)) \<and> 0 < k \<and> k \<le> 5"
  then show "fst (call_loop fl nanos bearer send 0) = raw" "length (snd (call_loop fl nanos bearer send 0)) = k - 1"
    using call_loop_success [of send k raw 0] by auto
next
  fix st ra body
  assume "send 1 = HttpStatus st ra body \<and> \<not> transient (send 1)"
  then have "\<exists>e. classify fl (nanos (0 + 1)) bearer (0 + 1) (send (0 + 1)) = Fail e"
    by (auto simp: classify_def transient_def)
  then show "isl (fst (call_loop fl nanos bearer send 0))" "snd (call_loop fl nanos bearer send 0) = []"
    by (auto simp: call_loop.simps [of fl nanos bearer send 0])
qed

theorem call_retry_policy_witness:
  "fst (call_loop sample_floats (\<lambda>a. 0) False (\<lambda>k. if k < 3 then HttpStatus 529 None [] else Success (Inr JNull)) 0) = Inr JNull"
  using call_retry_policy [of sample_floats "\<lambda>a. 0" False "\<lambda>k. if k < 3 then HttpStatus 529 None [] else Success (Inr JNull)"]
  by (force simp: transient_def)

text \<open>C4: the request carries the rendered context unchanged: its blocks are the prefix text,
  the prefix attachments, one block per cached segment and the tail, whose texts put together
  are the rendered text, then the attachments of this turn; and with the system block at most
  four blocks ask for caching.\<close>

theorem request_carries_context:
  assumes "renderable config s"
    and "render_context env s d rp compaction config compact_at agent pinned = Some r"
    and "\<forall>p \<in> set (prefix_attachments r @ rc_attachments r). resolve_attachment fs p \<noteq> None"
  shows "\<exists>tail atts tail_atts. request_blocks fs r = Some
       ((if prefix_text r \<noteq> [] then [BText (prefix_text r) None] else []) @ atts @
        map (\<lambda>seg. BText seg ephemeral) (cached_segments r) @ [BText tail None] @ tail_atts) \<and>
     prefix_text r @ concat (cached_segments r) @ tail = rc_text r \<and>
     length atts = length (prefix_attachments r) \<and> length tail_atts = length (rc_attachments r) \<and>
     1 + length (filter has_cc (the (request_blocks fs r))) \<le> 4"
proof -
  have "\<exists>rest. rc_text r = prefix_text r @ concat (cached_segments r) @ rest \<and> (rest = [] \<or> hd rest = CHR ''<'') \<and>
     1 + (if prefix_attachments r = [] then 0 else 1) + length (cached_segments r) \<le> 4"
    by (rule cached_layout_lemma [OF assms(1,2)])
  then obtain rest where rest: "rc_text r = (prefix_text r @ concat (cached_segments r)) @ rest" "hd rest = CHR ''<'' \<or> rest = []"
    and cc: "1 + (if prefix_attachments r = [] then 0 else 1) + length (cached_segments r) \<le> 4" by auto
  have len: "length (prefix_text r) + sum_list (map length (cached_segments r)) = length (prefix_text r @ concat (cached_segments r))"
    by (simp add: length_concat)
  have tail: "slice_from (rc_text r) (length (prefix_text r) + sum_list (map length (cached_segments r))) = Some rest"
    unfolding len rest(1) by (rule slice_tail [OF rest(2)])
  obtain pb where pb: "those (map (resolve_attachment fs) (prefix_attachments r)) = Some pb"
    "list_all2 (\<lambda>x y. resolve_attachment fs x = Some y) (prefix_attachments r) pb"
    using those_total [of "prefix_attachments r" "resolve_attachment fs"] assms(3) by auto
  obtain tb where tb: "those (map (resolve_attachment fs) (rc_attachments r)) = Some tb"
    "list_all2 (\<lambda>x y. resolve_attachment fs x = Some y) (rc_attachments r) tb"
    using those_total [of "rc_attachments r" "resolve_attachment fs"] assms(3) by auto
  have no: "\<forall>b \<in> set pb. \<not> has_cc b" "\<forall>b \<in> set tb. \<not> has_cc b"
    using pb(2) tb(2) resolve_no_cc by (fastforce simp: list_all2_conv_all_nth in_set_conv_nth)+
  have len': "length pb = length (prefix_attachments r)" "length tb = length (rc_attachments r)"
    using pb(2) tb(2) by (simp_all add: list_all2_lengthD)
  have blocks: "request_blocks fs r = Some
       ((if prefix_text r \<noteq> [] then [BText (prefix_text r) None] else []) @ mark_last pb @
        map (\<lambda>seg. BText seg ephemeral) (cached_segments r) @ [BText rest None] @ tb)"
    by (simp add: request_blocks_def Let_def tail pb(1) tb(1))
  have "filter has_cc tb = []" using no(2) by (simp add: filter_empty_conv)
  then have "1 + length (filter has_cc (the (request_blocks fs r))) \<le> 4"
    using has_cc_mark_last [OF no(1)] cc len'(1) unfolding blocks
    by (auto simp: length_filter_map_true filter_map split: if_splits)
  moreover have "length (mark_last pb) = length (prefix_attachments r)"
    using len' by (cases pb rule: rev_cases) (auto simp: mark_last_def)
  ultimately show ?thesis using blocks rest(1) len' by auto
qed

definition sample_fs :: file_env where
  "sample_fs = \<lparr>read_bytes = (\<lambda>p. Inl ''no such file''), read_to_string = (\<lambda>p. Inl ''no such file''), base64 = (\<lambda>b. b)\<rparr>"

theorem request_carries_context_witness:
  "\<exists>r. render_context sample_env (hs_new 200000 16384) ''home'' None None (render_config_default None None) 100000 None None = Some r
     \<and> request_blocks sample_fs r \<noteq> None"
proof -
  obtain r where r: "render_context sample_env (hs_new 200000 16384) ''home'' None None (render_config_default None None) 100000 None None = Some r"
    by (rule render_context_parts [OF sample_renderable]) blast
  have "\<forall>p \<in> set (prefix_attachments r @ rc_attachments r). resolve_attachment sample_fs p \<noteq> None"
    by (simp add: resolve_attachment_def sample_fs_def split: option.splits)
  from request_carries_context [OF sample_renderable r this] r show ?thesis by auto
qed

text \<open>A text attachment longer than 64 KiB is truncated at a fixed byte. When a character
  spans that byte the truncation panics, and with it the turn; otherwise, and for every other
  file, resolving an attachment gives a block.\<close>

theorem attachment_panics_iff:
  "resolve_attachment fs path = None \<longleftrightarrow>
     sniff_image_media_type path = None \<and>
     (case read_to_string fs path of Inr text \<Rightarrow> 65536 < length text \<and> is_cont (text ! 65536) | Inl e \<Rightarrow> False)"
  by (auto simp: resolve_attachment_def max_text_attachment_bytes_def slice_to_def is_char_boundary_def
      split: option.splits sum.splits)


definition plain_enc :: "json \<Rightarrow> string option" where
  "plain_enc j = (case j of JStr v \<Rightarrow> Some (quote2 v) | _ \<Rightarrow> None)"

lemma plain_abc: "plain_secret plain_enc ''abc'' \<and> plain_secret plain_enc ''abcdef''"
  by (simp add: plain_secret_def plain_enc_def quote2_def trim_matches_def redacted_def dquote_def)


text \<open>The values are replaced one after the other, so of a value that starts with another one
  replaced before it the rest stays readable in the trace.\<close>

theorem redaction_leaks_suffix:
  assumes "plain_secret enc ''abc''" "plain_secret enc ''abcdef''"
  shows "scrub_text enc [''abc'', ''abcdef''] ''abcdef'' = redacted @ ''def''"
  using assms by (simp add: scrub_text_def scrub_value_plain starts_with_def redacted_def)

theorem redaction_leaks_suffix_witness:
  "scrub_text plain_enc [''abc'', ''abcdef''] ''abcdef'' = redacted @ ''def''"
  using redaction_leaks_suffix [of plain_enc] plain_abc by simp

end
