(* ===== verification/Agent_State.thy ===== *)
theory Agent_State
  imports Compaction Api_Client
begin

text \<open>
  The state of an agent loop (\<open>AgentLoop\<close> of src/src/agent_loop.rs), what it reports (the
  dashboard snapshot) and what it sends out. What the loop does to the outside (spawns,
  broadcasts, database writes, events for other agents) is listed in \<open>al_out\<close>, oldest
  first. The environment of a step holds what comes from elsewhere: the clock, read once in a
  step, the file system and interpreter of the scripts, what the database answers, whether a
  spawn succeeds, and the configuration.
\<close>

section \<open>Data\<close>

datatype finish_reason = Done | MaxTurns u32 | Shutdown | Killed | ChannelClosed

fun as_status_str :: "finish_reason \<Rightarrow> string" where
  "as_status_str Done = ''done''"
| "as_status_str (MaxTurns n) = ''max_turns''"
| "as_status_str Shutdown = ''shutdown''"
| "as_status_str Killed = ''killed''"
| "as_status_str ChannelClosed = ''channel_closed''"

text \<open>\<open>worker, child of planner, child of root\<close>\<close>

definition format_lineage :: "string list \<Rightarrow> string" where
  "format_lineage l =
     (if length l \<le> 1 then (case l of [] \<Rightarrow> [] | x # _ \<Rightarrow> x)
      else last l @ '', '' @ join '', '' (map (\<lambda>a. ''child of '' @ a) (rev (butlast l))))"

record agent_env =
  ax_py :: py_ctx
  ax_interp :: "string \<Rightarrow> script"
  ax_matches :: "string \<Rightarrow> (string, json) hmap \<Rightarrow> bool"
  ax_hook_interp :: "string \<Rightarrow> (string, json) hmap \<Rightarrow> script"
  ax_render :: render_env
  ax_floats :: float_ops
  ax_process_output :: "string \<Rightarrow> string option" \<comment> \<open>the database's answer\<close>
  ax_all_outputs :: "(string, string) hmap"
  ax_pinned :: "(string \<times> string) list" \<comment> \<open>empty when loading fails\<close>
  ax_message_id :: "string \<Rightarrow> string \<Rightarrow> string list \<Rightarrow> nat" \<comment> \<open>of a saved message, 0 when saving fails\<close>
  ax_spawn :: "process_start_request \<Rightarrow> string option" \<comment> \<open>the error\<close>
  ax_client_error :: "string \<Rightarrow> string option" \<comment> \<open>of a client for the model\<close>
  ax_item_json :: "work_item \<Rightarrow> json"
  ax_debug_str :: "string \<Rightarrow> string" \<comment> \<open>\<open>{:?}\<close>\<close>
  ax_rfc3339 :: "time \<Rightarrow> string"
  ax_created_at :: string

record agent_config =
  cf_model :: string
  cf_compact_at :: nat
  cf_compact_target :: nat
  cf_python_timeout_secs :: nat
  cf_render :: render_config
  cf_prices :: prices

record local_tokens =
  lt_input :: nat
  lt_output :: nat
  lt_cache_creation :: nat
  lt_cache_read :: nat

datatype agent_output =
    OSpawn process_start_request
  | OSaveMessage string string "string list"
  | OBroadcast broadcast_msg
  | OEvent nat harness_event \<comment> \<open>channel, event\<close>
  | OPin string string
  | OUnpin string
  | OKillProcess string
  | OStdin string string
  | OCloseStdin string
  | OWait nat \<comment> \<open>milliseconds at most\<close>
  | OChild string agent_permissions harness_state string "role_prefix option" nat
      \<comment> \<open>a child's loop: name, permissions, state, model, role prefix, channel\<close>
  | OSaveState harness_state

record agent_loop =
  al_name :: string
  al_permissions :: agent_permissions
  al_state :: harness_state
  al_config :: agent_config
  al_compaction :: compaction_manager
  al_deployment_context :: string
  al_role_prefix :: "role_prefix option"
  al_broadcasts :: bool
  al_turn_counter :: u32
  al_active_children :: u32
  al_max_children :: u32
  al_accumulator :: "token_accumulator option"
  al_usage_log :: usage_log
  al_local :: local_tokens
  al_last_usage :: "usage_summary option"
  al_registry :: agent_registry
  al_killed :: bool
  al_done_result :: "(string, json) hmap"
  al_next_channel :: nat
  al_out :: "agent_output list"

definition al_new ::
  "string \<Rightarrow> agent_permissions \<Rightarrow> harness_state \<Rightarrow> agent_config \<Rightarrow> string \<Rightarrow> role_prefix option \<Rightarrow> bool \<Rightarrow>
   token_accumulator option \<Rightarrow> usage_log \<Rightarrow> agent_registry \<Rightarrow> string option \<Rightarrow> nat \<Rightarrow> agent_loop" where
  "al_new nm perms s config deployment role_prefix broadcasts acc ul reg max_children_var channel =
     \<lparr>al_name = nm, al_permissions = perms, al_state = s, al_config = config, al_compaction = cm_new,
      al_deployment_context = deployment, al_role_prefix = role_prefix, al_broadcasts = broadcasts,
      al_turn_counter = 0, al_active_children = 0,
      al_max_children = (case Option.bind max_children_var (parse_uint 32) of Some n \<Rightarrow> of_nat n | None \<Rightarrow> 3),
      al_accumulator = acc, al_usage_log = ul,
      al_local = \<lparr>lt_input = 0, lt_output = 0, lt_cache_creation = 0, lt_cache_read = 0\<rparr>,
      al_last_usage = None, al_registry = reg, al_killed = False, al_done_result = [],
      al_next_channel = channel, al_out = []\<rparr>"

definition upd_state :: "(harness_state \<Rightarrow> harness_state) \<Rightarrow> agent_loop \<Rightarrow> agent_loop" where
  "upd_state f a = a\<lparr>al_state := f (al_state a)\<rparr>"

definition emit :: "agent_output list \<Rightarrow> agent_loop \<Rightarrow> agent_loop" where
  "emit os a = a\<lparr>al_out := al_out a @ os\<rparr>"

definition al_draw :: "agent_loop \<Rightarrow> agent_id \<times> agent_loop" where
  "al_draw a = (let (i, s) = draw_id (al_state a) in (i, a\<lparr>al_state := s\<rparr>))"

definition al_broadcast :: "broadcast_msg \<Rightarrow> agent_loop \<Rightarrow> agent_loop" where
  "al_broadcast msg a = (if al_broadcasts a then emit [OBroadcast msg] a else a)"

text \<open>An outbound message is saved and broadcast with the id the database gave it.\<close>

definition deliver_message :: "agent_env \<Rightarrow> outbound_message \<Rightarrow> agent_loop \<Rightarrow> agent_loop" where
  "deliver_message env m a =
     al_broadcast (BMessage (om_chat_id m) (om_content m) (om_attachments m)
         (int (ax_message_id env (om_chat_id m) (om_content m) (om_attachments m))) (ax_created_at env) (om_react_to m))
       (emit [OSaveMessage (om_chat_id m) (om_content m) (om_attachments m)] a)"

section \<open>The dashboard snapshot\<close>

definition tr :: "string \<Rightarrow> string" where
  "tr s = trunc s 200"

fun item_preview :: "work_item_type \<Rightarrow> string" where
  "item_preview (UserMessage chat_id user content r) = ''['' @ chat_id @ ''] '' @ tr content"
| "item_preview (TimerFired i every description) = tr description"
| "item_preview (ProcessCompleted pid exit_code output_preview d) =
     aid pid @ '' exit='' @ show_int exit_code @ '' '' @ (case output_preview of Some p \<Rightarrow> tr p | None \<Rightarrow> [])"
| "item_preview (ProcessFailed pid error p d) = aid pid @ '' '' @ tr error"
| "item_preview (ProcessTimeout pid) = aid pid"
| "item_preview (ChildAgentCompleted nm r t success summary c h) =
     nm @ '' ok='' @ show_bool success @ '' '' @ tr summary"
| "item_preview (AgentMessage sender content) = ''['' @ sender @ ''] '' @ tr content"
| "item_preview (ExternalEvent source event_type data) = source @ '':'' @ event_type"
| "item_preview (View paths) = join '', '' paths"
| "item_preview Compaction = []"
| "item_preview (AgentStartup c) = []"
| "item_preview (HookException nm error original) = nm @ '': '' @ tr error"

definition summarize_item :: "work_item \<Rightarrow> work_item_summary" where
  "summarize_item item =
     \<lparr>ws_id = aid (wi_id item), ws_priority = wi_priority item, ws_item_type = item_type_name (wi_type item),
      ws_preview = item_preview (wi_type item)\<rparr>"

fun summarize_entry :: "(time \<Rightarrow> string) \<Rightarrow> history_entry \<Rightarrow> history_summary" where
  "summarize_entry f (Execution i t code out e) =
     \<lparr>hs_id = aid i, hs_time = f t, hs_kind = ''Execution'', hs_code = tr code, hs_output = tr out, hs_is_error = e\<rparr>"
| "summarize_entry f (Summary i t d) =
     \<lparr>hs_id = aid i, hs_time = f t, hs_kind = ''Summary'', hs_code = [], hs_output = tr d, hs_is_error = False\<rparr>"
| "summarize_entry f (SystemAlert i t m) =
     \<lparr>hs_id = aid i, hs_time = f t, hs_kind = ''SystemAlert'', hs_code = [], hs_output = tr m, hs_is_error = False\<rparr>"

definition summarize_memory :: "agent_env \<Rightarrow> harness_state \<Rightarrow> string \<times> json \<Rightarrow> memory_entry" where
  "summarize_memory env s kv =
     (let (k, v) = kv;
          full = (case json_string (ax_render env) v of Some x \<Rightarrow> x | None \<Rightarrow> ''?'')
      in \<lparr>me_key = k, me_priority = (case map_of (memory_priorities s) k of Some p \<Rightarrow> p | None \<Rightarrow> 5),
          me_value = (if k \<in> set (sensitive_keys s) then ''<SENSITIVE, REDACTED>'' else trunc full 500),
          me_value_len = length full, me_sensitive = (k \<in> set (sensitive_keys s))\<rparr>)"

text \<open>By priority descending, then by key.\<close>

definition sort_memory :: "memory_entry list \<Rightarrow> memory_entry list" where
  "sort_memory ms = sort_key (\<lambda>m. - int (unat (me_priority m))) (sort_key me_key ms)"

fun summarize_schedule :: "timer_schedule \<Rightarrow> time \<times> bool" where
  "summarize_schedule (OneShot at) = (at, False)"
| "summarize_schedule (Recurring every next_fire) = (next_fire, True)"

definition summarize_timer :: "(time \<Rightarrow> string) \<Rightarrow> timer \<Rightarrow> timer_summary" where
  "summarize_timer f t =
     \<lparr>ts_id = aid (t_id t), ts_description = t_description t,
      ts_next_fire = f (fst (summarize_schedule (t_schedule t))), ts_recurring = snd (summarize_schedule (t_schedule t))\<rparr>"

fun debug_status :: "(string \<Rightarrow> string) \<Rightarrow> process_status \<Rightarrow> string" where
  "debug_status q Running = ''Running''"
| "debug_status q (Completed n) = ''Completed { exit_code: '' @ show_int n @ '' }''"
| "debug_status q (Failed e) = ''Failed { error: '' @ q e @ '' }''"

definition summarize_process :: "(string \<Rightarrow> string) \<Rightarrow> managed_process \<Rightarrow> process_summary" where
  "summarize_process q p =
     \<lparr>prs_id = aid (mp_id p), prs_cmd = mp_cmd p, prs_description = mp_description p,
      prs_status = debug_status q (mp_status p)\<rparr>"

definition build_snapshot :: "agent_env \<Rightarrow> string \<Rightarrow> agent_loop \<Rightarrow> agent_snapshot" where
  "build_snapshot env status a =
     (let s = al_state a; entries = eh_entries (event_history s); f = ax_rfc3339 env in
      \<lparr>as_name = al_name a, as_lineage = format_lineage (lineage (al_permissions a)), as_turn = al_turn_counter a,
       as_max_turns = max_turns (al_permissions a), as_status = status,
       as_queue = map summarize_item (wq_items (work_queue s)),
       as_history_len = length entries,
       as_history_tail = map (summarize_entry f) (drop (length entries - 10) entries),
       as_memory = sort_memory (map (summarize_memory env s) (memory s)),
       as_timers = map (summarize_timer f) (tm_list (timer_manager s)),
       as_processes = map (summarize_process (ax_debug_str env)) (pm_processes (process_manager s)),
       as_hooks = map (\<lambda>h. (hook_name h, hook_priority h, tr (match_expr h))) (hooks s),
       as_hook_stats = hook_stats s, as_last_usage = al_last_usage a, as_updated_at = f (px_now (ax_py env))\<rparr>)"

definition put_snapshot :: "agent_env \<Rightarrow> string \<Rightarrow> agent_loop \<Rightarrow> agent_loop" where
  "put_snapshot env status a = a\<lparr>al_registry := update_snapshot (build_snapshot env status a) (al_registry a)\<rparr>"

definition al_finish :: "agent_env \<Rightarrow> finish_reason \<Rightarrow> agent_loop \<Rightarrow> finish_reason \<times> agent_loop" where
  "al_finish env reason a = (reason, put_snapshot env (as_status_str reason) a)"

end
