(* ===== verification/Agent_Events.thy ===== *)
theory Agent_Events
  imports Agent_State
begin

text \<open>
  How events become work items (\<open>push_item\<close> and the hooks it runs, \<open>apply_event\<close>,
  \<open>check_timers\<close>, \<open>handle_hooks_command\<close>, \<open>flush_hook_telemetry\<close> of
  src/src/agent_loop.rs). A step that panics or never returns (a hook that hangs, a preview
  cut inside a character) is \<open>None\<close>.
\<close>

section \<open>Hooks\<close>

definition stats_zero :: hook_stats where
  "stats_zero = \<lparr>hk_fired = 0, hk_consumed = 0, hk_passed = 0, hk_raised = 0\<rparr>"

definition bump_stats :: "string \<Rightarrow> (hook_stats \<Rightarrow> hook_stats) \<Rightarrow> harness_state \<Rightarrow> harness_state" where
  "bump_stats nm f s =
     (let st = (case map_of (hook_stats s) nm of Some st \<Rightarrow> st | None \<Rightarrow> stats_zero)
      in s\<lparr>hook_stats := AList.update nm (f (st\<lparr>hk_fired := hk_fired st + 1\<rparr>)) (hook_stats s)\<rparr>)"

definition spawn_quietly :: "agent_env \<Rightarrow> process_start_request \<Rightarrow> agent_loop \<Rightarrow> agent_loop" where
  "spawn_quietly env r a = (if ax_spawn env r = None then emit [OSpawn r] a else a)"

definition apply_hook_commit :: "agent_env \<Rightarrow> hook_commit option \<Rightarrow> agent_loop \<Rightarrow> agent_loop" where
  "apply_hook_commit env commit a =
     (case commit of
        None \<Rightarrow> a
      | Some hc \<Rightarrow>
          let a = upd_state (\<lambda>s. s\<lparr>memory := hc_memory hc, memory_priorities := hc_memory_priorities hc,
                id_gen := hc_id_generator hc,
                process_manager := fold pm_add (into_processes (hc_process_manager hc)) (process_manager s)\<rparr>) a;
              a = fold (spawn_quietly env) (hc_process_starts hc) a
          in fold (deliver_message env) (hc_messages hc) a)"

text \<open>\<open>!hooks list\<close>, \<open>!hooks disable NAME\<close>, \<open>!hooks clear\<close>: the reply and the new state.\<close>

definition hooks_reply :: "string \<Rightarrow> harness_state \<Rightarrow> string \<times> harness_state" where
  "hooks_reply cmd s =
     (if cmd = ''list'' then
        ((if hooks s = [] then ''No hooks registered.''
          else join [nl] (map (\<lambda>h. ''['' @ show_int (hook_priority h) @ ''] '' @ hook_name h @ '' '' @ em_dash @ '' '' @
            match_expr h) (hooks s))), s)
      else case strip_prefix ''disable '' cmd of
        Some nm \<Rightarrow>
          let hs = filter (\<lambda>h. hook_name h \<noteq> nm) (hooks s)
          in ((if length hs < length (hooks s) then ''Disabled hook '' @ quoted nm @ ''.''
               else ''No hook named '' @ quoted nm @ ''.''), s\<lparr>hooks := hs\<rparr>)
      | None \<Rightarrow>
          if cmd = ''clear''
          then (''Cleared '' @ show_nat (length (hooks s)) @ '' hooks.'', s\<lparr>hooks := [], hook_stats := []\<rparr>)
          else (''Usage: !hooks list | !hooks disable NAME | !hooks clear'', s))"

definition handle_hooks_command :: "agent_env \<Rightarrow> string \<Rightarrow> string \<Rightarrow> agent_loop \<Rightarrow> agent_loop" where
  "handle_hooks_command env cmd chat_id a =
     (let (reply, s) = hooks_reply cmd (al_state a)
      in deliver_message env \<lparr>om_chat_id = chat_id, om_content = reply, om_attachments = [], om_react_to = None\<rparr>
           (a\<lparr>al_state := s\<rparr>))"

text \<open>The command in a user message that starts with \<open>!hooks\<close>, and its chat.\<close>

fun hooks_command :: "work_item_type \<Rightarrow> (string \<times> string) option" where
  "hooks_command (UserMessage chat_id user content r) =
     map_option (\<lambda>cmd. (trim cmd, chat_id)) (strip_prefix ''!hooks '' content)"
| "hooks_command _ = None"

definition al_push :: "work_item \<Rightarrow> agent_loop \<Rightarrow> agent_loop" where
  "al_push w = upd_state (push_queue w)"

definition run_item_hooks :: "agent_env \<Rightarrow> work_item \<Rightarrow> harness_state \<Rightarrow> (hook_outcome \<times> hook_commit option) option" where
  "run_item_hooks env item s = run_hooks (ax_py env) (ax_matches env) (ax_hook_interp env) (hooks s) item s"

definition hook_exception :: "agent_env \<Rightarrow> agent_id \<Rightarrow> work_item \<Rightarrow> string \<Rightarrow> string \<Rightarrow> work_item" where
  "hook_exception env i item nm error =
     \<lparr>wi_id = i, wi_priority = max (wi_priority item) 8, wi_time = px_now (ax_py env),
      wi_type = HookException nm error (ax_item_json env item), wi_attachments = []\<rparr>"

definition push_item :: "agent_env \<Rightarrow> work_item \<Rightarrow> agent_loop \<Rightarrow> agent_loop option" where
  "push_item env item a =
     (case hooks_command (wi_type item) of
        Some (cmd, chat_id) \<Rightarrow> Some (handle_hooks_command env cmd chat_id a)
      | None \<Rightarrow>
          if hooks (al_state a) = [] then Some (al_push item a)
          else case run_item_hooks env item (al_state a) of
            None \<Rightarrow> None
          | Some (NoMatch, commit) \<Rightarrow> Some (al_push item a)
          | Some (Consumed nm, commit) \<Rightarrow>
              Some (apply_hook_commit env commit
                (upd_state (bump_stats nm (\<lambda>st. st\<lparr>hk_consumed := hk_consumed st + 1\<rparr>)) a))
          | Some (Passed nm prio note, commit) \<Rightarrow>
              let a = upd_state (bump_stats nm (\<lambda>st. st\<lparr>hk_passed := hk_passed st + 1\<rparr>)) a;
                  item = item\<lparr>wi_priority := prio, wi_attachments := wi_attachments item @
                    (case note of Some x \<Rightarrow> [''hook:'' @ nm @ '':'' @ x] | None \<Rightarrow> [])\<rparr>
              in Some (al_push item (apply_hook_commit env commit a))
          | Some (HookFailed nm error, commit) \<Rightarrow>
              let a = upd_state (bump_stats nm (\<lambda>st. st\<lparr>hk_raised := hk_raised st + 1\<rparr>)) a;
                  (exc_id, a) = al_draw a
              in Some (apply_hook_commit env commit (al_push (hook_exception env exc_id item nm error) a)))"

text \<open>The summary of what hooks did since the last wake.\<close>

definition times_sign :: string where
  "times_sign = [CHR 0xC3, CHR 0x97]"

definition stats_line :: "string \<times> hook_stats \<Rightarrow> string" where
  "stats_line x =
     (let (nm, st) = x in join '', ''
       ([nm @ '': '' @ show_nat (hk_fired st) @ times_sign @ '' fired''] @
        (if hk_consumed st > 0 then [show_nat (hk_consumed st) @ '' consumed''] else []) @
        (if hk_passed st > 0 then [show_nat (hk_passed st) @ '' passed''] else []) @
        (if hk_raised st > 0 then [show_nat (hk_raised st) @ '' RAISED''] else [])))"

definition flush_hook_telemetry :: "agent_env \<Rightarrow> agent_loop \<Rightarrow> agent_loop" where
  "flush_hook_telemetry env a =
     (if list_all (\<lambda>(nm, st). hk_fired st = 0) (hook_stats (al_state a)) then a
      else let ls = sort (map stats_line (filter (\<lambda>(nm, st). hk_fired st > 0) (hook_stats (al_state a))));
               (i, a) = al_draw a
           in upd_state (\<lambda>s. s\<lparr>hook_stats := map (\<lambda>(nm, st). (nm, stats_zero)) (hook_stats s)\<rparr>)
               (upd_state (push_history (SystemAlert i (px_now (ax_py env))
                 (''Hook activity since last wake:'' @ nl # join [nl] ls))) a))"

section \<open>Events\<close>

text \<open>The last 500 bytes; a slice that starts inside a character panics. The outer option is
  the panic, the inner one the absent preview.\<close>

definition load_output_preview :: "agent_env \<Rightarrow> string \<Rightarrow> string option option" where
  "load_output_preview env pid =
     (case ax_process_output env pid of
        None \<Rightarrow> Some None
      | Some out \<Rightarrow>
          let trimmed = trim_end out in
          map_option (\<lambda>s. if s = [] then None else Some s)
            (if length trimmed > 500 then map_option (\<lambda>s. ''...'' @ s) (slice_from trimmed (length trimmed - 500))
             else Some trimmed))"

definition new_item :: "agent_env \<Rightarrow> agent_id \<Rightarrow> u8 \<Rightarrow> work_item_type \<Rightarrow> string list \<Rightarrow> work_item" where
  "new_item env i prio ty att =
     \<lparr>wi_id = i, wi_priority = prio, wi_time = px_now (ax_py env), wi_type = ty, wi_attachments = att\<rparr>"

text \<open>Draw an id and push an item under it, as every event does.\<close>

definition push_new :: "agent_env \<Rightarrow> u8 \<Rightarrow> work_item_type \<Rightarrow> string list \<Rightarrow> agent_loop \<Rightarrow> agent_loop option" where
  "push_new env prio ty att a = (let (i, a) = al_draw a in push_item env (new_item env i prio ty att) a)"

definition find_process :: "agent_id \<Rightarrow> agent_loop \<Rightarrow> managed_process option" where
  "find_process pid a = pm_get pid (process_manager (al_state a))"

definition set_process_status :: "agent_id \<Rightarrow> process_status \<Rightarrow> agent_loop \<Rightarrow> agent_loop" where
  "set_process_status pid st =
     upd_state (\<lambda>s. s\<lparr>process_manager := pm_get_mut pid (\<lambda>p. p\<lparr>mp_status := st\<rparr>) (process_manager s)\<rparr>)"

fun apply_process_event :: "agent_env \<Rightarrow> process_event \<Rightarrow> agent_loop \<Rightarrow> agent_loop option" where
  "apply_process_event env (EvCompleted pid exit_code) a =
     (let (prio, description) = (case find_process pid a of
            Some p \<Rightarrow> (mp_success_prio p, mp_description p) | None \<Rightarrow> (5, []));
          a = set_process_status pid (Completed exit_code) a
      in case load_output_preview env (aid pid) of
        None \<Rightarrow> None
      | Some preview \<Rightarrow> push_new env prio (ProcessCompleted pid exit_code preview description) [] a)"
| "apply_process_event env (EvFailed pid error) a =
     (let (prio, description) = (case find_process pid a of
            Some p \<Rightarrow> (mp_fail_prio p, mp_description p) | None \<Rightarrow> (7, []));
          a = set_process_status pid (Failed error) a
      in case load_output_preview env (aid pid) of
        None \<Rightarrow> None
      | Some preview \<Rightarrow> push_new env prio (ProcessFailed pid error preview description) [] a)"
| "apply_process_event env (EvTimeout pid) a =
     push_new env (case find_process pid a of Some p \<Rightarrow> mp_fail_prio p | None \<Rightarrow> 7) (ProcessTimeout pid) [] a"

definition add_child_tokens :: "nat \<Rightarrow> nat \<Rightarrow> nat \<Rightarrow> nat \<Rightarrow> token_accumulator \<Rightarrow> token_accumulator" where
  "add_child_tokens i out cc crd acc =
     acc\<lparr>ta_input_tokens := ta_input_tokens acc + i, ta_output_tokens := ta_output_tokens acc + out,
         ta_cache_creation_tokens := ta_cache_creation_tokens acc + cc,
         ta_cache_read_tokens := ta_cache_read_tokens acc + crd\<rparr>"

text \<open>The cost as the agent loop sums it: input, output, cache creation, cache read.\<close>

definition turn_cost :: "float_ops \<Rightarrow> prices \<Rightarrow> nat \<Rightarrow> nat \<Rightarrow> nat \<Rightarrow> nat \<Rightarrow> f64" where
  "turn_cost fl pr i out cc crd =
     f_div fl
       (f_add fl (f_add fl (f_add fl (f_mul fl (f_nat fl i) (cost_per_m_input pr))
                                     (f_mul fl (f_nat fl out) (cost_per_m_output pr)))
                           (f_mul fl (f_nat fl cc) (cost_per_m_cache_write pr)))
                 (f_mul fl (f_nat fl crd) (cost_per_m_cache_read pr)))
       (f_dec fl ''1000000.0'')"

definition child_cache_hit_pct :: "nat \<Rightarrow> nat \<Rightarrow> u8" where
  "child_cache_hit_pct i crd = (let total_in = i + crd in if total_in > 0 then of_nat (crd * 100 div total_in) else 0)"

fun apply_event :: "agent_env \<Rightarrow> harness_event \<Rightarrow> agent_loop \<Rightarrow> agent_loop option" where
  "apply_event env (HEUserMessage chat_id user content att message_ref) a =
     push_new env 9 (UserMessage chat_id user content message_ref) att a"
| "apply_event env (HEProcess pe) a = apply_process_event env pe a"
| "apply_event env (HEChildCompleted child_name result turns_used success summary prio i out cc crd) a =
     (let (wid, a) = al_draw (a\<lparr>al_active_children := (if al_active_children a = 0 then 0 else al_active_children a - 1)\<rparr>);
          a = a\<lparr>al_accumulator := map_option (add_child_tokens i out cc crd) (al_accumulator a)\<rparr>;
          cost = turn_cost (ax_floats env) (cf_prices (al_config a)) i out cc crd
      in push_item env (new_item env wid prio
           (ChildAgentCompleted child_name result turns_used success summary cost (child_cache_hit_pct i crd)) []) a)"
| "apply_event env (HEAgentMessage sender content prio) a = push_new env prio (AgentMessage sender content) [] a"
| "apply_event env (HEExternalEvent source event_type data prio) a =
     push_new env prio (ExternalEvent source event_type data) [] a"
| "apply_event env HEKillSignal a = Some (a\<lparr>al_killed := True\<rparr>)"

definition drain_events :: "agent_env \<Rightarrow> harness_event list \<Rightarrow> agent_loop \<Rightarrow> agent_loop option" where
  "drain_events env evs a = fold_opt (apply_event env) evs a"

definition check_timers :: "agent_env \<Rightarrow> agent_loop \<Rightarrow> agent_loop option" where
  "check_timers env a =
     (let (fired, g, tm) = check_and_fire (px_now (ax_py env)) (id_gen (al_state a)) (timer_manager (al_state a))
      in fold_opt (push_item env) fired (upd_state (\<lambda>s. s\<lparr>id_gen := g, timer_manager := tm\<rparr>) a))"

section \<open>Lemmas\<close>

subsection \<open>What a step leaves alone\<close>

lemma emit_simps [simp]:
  "al_state (emit os a) = al_state a" "al_registry (emit os a) = al_registry a" "al_killed (emit os a) = al_killed a"
  "al_out (emit os a) = al_out a @ os" "al_permissions (emit os a) = al_permissions a"
  "al_compaction (emit os a) = al_compaction a" "al_turn_counter (emit os a) = al_turn_counter a"
  by (simp_all add: emit_def)

lemma deliver_message_state [simp]: "al_state (deliver_message env m a) = al_state a"
  by (simp add: deliver_message_def al_broadcast_def)

lemma fold_deliver_state [simp]: "al_state (fold (deliver_message env) ms a) = al_state a"
  by (induction ms arbitrary: a) auto

lemma fold_spawn_state [simp]: "al_state (fold (spawn_quietly env) rs a) = al_state a"
  by (induction rs arbitrary: a) (auto simp: spawn_quietly_def)

lemma upd_state_state [simp]: "al_state (upd_state f a) = f (al_state a)"
  by (simp add: upd_state_def)

lemma al_push_state [simp]: "al_state (al_push w a) = push_queue w (al_state a)"
  by (simp add: al_push_def)

lemma al_draw_state: "al_draw a = (i, a') \<Longrightarrow> al_state a' = (al_state a)\<lparr>id_gen := snd (next_id (id_gen (al_state a)))\<rparr> \<and>
    i = fst (next_id (id_gen (al_state a)))"
  by (auto simp: al_draw_def draw_id_def split: prod.splits)

lemma hook_commit_state:
  "al_state (apply_hook_commit env (Some hc) a) = (al_state a)\<lparr>memory := hc_memory hc,
     memory_priorities := hc_memory_priorities hc, id_gen := hc_id_generator hc,
     process_manager := fold pm_add (into_processes (hc_process_manager hc)) (process_manager (al_state a))\<rparr>"
  by (simp add: apply_hook_commit_def)

lemma hook_commit_none [simp]: "apply_hook_commit env None a = a"
  by (simp add: apply_hook_commit_def)

lemma hook_commit_queue [simp]:
  "work_queue (al_state (apply_hook_commit env hc a)) = work_queue (al_state a)"
  "hooks (al_state (apply_hook_commit env hc a)) = hooks (al_state a)"
  "event_history (al_state (apply_hook_commit env hc a)) = event_history (al_state a)"
  "hook_stats (al_state (apply_hook_commit env hc a)) = hook_stats (al_state a)"
  "timer_manager (al_state (apply_hook_commit env hc a)) = timer_manager (al_state a)"
  by (cases hc; simp add: hook_commit_state)+

lemma bump_stats_queue [simp]:
  "work_queue (bump_stats nm f s) = work_queue s" "hooks (bump_stats nm f s) = hooks s"
  "event_history (bump_stats nm f s) = event_history s" "id_gen (bump_stats nm f s) = id_gen s"
  "timer_manager (bump_stats nm f s) = timer_manager s"
  by (simp_all add: bump_stats_def Let_def)

lemma push_queue_simps [simp]:
  "work_queue (push_queue w s) = wq_push w (work_queue s)" "hooks (push_queue w s) = hooks s"
  "event_history (push_queue w s) = event_history s" "hook_stats (push_queue w s) = hook_stats s"
  "id_gen (push_queue w s) = id_gen s" "timer_manager (push_queue w s) = timer_manager s"
  by (simp_all add: push_queue_def)

lemma hooks_reply_queue [simp]:
  "work_queue (snd (hooks_reply cmd s)) = work_queue s" "event_history (snd (hooks_reply cmd s)) = event_history s"
  "id_gen (snd (hooks_reply cmd s)) = id_gen s" "timer_manager (snd (hooks_reply cmd s)) = timer_manager s"
  by (simp_all add: hooks_reply_def Let_def split: option.splits)

lemma wq_push_mset: "mset (wq_items (wq_push w q)) = add_mset w (mset (wq_items q))"
  by (simp add: wq_push_def Let_def mset_insert_at)

subsection \<open>The order of the queue and of the hooks\<close>

text \<open>The part of an agent's state that rendering, hook matching and storing rely on.\<close>

definition in_order :: "harness_state \<Rightarrow> bool" where
  "in_order s \<longleftrightarrow> queue_sorted (work_queue s) \<and> hooks_ordered (hooks s) \<and> whole_queue (work_queue s) \<and>
     whole_timers (timer_manager s)"

lemma hooks_reply_in_order: "in_order s \<Longrightarrow> in_order (snd (hooks_reply cmd s))"
  by (auto simp: in_order_def hooks_reply_def Let_def hooks_ordered_filter hooks_ordered_def [of "[]"] split: option.splits)

lemma in_order_cong:
  "\<lbrakk>in_order s; work_queue s' = work_queue s; hooks s' = hooks s; timer_manager s' = timer_manager s\<rbrakk> \<Longrightarrow> in_order s'"
  by (simp add: in_order_def)

definition whole_item :: "work_item \<Rightarrow> bool" where
  "whole_item w \<longleftrightarrow> stored_type (wi_type w) = wi_type w"

lemma whole_item_simps [simp]:
  "whole_item (hook_exception env i w nm e)" "whole_item (new_item env i prio ty att) \<longleftrightarrow> stored_type ty = ty"
  "whole_item (w\<lparr>wi_priority := prio, wi_attachments := att\<rparr>) \<longleftrightarrow> whole_item w"
  "whole_item (w\<lparr>wi_priority := prio\<rparr>) \<longleftrightarrow> whole_item w"
  by (simp_all add: whole_item_def hook_exception_def new_item_def)

lemma in_order_push: "\<lbrakk>in_order s; whole_item w\<rbrakk> \<Longrightarrow> in_order (push_queue w s)"
  by (simp add: in_order_def queue_sorted_push whole_queue_push whole_item_def)

lemma in_order_commit [simp]: "in_order (al_state (apply_hook_commit env hc a)) \<longleftrightarrow> in_order (al_state a)"
  by (simp add: in_order_def)

lemma in_order_bump [simp]: "in_order (bump_stats nm f s) \<longleftrightarrow> in_order s"
  by (simp add: in_order_def)

lemma in_order_draw: "al_draw a = (i, a') \<Longrightarrow> in_order (al_state a') \<longleftrightarrow> in_order (al_state a)"
  using al_draw_state [of a i a'] by (simp add: in_order_def)

lemma push_item_in_order:
  "\<lbrakk>push_item env item a = Some a'; in_order (al_state a); whole_item item\<rbrakk> \<Longrightarrow> in_order (al_state a')"
  using hooks_reply_in_order [of "al_state a"]
  by (auto simp: push_item_def handle_hooks_command_def split_beta Let_def in_order_push in_order_draw prod_eq_iff
      split: option.splits if_splits prod.splits hook_outcome.splits)

lemma push_new_in_order:
  "\<lbrakk>push_new env prio ty att a = Some a'; in_order (al_state a); stored_type ty = ty\<rbrakk> \<Longrightarrow> in_order (al_state a')"
  by (auto simp: push_new_def in_order_draw dest: push_item_in_order split: prod.splits)

lemma set_process_status_in_order [simp]: "in_order (al_state (set_process_status pid st a)) \<longleftrightarrow> in_order (al_state a)"
  by (simp add: set_process_status_def in_order_def)

lemma apply_process_event_in_order:
  "\<lbrakk>apply_process_event env pe a = Some a'; in_order (al_state a)\<rbrakk> \<Longrightarrow> in_order (al_state a')"
  by (cases pe) (auto simp: Let_def dest: push_new_in_order split: option.splits prod.splits)

lemma apply_event_in_order: "\<lbrakk>apply_event env ev a = Some a'; in_order (al_state a)\<rbrakk> \<Longrightarrow> in_order (al_state a')"
proof (cases ev)
  case (HEChildCompleted child_name result turns_used success summary prio i out cc cr')
  assume "apply_event env ev a = Some a'" "in_order (al_state a)"
  with HEChildCompleted show ?thesis
    using in_order_draw [of "a\<lparr>al_active_children := (if al_active_children a = 0 then 0 else al_active_children a - 1)\<rparr>"]
    by (auto simp: Let_def dest!: push_item_in_order split: prod.splits if_splits)
qed (auto dest: push_new_in_order apply_process_event_in_order)

lemma drain_events_in_order: "\<lbrakk>drain_events env evs a = Some a'; in_order (al_state a)\<rbrakk> \<Longrightarrow> in_order (al_state a')"
  unfolding drain_events_def
  by (erule (1) fold_opt_invariant [where P = "\<lambda>a. in_order (al_state a)"]) (rule apply_event_in_order)

lemma push_all_in_order:
  "\<lbrakk>fold_opt (push_item env) ws b = Some a'; in_order (al_state b); \<forall>w \<in> set ws. whole_item w\<rbrakk> \<Longrightarrow> in_order (al_state a')"
  by (induction ws arbitrary: b) (auto dest: push_item_in_order split: option.splits)

lemma check_timers_in_order:
  assumes "check_timers env a = Some a'" "in_order (al_state a)"
  shows "in_order (al_state a')"
proof -
  obtain fired g m where c: "check_and_fire (px_now (ax_py env)) (id_gen (al_state a)) (timer_manager (al_state a)) = (fired, g, m)"
    by (cases "check_and_fire (px_now (ax_py env)) (id_gen (al_state a)) (timer_manager (al_state a))") auto
  let ?b = "upd_state (\<lambda>s. s\<lparr>id_gen := g, timer_manager := m\<rparr>) a"
  have f: "fold_opt (push_item env) fired ?b = Some a'"
    using assms(1) by (simp add: check_timers_def c)
  have w: "whole_timers m" "\<forall>w \<in> set fired. whole_item w"
    using whole_timers_fire [OF c] assms(2) by (simp_all add: in_order_def whole_item_def)
  from w(1) have "in_order (al_state ?b)" using assms(2) by (simp add: in_order_def)
  then show ?thesis by (rule push_all_in_order [OF f _ w(2)])
qed

lemma flush_hook_telemetry_in_order: "in_order (al_state a) \<Longrightarrow> in_order (al_state (flush_hook_telemetry env a))"
  by (auto simp: flush_hook_telemetry_def Let_def in_order_def push_history_def dest: al_draw_state split: prod.splits)

section \<open>Properties\<close>

definition sample_agent_env :: agent_env where
  "sample_agent_env = \<lparr>ax_py = sample_ctx, ax_interp = (\<lambda>code. End ReturnsNone None), ax_matches = (\<lambda>x e. True),
     ax_hook_interp = (\<lambda>code e. Raise ''ValueError''), ax_render = sample_env, ax_floats = sample_floats,
     ax_process_output = (\<lambda>pid. Some (replicate 501 (CHR 0xA9))), ax_all_outputs = [], ax_pinned = [],
     ax_message_id = (\<lambda>chat x att. 1), ax_spawn = (\<lambda>r. None), ax_client_error = (\<lambda>m. None),
     ax_item_json = (\<lambda>w. JNull), ax_debug_str = (\<lambda>s. s), ax_rfc3339 = (\<lambda>t. []), ax_created_at = []\<rparr>"

definition sample_config :: agent_config where
  "sample_config = \<lparr>cf_model = ''m'', cf_compact_at = 1000, cf_compact_target = 500, cf_python_timeout_secs = 5,
     cf_render = render_config_default None None,
     cf_prices = \<lparr>cost_per_m_input = 0, cost_per_m_output = 0, cost_per_m_cache_read = 0, cost_per_m_cache_write = 0\<rparr>\<rparr>"

definition sample_permissions :: agent_permissions where
  "sample_permissions = \<lparr>can_compact = True, max_turns = None, child_depth_remaining = 1, agent_name = Root, lineage = [''root'']\<rparr>"

definition sample_agent :: agent_loop where
  "sample_agent = al_new ''root'' sample_permissions (sample_state\<lparr>hooks := [sample_hook]\<rparr>) sample_config [] None True None
     (ul_new 10) ar_new None 1"

lemma sample_hook_fails:
  "run_item_hooks sample_agent_env (sample_item 0 5 0) (al_state sample_agent) =
     Some (HookFailed ''h'' ''ValueError'', Some (commit_of (hook_txn (al_state sample_agent))))"
  by (simp add: run_item_hooks_def run_hooks_def find_hook_def hook_result_def sample_agent_env_def sample_agent_def
      al_new_def sample_hook_def hook_program_def wrap_body_def nul_def lines_def chomp_def)



text \<open>The id of a hook exception is not spent. The exception's id is drawn from the agent's
  generator, which the hook's commit then replaces by the hook's copy, taken before. When the
  hook drew no id itself, the next id the agent draws is the exception's own.\<close>

theorem hook_exception_id_reused:
  assumes "push_item env item a = Some a'" "hooks_command (wi_type item) = None" "hooks (al_state a) \<noteq> []"
    and "run_item_hooks env item (al_state a) = Some (HookFailed nm e, Some hc)"
    and "hc_id_generator hc = id_gen (al_state a)"
  shows "\<exists>w \<in> set (wq_items (work_queue (al_state a'))).
     wi_type w = HookException nm e (ax_item_json env item) \<and> fst (draw_id (al_state a')) = wi_id w"
proof -
  let ?b = "upd_state (bump_stats nm (\<lambda>st. st\<lparr>hk_raised := hk_raised st + 1\<rparr>)) a"
  obtain i b' where draw: "al_draw ?b = (i, b')" by fastforce
  let ?w = "hook_exception env i item nm e"
  have a': "a' = apply_hook_commit env (Some hc) (al_push ?w b')"
    using assms draw by (simp add: push_item_def)
  have "mset (wq_items (work_queue (al_state a'))) = add_mset ?w (mset (wq_items (work_queue (al_state b'))))"
    by (simp add: a' wq_push_mset)
  then have "?w \<in> set (wq_items (work_queue (al_state a')))"
    by (metis set_mset_mset union_single_eq_member)
  moreover have "fst (draw_id (al_state a')) = i"
    using al_draw_state [OF draw] assms(5)
    by (simp add: a' hook_commit_state draw_id_def split_beta)
  ultimately show ?thesis by (intro bexI [of _ ?w]) (simp_all add: hook_exception_def)
qed

theorem hook_exception_id_reused_witness:
  "\<exists>a' w. push_item sample_agent_env (sample_item 0 5 0) sample_agent = Some a' \<and>
     w \<in> set (wq_items (work_queue (al_state a'))) \<and> fst (draw_id (al_state a')) = wi_id w"
proof -
  have h: "hooks_command (wi_type (sample_item 0 5 0)) = None" "hooks (al_state sample_agent) \<noteq> []"
    by (simp_all add: sample_item_def sample_agent_def al_new_def)
  then obtain a' where p: "push_item sample_agent_env (sample_item 0 5 0) sample_agent = Some a'"
    using sample_hook_fails by (fastforce simp: push_item_def split: prod.splits)
  have "hc_id_generator (commit_of (hook_txn (al_state sample_agent))) = id_gen (al_state sample_agent)"
    by (simp add: commit_of_def hook_txn_def)
  from hook_exception_id_reused [OF p h sample_hook_fails this] p show ?thesis by blast
qed

text \<open>The preview of a process's output is cut at a fixed byte, 500 before the end. Recording
  a completion or a failure panics exactly when the output, trailing white space aside, is longer than that and the
  cut falls inside a character.\<close>

theorem preview_panics_iff:
  "load_output_preview env pid = None \<longleftrightarrow>
     (\<exists>out. ax_process_output env pid = Some out \<and> length (trim_end out) > 500 \<and>
        \<not> is_char_boundary (trim_end out) (length (trim_end out) - 500))"
  by (auto simp: load_output_preview_def slice_from_def Let_def split: option.splits)

end
