(* ===== verification/Side_Effects.thy ===== *)
theory Side_Effects
  imports Agent_Events
begin

text \<open>
  Applying what a turn collected (\<open>apply_side_effects\<close> of src/src/agent_loop.rs), phase by
  phase in the order of the code: recipients are checked, the state is committed, processes
  are spawned, children killed and forked, messages delivered, memory pinned, compaction
  requested, extended and run. A channel is its number; \<open>None\<close> is a panic or a step that
  does not return.
\<close>

section \<open>Validation and commit\<close>

definition check_recipients :: "agent_registry \<Rightarrow> agent_message_request list \<Rightarrow> string option" where
  "check_recipients r ms =
     map_option (\<lambda>m. ''message_agent failed: agent '' @ quoted (am_recipient m) @ '' not found'')
       (List.find (\<lambda>m. \<not> ar_exists (am_recipient m) r) ms)"

text \<open>The statistics of hooks that are gone are dropped.\<close>

definition commit_state :: "harness_state \<Rightarrow> agent_loop \<Rightarrow> agent_loop" where
  "commit_state committed a =
     (let gone = filter (\<lambda>nm. nm \<notin> set (map hook_name (hooks committed))) (map hook_name (hooks (al_state a)))
      in a\<lparr>al_state := committed\<lparr>hook_stats := fold AList.delete gone (hook_stats committed)\<rparr>\<rparr>)"

section \<open>Processes and children killed\<close>

definition start_process :: "agent_env \<Rightarrow> process_start_request \<Rightarrow> nat list \<times> agent_loop \<Rightarrow> (nat list \<times> agent_loop) option" where
  "start_process env r wa =
     (let (waits, a) = wa in
      case ax_spawn env r of
        None \<Rightarrow> Some (waits @ (case ps_block_for_ms r of Some ms \<Rightarrow> [ms] | None \<Rightarrow> []), emit [OSpawn r] a)
      | Some e \<Rightarrow>
          let error = ''spawn failed: '' @ e; a = set_process_status (ps_id r) (Failed error) a
          in map_option (Pair waits) (push_new env (ps_fail_prio r) (ProcessFailed (ps_id r) error None (ps_description r)) [] a))"

definition send_events :: "(nat \<times> harness_event) list \<Rightarrow> agent_loop \<Rightarrow> agent_loop" where
  "send_events = (\<lambda>es. emit (map (\<lambda>(ch, ev). OEvent ch ev) es))"

definition kill_child_agent :: "string \<Rightarrow> agent_loop \<Rightarrow> agent_loop" where
  "kill_child_agent nm a = send_events (snd (send_to nm HEKillSignal (al_registry a))) a"

definition push_view :: "agent_env \<Rightarrow> string list \<Rightarrow> agent_loop \<Rightarrow> agent_loop option" where
  "push_view env paths a = (if paths = [] then Some a else push_new env 10 (View paths) [] a)"

section \<open>Forks\<close>

definition fork_failure :: "string \<Rightarrow> string \<Rightarrow> work_item_type" where
  "fork_failure nm summary = ChildAgentCompleted nm [] 0 False summary 0 0"

definition clear_inherited :: "harness_state \<Rightarrow> harness_state" where
  "clear_inherited s = s\<lparr>work_queue := wq_new, timer_manager := tm_new, process_manager := pm_new,
     last_input_tokens := 0, last_total_input_tokens := 0\<rparr>"

definition fresh_history :: "time \<Rightarrow> string \<Rightarrow> string \<Rightarrow> harness_state \<Rightarrow> harness_state" where
  "fresh_history now parent task s =
     (let (i, s) = draw_id (s\<lparr>event_history := eh_new\<rparr>)
      in push_history (SystemAlert i now
           (''Forked from '' @ quoted parent @ '' with fresh history. Task: '' @ task)) s)"

text \<open>The state a child starts with: the parent's without queue, timers and processes, the task
  as a message and the attached files as a view.\<close>

definition child_state :: "agent_env \<Rightarrow> string \<Rightarrow> fork_child \<Rightarrow> harness_state \<Rightarrow> harness_state" where
  "child_state env parent x s =
     (let s = clear_inherited s;
          s = (if fc_inherit_history x then s else fresh_history (px_now (ax_py env)) parent (fc_task x) s);
          (i, s) = draw_id s;
          s = push_queue (new_item env i 9 (UserMessage ''child-agent'' parent (fc_task x) None) (fc_attach x)) s
      in if fc_attach x = [] then s
         else (let (i, s) = draw_id s in push_queue (new_item env i 10 (View (fc_attach x)) []) s))"

definition child_permissions :: "agent_loop \<Rightarrow> fork_child \<Rightarrow> agent_permissions" where
  "child_permissions a x =
     \<lparr>can_compact = fc_can_compact x, max_turns = fc_max_turns x,
      child_depth_remaining = (let d = child_depth_remaining (al_permissions a) in if d = 0 then 0 else d - 1),
      agent_name = Child (fc_name x), lineage = lineage (al_permissions a) @ [fc_name x]\<rparr>"

definition child_role_prefix :: "fork_child \<Rightarrow> role_prefix option" where
  "child_role_prefix x =
     (if fc_prefix_context x \<noteq> None \<or> fc_prefix_attach x \<noteq> []
      then Some \<lparr>rp_context = (case fc_prefix_context x of Some c \<Rightarrow> c | None \<Rightarrow> []), rp_attach = fc_prefix_attach x\<rparr>
      else None)"

definition al_deregister :: "string \<Rightarrow> agent_loop \<Rightarrow> agent_loop" where
  "al_deregister nm a = a\<lparr>al_registry := ar_deregister nm (al_registry a)\<rparr>"

definition child_model :: "agent_config \<Rightarrow> fork_child \<Rightarrow> string" where
  "child_model cf x = (case fc_model x of Some m \<Rightarrow> m | None \<Rightarrow> cf_model cf)"

text \<open>One child: over the limit it is deregistered and its channel stays in the list; otherwise
  the next channel is its own.\<close>

definition spawn_child :: "agent_env \<Rightarrow> fork_child \<Rightarrow> nat list \<times> agent_loop \<Rightarrow> (nat list \<times> agent_loop) option" where
  "spawn_child env x ca =
     (let (channels, a) = ca in
      if al_active_children a \<ge> al_max_children a then
        map_option (Pair channels) (push_new env 7 (fork_failure (fc_name x)
          (''Could not spawn: max '' @ show_nat (unat (al_max_children a)) @ '' concurrent children reached'')) []
          (al_deregister (fc_name x) a))
      else case channels of
        [] \<Rightarrow> None
      | channel # channels \<Rightarrow>
          let a = a\<lparr>al_active_children := al_active_children a + 1\<rparr>;
              model = child_model (al_config a) x;
              parent = name_str (agent_name (al_permissions a));
              cs = child_state env parent x (al_state a)
          in case ax_client_error env model of
            Some e \<Rightarrow>
              map_option (Pair channels) (push_new env 7 (fork_failure (fc_name x) (''Failed to create API client: '' @ e)) []
                (al_deregister (fc_name x) (a\<lparr>al_active_children := al_active_children a - 1\<rparr>)))
          | None \<Rightarrow> Some (channels, emit [OChild (fc_name x) (child_permissions a x) cs model (child_role_prefix x) channel] a))"

definition fork_alert :: "agent_env \<Rightarrow> fork_child list \<Rightarrow> agent_loop \<Rightarrow> agent_loop" where
  "fork_alert env xs a =
     (let (i, a) = al_draw a
      in upd_state (push_history (SystemAlert i (px_now (ax_py env))
           (''Forked '' @ show_nat (length xs) @ '' children: '' @ join '', '' (map fc_name xs)))) a)"

definition fork_request :: "agent_env \<Rightarrow> fork_child list \<Rightarrow> agent_loop \<Rightarrow> agent_loop option" where
  "fork_request env xs a =
     (let channels = [al_next_channel a ..< al_next_channel a + length xs];
          a = a\<lparr>al_next_channel := al_next_channel a + length xs\<rparr>
      in case register_batch (zip (map fc_name xs) channels) (al_registry a) of
        (Inl e, reg) \<Rightarrow> push_new env 7 (fork_failure ''fork-failed'' (''Fork failed: '' @ e)) [] a
      | (Inr u, reg) \<Rightarrow> map_option snd (fold_opt (spawn_child env) xs (channels, fork_alert env xs (a\<lparr>al_registry := reg\<rparr>))))"

section \<open>Messages, pins, compaction\<close>

definition send_agent_message :: "agent_message_request \<Rightarrow> agent_loop \<Rightarrow> agent_loop" where
  "send_agent_message m a =
     send_events (snd (send_to (am_recipient m)
       (HEAgentMessage (name_str (agent_name (al_permissions a))) (am_content m) (am_priority m)) (al_registry a))) a"

definition request_compaction_effect :: "agent_env \<Rightarrow> bool \<Rightarrow> agent_loop \<Rightarrow> agent_loop" where
  "request_compaction_effect env requested a =
     (if requested \<and> can_compact (al_permissions a) \<and> \<not> cm_active (al_compaction a)
      then (let (cm, s) = cm_trigger (px_now (ax_py env)) (cf_compact_target (al_config a)) (al_state a) (al_compaction a)
            in a\<lparr>al_compaction := cm, al_state := s\<rparr>)
      else a)"

definition append_script :: "string list \<Rightarrow> agent_loop \<Rightarrow> agent_loop" where
  "append_script xs a = a\<lparr>al_compaction := (al_compaction a)\<lparr>cm_script := cm_script (al_compaction a) @ concat xs\<rparr>\<rparr>"

definition compaction_ctx :: "py_ctx \<Rightarrow> py_ctx" where
  "compaction_ctx c = c\<lparr>px_is_compaction := True, px_process_outputs := [], px_child_depth := 0, px_pinned := [],
     px_subscribers := None, px_hook_mode := False\<rparr>"

definition is_compaction_item :: "work_item \<Rightarrow> bool" where
  "is_compaction_item w \<longleftrightarrow> wi_type w = Compaction"

definition remove_items :: "agent_id list \<Rightarrow> work_queue \<Rightarrow> work_queue" where
  "remove_items is q = fold (\<lambda>i q. snd (wq_remove i q)) is q"

definition run_compaction :: "agent_env \<Rightarrow> bool \<Rightarrow> agent_loop \<Rightarrow> agent_loop option" where
  "run_compaction env called a =
     (if called \<and> cm_active (al_compaction a) then
        (case execute_with_timeout (cf_python_timeout_secs (al_config a)) (compaction_ctx (ax_py env)) (ax_interp env)
                (cm_script (al_compaction a)) (al_state a) of
           None \<Rightarrow> None
         | Some result \<Rightarrow>
             if er_is_error result then
               (let (i, a) = al_draw a
                in Some (upd_state (push_history (Execution i (px_now (ax_py env)) ''compact()''
                     (''[ERROR]'' @ nl # er_error_text result) True)) a))
             else (case er_committed result of
               None \<Rightarrow> None
             | Some c \<Rightarrow> Some (a\<lparr>al_compaction := cm_complete (al_compaction a),
                 al_state := (al_state a)\<lparr>event_history := event_history c, id_gen := id_gen c,
                   work_queue := remove_items (map wi_id (filter is_compaction_item (wq_items (work_queue (al_state a)))))
                     (work_queue (al_state a))\<rparr>\<rparr>)))
      else Some a)"

section \<open>The whole\<close>

record deferred_ops =
  do_block_for_waiters :: "nat list"
  do_process_kills :: "string list"
  do_stdin_writes :: "(string \<times> string) list"
  do_stdin_closes :: "string list"

definition apply_committed :: "agent_env \<Rightarrow> external_effects \<Rightarrow> harness_state \<Rightarrow> agent_loop \<Rightarrow> (deferred_ops \<times> agent_loop) option" where
  "apply_committed env ef committed a =
     (case fold_opt (start_process env) (ef_process_starts ef) ([], commit_state committed a) of
        None \<Rightarrow> None
      | Some (waits, a) \<Rightarrow>
     (case push_view env (ef_view_paths ef) (fold kill_child_agent (ef_child_kills ef) a) of
        None \<Rightarrow> None
      | Some a \<Rightarrow>
     (case fold_opt (fork_request env) (ef_fork_requests ef) a of
        None \<Rightarrow> None
      | Some a \<Rightarrow>
          let a = fold send_agent_message (ef_agent_messages ef) a;
              a = fold (deliver_message env) (ef_messages ef) a;
              a = emit (map (\<lambda>(k, v). OPin k v) (ef_memory_pins ef) @ map OUnpin (ef_memory_unpins ef)) a;
              a = append_script (ef_compaction_script_appends ef)
                    (request_compaction_effect env (ef_compaction_requested ef) a)
          in map_option (Pair \<lparr>do_block_for_waiters = waits, do_process_kills = ef_process_kills ef,
                do_stdin_writes = ef_stdin_writes ef, do_stdin_closes = ef_stdin_closes ef\<rparr>)
               (run_compaction env (ef_compact_called ef) a))))"

definition apply_side_effects ::
  "agent_env \<Rightarrow> external_effects \<Rightarrow> harness_state \<Rightarrow> agent_loop \<Rightarrow> ((string + deferred_ops) \<times> agent_loop) option" where
  "apply_side_effects env ef committed a =
     (case check_recipients (al_registry a) (ef_agent_messages ef) of
        Some e \<Rightarrow> Some (Inl e, a)
      | None \<Rightarrow> map_option (\<lambda>(d, a). (Inr d, a)) (apply_committed env ef committed a))"

section \<open>What every phase keeps\<close>

fun is_child :: "agent_output \<Rightarrow> bool" where
  "is_child (OChild nm p s m rp ch) = True"
| "is_child _ = False"

fun is_save :: "agent_output \<Rightarrow> bool" where
  "is_save (OSaveState s) = True"
| "is_save _ = False"

text \<open>A child's permissions and state, against its parent's permissions.\<close>

fun forked_well :: "agent_permissions \<Rightarrow> agent_output \<Rightarrow> bool" where
  "forked_well p0 (OChild nm p s m rp ch) \<longleftrightarrow>
     agent_name p = Child nm \<and> lineage p = lineage p0 @ [nm] \<and>
     child_depth_remaining p = (if child_depth_remaining p0 = 0 then 0 else child_depth_remaining p0 - 1) \<and>
     timer_manager s = tm_new \<and> process_manager s = pm_new \<and> queue_sorted (work_queue s) \<and>
     (\<forall>w \<in> set (wq_items (work_queue s)). (\<exists>u x. wi_type w = UserMessage ''child-agent'' u x None) \<or> (\<exists>ps. wi_type w = View ps)) \<and>
     (\<exists>w \<in> set (wq_items (work_queue s)). \<exists>u x. wi_type w = UserMessage ''child-agent'' u x None)"
| "forked_well p0 _ \<longleftrightarrow> True"

definition within :: "agent_loop \<Rightarrow> agent_loop \<Rightarrow> bool" where
  "within a a' \<longleftrightarrow> al_permissions a' = al_permissions a \<and> al_max_children a' = al_max_children a \<and>
     al_turn_counter a' = al_turn_counter a \<and>
     (\<exists>os. al_out a' = al_out a @ os \<and> list_all (forked_well (al_permissions a)) os \<and> list_all (\<lambda>x. \<not> is_save x) os \<and>
       (al_active_children a \<le> al_max_children a \<longrightarrow> al_active_children a' \<le> al_max_children a \<and>
          unat (al_active_children a') \<le> unat (al_active_children a) + length (filter is_child os)))"

definition grows :: "agent_loop \<Rightarrow> agent_loop \<Rightarrow> bool" where
  "grows a a' \<longleftrightarrow> within a a' \<and> (in_order (al_state a) \<longrightarrow> in_order (al_state a'))"

lemma within_trans: "\<lbrakk>within a b; within b c\<rbrakk> \<Longrightarrow> within a c"
  unfolding within_def by (fastforce simp: add.assoc intro: order_trans)

lemma grows_refl [intro, simp]: "grows a a"
  by (auto simp: grows_def within_def)

lemma grows_trans [trans]: "\<lbrakk>grows a b; grows b c\<rbrakk> \<Longrightarrow> grows a c"
  unfolding grows_def by (blast intro: within_trans)

lemma grows_frame:
  "\<lbrakk>al_permissions a' = al_permissions a; al_max_children a' = al_max_children a; al_turn_counter a' = al_turn_counter a;
    al_out a' = al_out a @ os; list_all (\<lambda>x. \<not> is_child x \<and> \<not> is_save x) os; al_active_children a' \<le> al_active_children a;
    in_order (al_state a) \<Longrightarrow> in_order (al_state a')\<rbrakk> \<Longrightarrow> grows a a'"
proof -
  assume *: "al_permissions a' = al_permissions a" "al_max_children a' = al_max_children a" "al_turn_counter a' = al_turn_counter a"
    "al_out a' = al_out a @ os" "list_all (\<lambda>x. \<not> is_child x \<and> \<not> is_save x) os" "al_active_children a' \<le> al_active_children a"
    "in_order (al_state a) \<Longrightarrow> in_order (al_state a')"
  have "forked_well p x" if "\<not> is_child x" for p x using that by (cases x) auto
  with * have "list_all (forked_well (al_permissions a)) os" "list_all (\<lambda>x. \<not> is_save x) os" by (auto simp: list_all_iff)
  with * show ?thesis
    by (auto simp: grows_def within_def word_le_nat_alt intro: order_trans)
qed

lemma grows_within: "grows a a' \<Longrightarrow> within a a'"
  by (simp add: grows_def)

lemma grows_emit: "list_all (\<lambda>x. \<not> is_child x \<and> \<not> is_save x) os \<Longrightarrow> grows a (emit os a)"
  by (rule grows_frame [where os = os]) (simp_all add: emit_def)

lemma grows_upd_state: "(in_order (al_state a) \<Longrightarrow> in_order (f (al_state a))) \<Longrightarrow> grows a (upd_state f a)"
  by (rule grows_frame [where os = "[]"]) (simp_all add: upd_state_def)

lemma grows_fold: "(\<And>x a. grows a (f x a)) \<Longrightarrow> grows a (fold f xs a)"
  by (induction xs arbitrary: a) (auto intro: grows_trans)

lemma grows_fold_opt: "\<lbrakk>fold_opt f xs a = Some a'; \<And>x a a'. f x a = Some a' \<Longrightarrow> grows a a'\<rbrakk> \<Longrightarrow> grows a a'"
  by (erule fold_opt_invariant [where P = "grows a"]) (auto intro: grows_trans)

lemma grows_fold_opt_pair:
  "\<lbrakk>fold_opt f xs wa = Some wa'; \<And>x wa wa'. f x wa = Some wa' \<Longrightarrow> grows (snd wa) (snd wa')\<rbrakk> \<Longrightarrow> grows (snd wa) (snd wa')"
  by (erule fold_opt_invariant [where P = "\<lambda>w. grows (snd wa) (snd w)"]) (auto intro: grows_trans)

lemma grows_deliver: "grows a (deliver_message env m a)"
  unfolding deliver_message_def al_broadcast_def
  by (auto intro!: grows_emit intro: grows_trans [OF grows_emit grows_emit])

lemma grows_spawn_quietly: "grows a (spawn_quietly env r a)"
  by (auto simp: spawn_quietly_def intro: grows_emit)

lemma grows_commit: "grows a (apply_hook_commit env hc a)"
proof (cases hc)
  case (Some h)
  define b where "b = upd_state (\<lambda>s. s\<lparr>memory := hc_memory h, memory_priorities := hc_memory_priorities h,
      id_gen := hc_id_generator h,
      process_manager := fold pm_add (into_processes (hc_process_manager h)) (process_manager s)\<rparr>) a"
  have "grows a b"
    unfolding b_def by (rule grows_upd_state) (simp add: in_order_def)
  also have "grows b (fold (spawn_quietly env) (hc_process_starts h) b)"
    by (rule grows_fold) (rule grows_spawn_quietly)
  also have "grows \<dots> (fold (deliver_message env) (hc_messages h) \<dots>)"
    by (rule grows_fold) (rule grows_deliver)
  finally show ?thesis
    using Some by (simp add: apply_hook_commit_def b_def)
qed simp

lemma grows_draw: "al_draw a = (i, b) \<Longrightarrow> grows a b"
  using in_order_draw [of a i b] by (intro grows_frame [where os = "[]"]) (auto simp: al_draw_def split: prod.splits)

lemma grows_bump: "grows a (upd_state (bump_stats nm f) a)"
  by (rule grows_upd_state) simp

lemma grows_hooks_command: "grows a (handle_hooks_command env cmd chat a)"
proof -
  have "grows a (a\<lparr>al_state := snd (hooks_reply cmd (al_state a))\<rparr>)"
    by (rule grows_frame [where os = "[]"]) (simp_all add: hooks_reply_in_order)
  then show ?thesis
    by (simp add: handle_hooks_command_def split_beta grows_trans [OF _ grows_deliver])
qed

lemma within_al_push: "within a (al_push w a)"
proof -
  have "grows a (a\<lparr>al_out := al_out a\<rparr>)" by simp
  then show ?thesis by (simp add: grows_def within_def al_push_def upd_state_def)
qed

text \<open>\<open>within\<close> holds for any item, \<open>grows\<close> for one that is stored as it is.\<close>

lemma within_push_item: "push_item env item a = Some a' \<Longrightarrow> within a a'"
  by (auto simp: push_item_def Let_def grows_within [OF grows_hooks_command] within_al_push
      split: option.splits if_splits prod.splits hook_outcome.splits
      intro: grows_within [OF grows_trans [OF grows_bump grows_commit]]
        within_trans [OF grows_within [OF grows_trans [OF grows_bump grows_commit]] within_al_push]
        within_trans [OF within_trans [OF grows_within [OF grows_trans [OF grows_bump grows_draw]] within_al_push]
          grows_within [OF grows_commit]])

lemma grows_push_item: "push_item env item a = Some a' \<Longrightarrow> whole_item item \<Longrightarrow> grows a a'"
  by (simp add: grows_def within_push_item) (blast dest: push_item_in_order)

lemma grows_push_new: "push_new env prio ty att a = Some a' \<Longrightarrow> stored_type ty = ty \<Longrightarrow> grows a a'"
  by (auto simp: push_new_def split: prod.splits intro: grows_trans [OF grows_draw grows_push_item])

lemma grows_set_status: "grows a (set_process_status pid st a)"
  unfolding set_process_status_def by (rule grows_upd_state) (simp add: in_order_def)

lemmas grows_intros = grows_refl grows_emit grows_deliver grows_push_item grows_push_new grows_set_status

lemma grows_start_process: "start_process env r wa = Some wa' \<Longrightarrow> grows (snd wa) (snd wa')"
  by (auto simp: start_process_def split_beta Let_def split: option.splits
      intro: grows_trans [OF grows_set_status grows_push_new] grows_emit [of "[OSpawn r]", simplified])

lemma grows_send_events: "grows a (send_events es a)"
  unfolding send_events_def by (rule grows_emit) (auto simp: list_all_iff)

lemma grows_kill_child: "grows a (kill_child_agent nm a)"
  unfolding kill_child_agent_def by (rule grows_send_events)

lemma grows_push_view: "push_view env paths a = Some a' \<Longrightarrow> grows a a'"
  by (auto simp: push_view_def split: if_splits intro: grows_push_new)

lemma grows_deregister: "grows a (al_deregister nm a)"
  by (rule grows_frame [where os = "[]"]) (simp_all add: al_deregister_def)

lemma grows_registry: "grows a (a\<lparr>al_registry := r\<rparr>)" "grows a (a\<lparr>al_next_channel := n\<rparr>)"
  by (rule grows_frame [where os = "[]"]; simp)+

text \<open>What a child starts with.\<close>

lemma draw_id_queue: "draw_id s = (i, s') \<Longrightarrow> work_queue s' = work_queue s \<and> timer_manager s' = timer_manager s \<and>
    process_manager s' = process_manager s \<and> event_history s' = event_history s"
  by (auto simp: draw_id_def split: prod.splits)

lemma fresh_history_frame [simp]:
  "work_queue (fresh_history now parent task s) = work_queue s"
  "timer_manager (fresh_history now parent task s) = timer_manager s"
  "process_manager (fresh_history now parent task s) = process_manager s"
  by (simp_all add: fresh_history_def push_history_def draw_id_def split_beta)

lemma child_state_fields:
  "timer_manager (child_state env parent x s) = tm_new" "process_manager (child_state env parent x s) = pm_new"
  by (simp_all add: child_state_def clear_inherited_def Let_def draw_id_def push_queue_def split_beta)

lemma child_state_queue:
  "\<exists>i j. work_queue (child_state env parent x s) =
     (let q = wq_push (new_item env i 9 (UserMessage ''child-agent'' parent (fc_task x) None) (fc_attach x)) wq_new
      in if fc_attach x = [] then q else wq_push (new_item env j 10 (View (fc_attach x)) []) q)"
  by (auto simp: child_state_def clear_inherited_def Let_def draw_id_def push_queue_def split_beta)

lemma wq_push_set [simp]: "set (wq_items (wq_push w q)) = insert w (set (wq_items q))"
  by (metis set_mset_add_mset_insert set_mset_mset wq_push_mset)

lemma child_forked_well:
  "forked_well (al_permissions a) (OChild (fc_name x) (child_permissions a x) (child_state env parent x s) m rp ch)"
proof -
  obtain i j where q: "work_queue (child_state env parent x s) =
     (let q = wq_push (new_item env i 9 (UserMessage ''child-agent'' parent (fc_task x) None) (fc_attach x)) wq_new
      in if fc_attach x = [] then q else wq_push (new_item env j 10 (View (fc_attach x)) []) q)"
    using child_state_queue by blast
  have "wq_items wq_new = []" by (simp add: wq_new_def)
  then show ?thesis
    by (auto simp: child_permissions_def child_state_fields q Let_def new_item_def queue_sorted_push)
qed

lemma grows_spawn_child: "spawn_child env x ca = Some ca' \<Longrightarrow> grows (snd ca) (snd ca')"
proof -
  assume sp: "spawn_child env x ca = Some ca'"
  obtain chs a where ca: "ca = (chs, a)" by fastforce
  have [simp]: "stored_type (fork_failure nm e) = fork_failure nm e" for nm e by (simp add: fork_failure_def)
  show ?thesis
  proof (cases "al_active_children a \<ge> al_max_children a")
    case True
    with sp ca show ?thesis
      by (auto simp: spawn_child_def intro: grows_trans [OF grows_deregister grows_push_new])
  next
    case False
    then obtain ch chs' where chs: "chs = ch # chs'"
      using sp ca by (cases chs) (auto simp: spawn_child_def)
    have plus: "unat (al_active_children a + 1) = Suc (unat (al_active_children a))"
    proof -
      have "unat (al_active_children a) < unat (al_max_children a)"
        using False by (simp add: word_less_nat_alt [symmetric] not_le)
      moreover have "unat (al_max_children a) < 2 ^ 32"
        using unsigned_less [of "al_max_children a"] by simp
      ultimately show ?thesis by (simp add: unat_word_ariths)
    qed
    show ?thesis
    proof (cases "ax_client_error env (child_model (al_config a) x)")
      case None
      let ?b = "a\<lparr>al_active_children := al_active_children a + 1\<rparr>"
      have "grows a (emit [OChild (fc_name x) (child_permissions ?b x) (child_state env parent x s) m rp ch] ?b)" for parent s m rp
        using child_forked_well [of ?b x env parent s m rp ch] False plus
        by (auto simp: grows_def within_def emit_def word_le_nat_alt [symmetric] word_less_nat_alt not_le simp del: forked_well.simps)
          (simp add: word_le_nat_alt)
      with None False sp ca chs show ?thesis
        by (auto simp: spawn_child_def Let_def simp del: forked_well.simps)
    next
      case (Some e)
      have "grows a (al_deregister (fc_name x) (a\<lparr>al_active_children := al_active_children a\<rparr>))"
        by (simp add: grows_deregister)
      with Some False sp ca chs show ?thesis
        by (auto simp: spawn_child_def Let_def intro: grows_trans [OF _ grows_push_new])
    qed
  qed
qed

lemma grows_fork_alert: "grows a (fork_alert env xs a)"
proof -
  obtain i b where d: "al_draw a = (i, b)" by fastforce
  have "grows b (upd_state (push_history e) b)" for e
    by (rule grows_upd_state) (simp add: in_order_def push_history_def)
  with grows_draw [OF d] show ?thesis
    by (auto simp: fork_alert_def d intro: grows_trans)
qed

lemma grows_fork_request: "fork_request env xs a = Some a' \<Longrightarrow> grows a a'"
proof -
  assume f: "fork_request env xs a = Some a'"
  let ?chs = "[al_next_channel a ..< al_next_channel a + length xs]"
  let ?b = "a\<lparr>al_next_channel := al_next_channel a + length xs\<rparr>"
  have [simp]: "stored_type (fork_failure nm e) = fork_failure nm e" for nm e by (simp add: fork_failure_def)
  obtain res reg where r: "register_batch (zip (map fc_name xs) ?chs) (al_registry a) = (res, reg)" by fastforce
  show ?thesis
  proof (cases res)
    case (Inl e)
    with f r show ?thesis
      by (auto simp: fork_request_def intro: grows_trans [OF grows_registry(2) grows_push_new])
  next
    case (Inr u)
    then obtain chs' where "fold_opt (spawn_child env) xs (?chs, fork_alert env xs (?b\<lparr>al_registry := reg\<rparr>)) = Some (chs', a')"
      using f r by (auto simp: fork_request_def)
    from grows_fold_opt_pair [OF this grows_spawn_child]
    have "grows (fork_alert env xs (?b\<lparr>al_registry := reg\<rparr>)) a'" by simp
    with grows_trans [OF grows_trans [OF grows_registry(2) grows_registry(1)] grows_fork_alert]
    show ?thesis by (rule grows_trans)
  qed
qed

lemma grows_send_message: "grows a (send_agent_message m a)"
  unfolding send_agent_message_def by (rule grows_send_events)

lemma grows_request_compaction: "grows a (request_compaction_effect env b a)"
  unfolding request_compaction_effect_def
  by (auto simp: split_beta in_order_def cm_trigger_def draw_id_def queue_sorted_push whole_queue_push intro!: grows_frame [where os = "[]"])

lemma grows_append_script: "grows a (append_script xs a)"
  by (rule grows_frame [where os = "[]"]) (simp_all add: append_script_def)

lemma remove_items_set: "set (wq_items (remove_items is q)) \<subseteq> set (wq_items q)"
  unfolding remove_items_def
proof (induction "is" arbitrary: q)
  case (Cons i js)
  have "set (wq_items (snd (wq_remove i q))) \<subseteq> set (wq_items q)"
    using list_emb_set [OF wq_remove_subseq [of i q]] by auto
  with Cons.IH [of "snd (wq_remove i q)"] show ?case by auto
qed simp

lemma remove_items_sorted: "queue_sorted q \<Longrightarrow> queue_sorted (remove_items is q)"
  unfolding remove_items_def by (induction "is" arbitrary: q) (auto intro: queue_sorted_remove)

lemma grows_run_compaction: "run_compaction env called a = Some a' \<Longrightarrow> grows a a'"
proof -
  assume *: "run_compaction env called a = Some a'"
  obtain i b where d: "al_draw a = (i, b)" by fastforce
  have "grows b (upd_state (push_history e) b)" for e
    by (rule grows_upd_state) (simp add: in_order_def push_history_def)
  with grows_draw [OF d] have "grows a (upd_state (push_history e) b)" for e by (blast intro: grows_trans)
  moreover have "grows a (a\<lparr>al_compaction := cm, al_state := (al_state a)\<lparr>event_history := h, id_gen := g,
      work_queue := remove_items is (work_queue (al_state a))\<rparr>\<rparr>)" for cm h g "is"
    by (rule grows_frame [where os = "[]"]) (simp_all add: in_order_def remove_items_sorted whole_queue_subset [OF _ remove_items_set])
  ultimately show ?thesis
    using * by (auto simp: run_compaction_def d split: if_splits option.splits)
qed

lemma grows_apply_committed:
  "apply_committed env ef committed a = Some (d, a') \<Longrightarrow> grows (commit_state committed a) a'"
proof -
  assume *: "apply_committed env ef committed a = Some (d, a')"
  obtain waits a1 where 1: "fold_opt (start_process env) (ef_process_starts ef) ([], commit_state committed a) = Some (waits, a1)"
    using * by (auto simp: apply_committed_def split: option.splits)
  obtain a2 where 2: "push_view env (ef_view_paths ef) (fold kill_child_agent (ef_child_kills ef) a1) = Some a2"
    using * 1 by (auto simp: apply_committed_def split: option.splits)
  obtain a3 where 3: "fold_opt (fork_request env) (ef_fork_requests ef) a2 = Some a3"
    using * 1 2 by (auto simp: apply_committed_def split: option.splits)
  have "grows (commit_state committed a) a1"
    using grows_fold_opt_pair [OF 1 grows_start_process] by simp
  also have "grows a1 (fold kill_child_agent (ef_child_kills ef) a1)"
    by (rule grows_fold) (rule grows_kill_child)
  also note grows_push_view [OF 2]
  also note grows_fold_opt [OF 3 grows_fork_request]
  also have "grows a3 (fold send_agent_message (ef_agent_messages ef) a3)" (is "grows _ ?a4")
    by (rule grows_fold) (rule grows_send_message)
  also have "grows ?a4 (fold (deliver_message env) (ef_messages ef) ?a4)" (is "grows _ ?a5")
    by (rule grows_fold) (rule grows_deliver)
  also have "grows ?a5 (emit (map (\<lambda>(k, v). OPin k v) (ef_memory_pins ef) @ map OUnpin (ef_memory_unpins ef)) ?a5)" (is "grows _ ?a6")
    by (rule grows_emit) (auto simp: list_all_iff)
  also have "grows ?a6 (append_script (ef_compaction_script_appends ef) (request_compaction_effect env (ef_compaction_requested ef) ?a6))"
    by (blast intro: grows_trans grows_request_compaction grows_append_script)
  also have "grows \<dots> a'"
    using * 1 2 3 by (intro grows_run_compaction [of env "ef_compact_called ef"]) (auto simp: apply_committed_def Let_def)
  finally show ?thesis .
qed

section \<open>Properties\<close>

lemma commit_state_frame [simp]:
  "al_permissions (commit_state s a) = al_permissions a" "al_max_children (commit_state s a) = al_max_children a"
  "al_active_children (commit_state s a) = al_active_children a" "al_out (commit_state s a) = al_out a"
  "al_turn_counter (commit_state s a) = al_turn_counter a" "al_registry (commit_state s a) = al_registry a"
  "in_order (al_state (commit_state s a)) \<longleftrightarrow> in_order s"
  by (simp_all add: commit_state_def Let_def in_order_def)


definition sample_effects :: external_effects where
  "sample_effects = no_effects\<lparr>ef_fork_requests := [[\<lparr>fc_name = ''worker'', fc_task = ''t'', fc_model = None,
     fc_max_turns = Some 20, fc_can_compact = True, fc_inherit_history = True, fc_attach = [], fc_prefix_context = None,
     fc_prefix_attach = []\<rparr>]]\<rparr>"

lemma sample_effects_apply:
  "\<exists>d a'. apply_side_effects sample_agent_env sample_effects sample_state sample_agent = Some (Inr d, a') \<and>
     length (filter is_child (al_out a')) = 1"
  by (simp add: apply_side_effects_def apply_committed_def sample_effects_def no_effects_def check_recipients_def
      push_view_def fork_request_def register_batch_def running_agent_def ar_new_def sample_agent_def al_new_def
      commit_state_def fork_alert_def spawn_child_def child_model_def sample_agent_env_def emit_def upd_state_def
      append_script_def request_compaction_effect_def run_compaction_def Let_def split_beta al_draw_def insert_agent_def cm_new_def)


lemma check_recipients_None:
  "check_recipients r ms = None \<longleftrightarrow> (\<forall>m \<in> set ms. map_of (ar_agents r) (am_recipient m) \<noteq> None)"
  by (auto simp: check_recipients_def ar_exists_def find_None_iff)

text \<open>A message to an agent that was never registered rolls the whole turn back: the error
  comes back exactly when a recipient is unknown, and the agent is as it was.\<close>

theorem unknown_recipient_rolls_back:
  assumes "apply_side_effects env ef committed a = Some (r, a')"
  shows "(\<exists>e. r = Inl e) = (\<exists>m \<in> set (ef_agent_messages ef). map_of (ar_agents (al_registry a)) (am_recipient m) = None) \<and>
    (\<forall>e. r = Inl e \<longrightarrow> a' = a)"
  using assms check_recipients_None [of "al_registry a" "ef_agent_messages ef"]
  by (auto simp: apply_side_effects_def split: option.splits)

theorem unknown_recipient_rolls_back_witness:
  "\<exists>e. apply_side_effects sample_agent_env (no_effects\<lparr>ef_agent_messages := [\<lparr>am_recipient = ''x'', am_content = [], am_priority = 6\<rparr>]\<rparr>)
     sample_state sample_agent = Some (Inl e, sample_agent)"
proof -
  obtain r a' where *: "apply_side_effects sample_agent_env (no_effects\<lparr>ef_agent_messages := [\<lparr>am_recipient = ''x'', am_content = [], am_priority = 6\<rparr>]\<rparr>)
     sample_state sample_agent = Some (r, a')"
    by (simp add: apply_side_effects_def check_recipients_def ar_exists_def sample_agent_def al_new_def ar_new_def)
  have "map_of (ar_agents (al_registry sample_agent)) ''x'' = None"
    by (simp add: sample_agent_def al_new_def ar_new_def)
  with unknown_recipient_rolls_back [OF *] have "\<exists>e. r = Inl e" "a' = sample_agent" by auto
  with * show ?thesis by auto
qed

lemma remove_items_mset:
  "distinct (map wi_id (wq_items q)) \<Longrightarrow> wq_items (remove_items is q) = filter (\<lambda>w. wi_id w \<notin> set is) (wq_items q)"
  unfolding remove_items_def
proof (induction "is" arbitrary: q)
  case (Cons i js)
  then have "wq_items (snd (wq_remove i q)) = filter (\<lambda>w. wi_id w \<noteq> i) (wq_items q)"
    using wq.del_distinct by blast
  moreover from this Cons.prems have "distinct (map wi_id (wq_items (snd (wq_remove i q))))"
    by (simp add: distinct_map_filter)
  ultimately show ?case using Cons.IH [of "snd (wq_remove i q)"] by (simp add: conj_commute)
qed simp

text \<open>C17: a compaction script that runs through ends the compaction: the history is the one the
  script left, no compaction item stays in the queue, the manager is reset, and of the rest of
  the script's work only the id generator is kept.\<close>

theorem compaction_completes:
  assumes "run_compaction env True a = Some a'" "cm_active (al_compaction a)"
    and "execute_with_timeout (cf_python_timeout_secs (al_config a)) (compaction_ctx (ax_py env)) (ax_interp env)
           (cm_script (al_compaction a)) (al_state a) = Some r" "er_committed r = Some c"
    and "distinct (map wi_id (wq_items (work_queue (al_state a))))"
  shows "al_compaction a' = cm_new \<and> event_history (al_state a') = event_history c \<and> id_gen (al_state a') = id_gen c \<and>
     wq_items (work_queue (al_state a')) = filter (\<lambda>w. wi_type w \<noteq> Compaction) (wq_items (work_queue (al_state a))) \<and>
     memory (al_state a') = memory (al_state a) \<and> timer_manager (al_state a') = timer_manager (al_state a)"
proof -
  have "\<not> er_is_error r" using error_or_commit [OF assms(3)] assms(4) by auto
  let ?q = "work_queue (al_state a)"
  have "wi_id w \<in> wi_id ` set (filter is_compaction_item (wq_items ?q)) \<longleftrightarrow> wi_type w = Compaction"
    if "w \<in> set (wq_items ?q)" for w
    using that assms(5) by (auto simp: is_compaction_item_def distinct_map dest: inj_onD)
  then have "wq_items (remove_items (map wi_id (filter is_compaction_item (wq_items ?q))) ?q) =
      filter (\<lambda>w. wi_type w \<noteq> Compaction) (wq_items ?q)"
    using assms(5) by (simp add: remove_items_mset cong: filter_cong)
  with assms \<open>\<not> er_is_error r\<close> show ?thesis
    by (auto simp: run_compaction_def cm_complete_def cm_new_def)
qed

definition sample_compacting :: agent_loop where
  "sample_compacting = sample_agent\<lparr>al_compaction := \<lparr>cm_active = True, cm_script = ''pass'', cm_target_usage = 500\<rparr>,
     al_state := sample_state\<lparr>work_queue := \<lparr>wq_items = [sample_item 1 10 0]\<rparr>\<rparr>\<rparr>"

theorem compaction_completes_witness:
  "\<exists>a'. run_compaction sample_agent_env True sample_compacting = Some a' \<and> al_compaction a' = cm_new \<and>
     wq_items (work_queue (al_state a')) = []"
proof -
  let ?r = "committed_run (al_state sample_compacting) (begin_txn (al_state sample_compacting))"
  have r: "execute_with_timeout (cf_python_timeout_secs (al_config sample_compacting)) (compaction_ctx (ax_py sample_agent_env))
      (ax_interp sample_agent_env) (cm_script (al_compaction sample_compacting)) (al_state sample_compacting) = Some ?r"
    by (simp add: execute_with_timeout_def execute_inner_def thread_of_def sample_agent_env_def sample_compacting_def nul_def
        compaction_ctx_def)
  then obtain a' where a': "run_compaction sample_agent_env True sample_compacting = Some a'"
    by (simp add: run_compaction_def committed_run_def sample_compacting_def)
  have c: "er_committed ?r = Some (reassemble (al_state sample_compacting) (al_state sample_compacting))"
    "cm_active (al_compaction sample_compacting)" "distinct (map wi_id (wq_items (work_queue (al_state sample_compacting))))"
    by (simp_all add: committed_run_def sample_compacting_def)
  from compaction_completes [OF a' c(2) r c(1) c(3)] a' show ?thesis
    by (auto simp: sample_compacting_def sample_item_def)
qed

text \<open>Parent and child draw the same ids. A child inherits its parent's id generator, and
  starting it draws nothing from the parent's own, so the id of the child's task is the next id
  its parent draws, and from there on both go through one sequence (process output is stored
  by id in a database all agents share).\<close>

theorem child_repeats_parent_ids:
  assumes "spawn_child env x (ch # chs, a) = Some (chs, a')" "fc_inherit_history x" "ax_client_error env (child_model (al_config a) x) = None"
    and "al_active_children a < al_max_children a"
  shows "\<exists>p cs m rp w. al_out a' = al_out a @ [OChild (fc_name x) p cs m rp ch] \<and>
     w \<in> set (wq_items (work_queue cs)) \<and> (\<exists>u. wi_type w = UserMessage ''child-agent'' u (fc_task x) None) \<and>
     wi_id w = fst (draw_id (al_state a'))"
proof -
  let ?b = "a\<lparr>al_active_children := al_active_children a + 1\<rparr>"
  let ?parent = "name_str (agent_name (al_permissions a))"
  let ?cs = "child_state env ?parent x (al_state a)"
  let ?w = "new_item env (fst (next_id (id_gen (al_state a)))) 9 (UserMessage ''child-agent'' ?parent (fc_task x) None) (fc_attach x)"
  have "?w \<in> set (wq_items (work_queue ?cs))"
    using assms(2) by (auto simp: child_state_def clear_inherited_def draw_id_def Let_def split_beta)
  moreover have "al_out a' = al_out a @ [OChild (fc_name x) (child_permissions ?b x) ?cs (child_model (al_config a) x) (child_role_prefix x) ch]"
    "al_state a' = al_state a"
    using assms(1,3) linorder_not_le [THEN iffD2, OF assms(4)] by (auto simp: spawn_child_def Let_def)
  moreover have "wi_id ?w = fst (draw_id (al_state a))"
    by (simp add: new_item_def draw_id_def split_beta)
  ultimately show ?thesis by (auto simp: new_item_def)
qed

theorem child_repeats_parent_ids_witness:
  "\<exists>a' p cs m rp w. spawn_child sample_agent_env (hd (hd (ef_fork_requests sample_effects))) ([1], sample_agent) = Some ([], a') \<and>
     al_out a' = al_out sample_agent @ [OChild ''worker'' p cs m rp 1] \<and>
     w \<in> set (wq_items (work_queue cs)) \<and> wi_id w = fst (draw_id (al_state a'))"
proof -
  let ?x = "hd (hd (ef_fork_requests sample_effects))"
  have x: "fc_inherit_history ?x" "ax_client_error sample_agent_env (child_model (al_config sample_agent) ?x) = None"
    "al_active_children sample_agent < al_max_children sample_agent" "fc_name ?x = ''worker''"
    by (simp_all add: sample_effects_def sample_agent_env_def sample_agent_def al_new_def)
  then obtain a' where s: "spawn_child sample_agent_env ?x (1 # [], sample_agent) = Some ([], a')"
    using linorder_not_le [THEN iffD2, OF x(3)] by (auto simp: spawn_child_def Let_def)
  from child_repeats_parent_ids [OF s x(1,2,3)] s x(4) show ?thesis by auto
qed

end
