(* ===== verification/Agent_Run.thy ===== *)
theory Agent_Run
  imports Side_Effects
begin

text \<open>
  A turn and the loop around it (\<open>run_turn\<close>, \<open>perform_deferred_ops\<close>, \<open>run\<close> and
  \<open>run_child_agent_loop\<close> of src/src/agent_loop.rs). What the world does during one round
  of the loop is its input: the events that were waiting, what ended an idle wait, whether
  a shutdown was signalled before the round or while the API call was in flight, the
  answer of the API (theory Api_Client models the client) and the events that came while the
  turn waited for processes.
\<close>

type_synonym api_caller =
  "rendered_context \<Rightarrow> (string \<times> string) list \<Rightarrow> string \<Rightarrow> u32 \<Rightarrow> string list \<Rightarrow> (string + api_turn_result) option"

section \<open>A turn\<close>

text \<open>Values to scrub from the trace: of the sensitive keys, from memory or else pinned, of
  eight bytes or more.\<close>

definition sensitive_value :: "agent_env \<Rightarrow> harness_state \<Rightarrow> string \<Rightarrow> string option" where
  "sensitive_value env s k =
     (case map_of (memory s) k of
        Some (JStr x) \<Rightarrow> Some x
      | Some v \<Rightarrow> Some (case json_string (ax_render env) v of Some x \<Rightarrow> x | None \<Rightarrow> [])
      | None \<Rightarrow> map_option snd (List.find (\<lambda>kv. fst kv = k) (ax_pinned env)))"

definition sensitive_values :: "agent_env \<Rightarrow> harness_state \<Rightarrow> string list" where
  "sensitive_values env s = filter (\<lambda>v. length v \<ge> 8) (List.map_filter (sensitive_value env s) (sensitive_keys s))"

definition pinned_summary :: "(string \<times> string) list \<Rightarrow> (nat \<times> nat) option" where
  "pinned_summary pinned =
     (if pinned = [] then None
      else Some (length pinned, sum_list (map (\<lambda>(k, v). length k + length v) pinned)))"

definition turn_compaction :: "agent_env \<Rightarrow> agent_loop \<Rightarrow> compaction_state option option" where
  "turn_compaction env a =
     (if \<not> cm_active (al_compaction a) then Some None
      else map_option (\<lambda>n. Some ((cm_state (last_total_input_tokens (al_state a)) (al_compaction a))\<lparr>cs_estimated := n\<rparr>))
        (estimate_post_compaction (ax_py env) (ax_interp env) (ax_render env) (al_state a) (al_deployment_context a)
           (cf_render (al_config a)) (cf_compact_at (al_config a)) (al_compaction a)))"

definition turn_identity :: "agent_loop \<Rightarrow> agent_identity" where
  "turn_identity a =
     \<lparr>ai_name = name_str (agent_name (al_permissions a)), ai_lineage = format_lineage (lineage (al_permissions a)),
      ai_turn_counter = al_turn_counter a, ai_max_turns = max_turns (al_permissions a)\<rparr>"

definition turn_context :: "agent_env \<Rightarrow> agent_loop \<Rightarrow> rendered_context option" where
  "turn_context env a =
     (case turn_compaction env a of
        None \<Rightarrow> None
      | Some cs \<Rightarrow> render_context (ax_render env) (al_state a) (al_deployment_context a) (al_role_prefix a) cs
          (cf_render (al_config a)) (cf_compact_at (al_config a)) (Some (turn_identity a)) (pinned_summary (ax_pinned env)))"

text \<open>Token tracking; the pair is the turn's cost and its share of cached input.\<close>

definition usage_of :: "agent_env \<Rightarrow> prices \<Rightarrow> api_turn_result \<Rightarrow> usage_summary" where
  "usage_of env pr r =
     (let fl = ax_floats env;
          total_in = tr_input_tokens r + tr_cache_creation_tokens r + tr_cache_read_tokens r;
          pct = (if total_in > 0
            then f_div fl (f_mul fl (f_dec fl ''100.0'') (f_nat fl (tr_cache_read_tokens r))) (f_nat fl total_in)
            else f_dec fl ''0.0'')
      in \<lparr>us_input_tokens = tr_input_tokens r, us_output_tokens = tr_output_tokens r,
          us_cache_read = tr_cache_read_tokens r, us_cache_write = tr_cache_creation_tokens r,
          us_cost_usd = turn_cost fl pr (tr_input_tokens r) (tr_output_tokens r) (tr_cache_creation_tokens r) (tr_cache_read_tokens r),
          us_cache_hit_pct = of_nat (min 255 (f_to_nat fl pct))\<rparr>)"

definition add_turn_tokens :: "api_turn_result \<Rightarrow> token_accumulator \<Rightarrow> token_accumulator" where
  "add_turn_tokens r acc =
     (add_child_tokens (tr_input_tokens r) (tr_output_tokens r) (tr_cache_creation_tokens r) (tr_cache_read_tokens r) acc)
     \<lparr>ta_turns := ta_turns acc + 1\<rparr>"

definition add_local_tokens :: "api_turn_result \<Rightarrow> local_tokens \<Rightarrow> local_tokens" where
  "add_local_tokens r l =
     \<lparr>lt_input = lt_input l + tr_input_tokens r, lt_output = lt_output l + tr_output_tokens r,
      lt_cache_creation = lt_cache_creation l + tr_cache_creation_tokens r,
      lt_cache_read = lt_cache_read l + tr_cache_read_tokens r\<rparr>"

definition record_usage :: "agent_env \<Rightarrow> api_turn_result \<Rightarrow> agent_loop \<Rightarrow> agent_loop option" where
  "record_usage env r a =
     (let u = usage_of env (cf_prices (al_config a)) r;
          a = upd_state (\<lambda>s. s\<lparr>last_input_tokens := tr_input_tokens r,
                last_total_input_tokens := tr_input_tokens r + tr_cache_creation_tokens r + tr_cache_read_tokens r\<rparr>) a;
          a = a\<lparr>al_turn_counter := al_turn_counter a + 1, al_last_usage := Some u\<rparr>;
          a = (case al_accumulator a of
                 Some acc \<Rightarrow> a\<lparr>al_accumulator := Some (add_turn_tokens r acc)\<rparr>
               | None \<Rightarrow> a\<lparr>al_local := add_local_tokens r (al_local a)\<rparr>)
      in map_option (\<lambda>l. a\<lparr>al_usage_log := l\<rparr>)
           (ul_push \<lparr>ue_ts = px_now (ax_py env) div 1000000000, ue_agent = al_name a, ue_input_tokens = tr_input_tokens r,
              ue_output_tokens = tr_output_tokens r, ue_cache_read_tokens = tr_cache_read_tokens r,
              ue_cache_creation_tokens = tr_cache_creation_tokens r, ue_cost_usd = us_cost_usd u\<rparr> (al_usage_log a)))"

definition turn_ctx :: "agent_env \<Rightarrow> agent_loop \<Rightarrow> py_ctx" where
  "turn_ctx env a = (ax_py env)\<lparr>px_is_compaction := cm_active (al_compaction a), px_process_outputs := ax_all_outputs env,
     px_child_depth := child_depth_remaining (al_permissions a), px_pinned := ax_pinned env, px_hook_mode := False\<rparr>"

fun wait_all :: "agent_env \<Rightarrow> nat list \<Rightarrow> harness_event list list \<Rightarrow> agent_loop \<Rightarrow> agent_loop option" where
  "wait_all env [] evs a = Some a"
| "wait_all env (ms # mss) evs a =
     (case drain_events env (case evs of [] \<Rightarrow> [] | es # _ \<Rightarrow> es) (emit [OWait ms] a) of
        None \<Rightarrow> None
      | Some a \<Rightarrow> wait_all env mss (drop 1 evs) a)"

definition perform_deferred_ops :: "agent_env \<Rightarrow> harness_event list list \<Rightarrow> deferred_ops \<Rightarrow> agent_loop \<Rightarrow> agent_loop option" where
  "perform_deferred_ops env evs d a =
     map_option (emit (map OKillProcess (do_process_kills d) @ map (\<lambda>(p, x). OStdin p x) (do_stdin_writes d) @
       map OCloseStdin (do_stdin_closes d))) (wait_all env (do_block_for_waiters d) evs a)"

definition record_turn :: "agent_env \<Rightarrow> string \<Rightarrow> string \<Rightarrow> bool \<Rightarrow> agent_loop \<Rightarrow> agent_loop" where
  "record_turn env code out is_error a =
     (let (i, a) = al_draw a in upd_state (push_history (Execution i (px_now (ax_py env)) code out is_error)) a)"

definition error_output :: "string \<Rightarrow> string" where
  "error_output e = ''[ERROR]'' @ nl # e"

text \<open>What follows the script: its effects, the deferred operations, the history entry. The
  result says whether the agent is done.\<close>

definition finish_turn ::
  "agent_env \<Rightarrow> harness_event list list \<Rightarrow> string \<Rightarrow> execution_result \<Rightarrow> agent_loop \<Rightarrow> (bool \<times> agent_loop) option" where
  "finish_turn env evs code r a =
     (if er_is_error r then Some (False, record_turn env code (error_output (er_error_text r)) True a)
      else let called = ef_done_called (er_effects r);
               a = (if called then a\<lparr>al_done_result := ef_done_result (er_effects r)\<rparr> else a)
      in case er_committed r of
        None \<Rightarrow> None
      | Some committed \<Rightarrow>
          (case apply_side_effects env (er_effects r) committed a of
             None \<Rightarrow> None
           | Some (Inl msg, a) \<Rightarrow> Some (False, record_turn env code (error_output msg) True a)
           | Some (Inr d, a) \<Rightarrow>
               map_option (\<lambda>a. (called, record_turn env code (er_stdout r) False a)) (perform_deferred_ops env evs d a)))"

definition show_status :: "agent_env \<Rightarrow> string \<Rightarrow> agent_loop \<Rightarrow> agent_loop" where
  "show_status env status a =
     al_broadcast (BStatus status)
       (a\<lparr>al_registry := set_status (ax_rfc3339 env (px_now (ax_py env))) (al_name a) status (al_registry a)\<rparr>)"

definition execute_turn :: "agent_env \<Rightarrow> harness_event list list \<Rightarrow> string \<Rightarrow> agent_loop \<Rightarrow> (bool \<times> agent_loop) option" where
  "execute_turn env evs code a =
     (case execute_with_timeout (cf_python_timeout_secs (al_config a)) (turn_ctx env a) (ax_interp env) code (al_state a) of
        None \<Rightarrow> None
      | Some r \<Rightarrow> finish_turn env evs code r a)"

definition run_turn ::
  "agent_env \<Rightarrow> api_caller \<Rightarrow> harness_event list list \<Rightarrow> agent_loop \<Rightarrow> ((string + bool) \<times> agent_loop) option" where
  "run_turn env call evs a =
     (case turn_context env a of
        None \<Rightarrow> None
      | Some rendered \<Rightarrow>
          let a = al_broadcast (BStatus ''thinking'') (put_snapshot env ''thinking'' a)
          in case call rendered (ax_pinned env) (al_name a) (al_turn_counter a) (sensitive_values env (al_state a)) of
            None \<Rightarrow> None
          | Some (Inl e) \<Rightarrow> Some (Inl e, a)
          | Some (Inr res) \<Rightarrow>
              (case record_usage env res a of
                 None \<Rightarrow> None
               | Some a \<Rightarrow> map_option (\<lambda>(d, a). (Inr d, a)) (execute_turn env evs (tr_code res) (show_status env ''executing'' a))))"

section \<open>The loop\<close>

datatype wait_result = WEvent harness_event | WClosed | WTimer | WShutdown

record loop_input =
  li_env :: agent_env
  li_call :: api_caller
  li_drained :: "harness_event list"
  li_shutdown :: bool
  li_wait :: wait_result
  li_mid_shutdown :: bool
  li_deferred :: "harness_event list list"

datatype step_result = Continue bool agent_loop | Finished finish_reason agent_loop

definition finished :: "agent_env \<Rightarrow> finish_reason \<Rightarrow> agent_loop \<Rightarrow> step_result" where
  "finished env reason a = (let (r, a) = al_finish env reason a in Finished r a)"

definition trigger_if_full :: "agent_env \<Rightarrow> agent_loop \<Rightarrow> agent_loop" where
  "trigger_if_full env a =
     request_compaction_effect env (should_trigger (al_state a) (cf_compact_at (al_config a))) a"

definition idle_wait :: "loop_input \<Rightarrow> bool \<Rightarrow> agent_loop \<Rightarrow> step_result option" where
  "idle_wait li idle a =
     (let env = li_env li;
          a = (if idle then a else al_broadcast (BStatus ''idle'') (put_snapshot env ''idle'' a))
      in case li_wait li of
        WEvent ev \<Rightarrow> map_option (Continue True) (apply_event env ev a)
      | WClosed \<Rightarrow> Some (finished env ChannelClosed a)
      | WTimer \<Rightarrow> map_option (Continue True) (check_timers env a)
      | WShutdown \<Rightarrow> Some (Continue True a))"

definition save_if_root :: "agent_loop \<Rightarrow> agent_loop" where
  "save_if_root a = (if is_root (agent_name (al_permissions a)) then emit [OSaveState (al_state a)] a else a)"

definition over_limit :: "agent_loop \<Rightarrow> u32 option" where
  "over_limit a =
     (case max_turns (al_permissions a) of None \<Rightarrow> None | Some m \<Rightarrow> if al_turn_counter a \<ge> m then Some m else None)"

definition active_turn :: "loop_input \<Rightarrow> bool \<Rightarrow> agent_loop \<Rightarrow> step_result option" where
  "active_turn li idle a =
     (let env = li_env li;
          a = (if idle then flush_hook_telemetry env a else a)
      in if al_killed a then Some (finished env Killed a)
      else case over_limit a of
        Some m \<Rightarrow> Some (finished env (MaxTurns m) a)
      | None \<Rightarrow>
          if li_mid_shutdown li
          then map_option (\<lambda>r. finished env Shutdown (al_broadcast (BStatus ''thinking'') (put_snapshot env ''thinking'' a)))
                 (turn_context env a)
          else (case run_turn env (li_call li) (li_deferred li) a of
            None \<Rightarrow> None
          | Some (Inr d, a) \<Rightarrow> Some (if d then finished env Done a else Continue False (save_if_root a))
          | Some (Inl e, a) \<Rightarrow> Some (Continue False (save_if_root a))))"

definition loop_step :: "loop_input \<Rightarrow> bool \<Rightarrow> agent_loop \<Rightarrow> step_result option" where
  "loop_step li idle a =
     (let env = li_env li in
      case drain_events env (li_drained li) a of
        None \<Rightarrow> None
      | Some a \<Rightarrow>
     (case check_timers env a of
        None \<Rightarrow> None
      | Some a \<Rightarrow>
          let a = trigger_if_full env a
          in if li_shutdown li then Some (finished env Shutdown a)
             else if wq_is_empty (work_queue (al_state a)) then idle_wait li idle a
             else active_turn li idle a))"

fun loop_run :: "loop_input list \<Rightarrow> bool \<Rightarrow> agent_loop \<Rightarrow> step_result option" where
  "loop_run [] idle a = Some (Continue idle a)"
| "loop_run (li # lis) idle a =
     (case loop_step li idle a of
        None \<Rightarrow> None
      | Some (Continue idle a) \<Rightarrow> loop_run lis idle a
      | Some (Finished r a) \<Rightarrow> Some (Finished r a))"

section \<open>Children\<close>

fun final_summary :: "finish_reason \<Rightarrow> bool \<times> string" where
  "final_summary Done = (True, ''Called done()'')"
| "final_summary (MaxTurns m) = (False, ''Max turns ('' @ show_nat (unat m) @ '') exceeded'')"
| "final_summary Shutdown = (False, ''Shutdown'')"
| "final_summary Killed = (False, ''Killed by parent'')"
| "final_summary ChannelClosed = (False, ''Parent disconnected'')"

text \<open>The registry after a child has ended, and the event its parent gets.\<close>

definition end_child :: "string \<Rightarrow> u8 \<Rightarrow> finish_reason \<Rightarrow> agent_loop \<Rightarrow> agent_registry \<times> harness_event" where
  "end_child nm prio reason a =
     (let (success, summary) = final_summary reason; l = al_local a
      in (ar_deregister nm (al_registry a),
          HEChildCompleted nm (al_done_result a) (al_turn_counter a) success summary prio
            (lt_input l) (lt_output l) (lt_cache_creation l) (lt_cache_read l)))"

section \<open>What a round of the loop keeps\<close>

lemma grows_al_broadcast: "grows a (al_broadcast m a)"
  by (auto simp: al_broadcast_def intro: grows_emit [of "[OBroadcast m]", simplified])

lemma grows_snapshot: "grows a (put_snapshot env status a)"
  by (simp add: put_snapshot_def grows_registry)

lemma grows_show_status: "grows a (show_status env status a)"
  unfolding show_status_def by (rule grows_trans [OF grows_registry(1) grows_al_broadcast])

lemma grows_process_event: "apply_process_event env pe a = Some a' \<Longrightarrow> grows a a'"
  by (cases pe) (auto simp: Let_def intro: grows_push_new grows_trans [OF grows_set_status grows_push_new]
      split: option.splits prod.splits)

lemma grows_event: "apply_event env ev a = Some a' \<Longrightarrow> grows a a'"
proof (cases ev)
  case (HEChildCompleted nm result t success summary prio i out cc crd)
  assume e: "apply_event env ev a = Some a'"
  let ?n = "if al_active_children a = 0 then 0 else al_active_children a - 1"
  obtain wid b where d: "al_draw (a\<lparr>al_active_children := ?n\<rparr>) = (wid, b)" by fastforce
  have "?n \<le> al_active_children a"
    by (auto simp: word_le_nat_alt unat_sub unat_gt_0 [symmetric] word_less_nat_alt intro: word_sub_le_iff [THEN iffD1] dest: word_le_nat_alt [THEN iffD1])
  then have "grows a (a\<lparr>al_active_children := ?n\<rparr>)"
    by (intro grows_frame [where os = "[]"]) simp_all
  also note grows_draw [OF d]
  also have "grows b (b\<lparr>al_accumulator := x\<rparr>)" for x
    by (intro grows_frame [where os = "[]"]) simp_all
  finally have g: "grows a (b\<lparr>al_accumulator := x\<rparr>)" for x .
  from e HEChildCompleted d obtain item x where "push_item env item (b\<lparr>al_accumulator := x\<rparr>) = Some a'" "whole_item item"
    by (force simp: Let_def)
  from grows_trans [OF g grows_push_item [OF this]] show ?thesis .
next
  case HEKillSignal
  assume "apply_event env ev a = Some a'"
  with HEKillSignal show ?thesis by (auto intro: grows_frame [where os = "[]"])
qed (auto intro: grows_push_new grows_process_event)

lemma grows_drain: "drain_events env evs a = Some a' \<Longrightarrow> grows a a'"
  unfolding drain_events_def by (erule grows_fold_opt) (rule grows_event)

lemma grows_check_timers: "check_timers env a = Some a' \<Longrightarrow> grows a a'"
proof -
  assume c: "check_timers env a = Some a'"
  obtain fired g m where f: "check_and_fire (px_now (ax_py env)) (id_gen (al_state a)) (timer_manager (al_state a)) = (fired, g, m)"
    by (metis prod_cases3)
  let ?b = "upd_state (\<lambda>s. s\<lparr>id_gen := g, timer_manager := m\<rparr>) a"
  have "within a ?b" by (simp add: within_def upd_state_def)
  moreover have "fold_opt (push_item env) fired ?b = Some a'" using c f by (simp add: check_timers_def)
  then have "within ?b a'"
    by (rule fold_opt_invariant [where P = "within ?b"]) (auto simp: within_def [of ?b ?b] intro: within_trans within_push_item)
  ultimately have "within a a'" by (rule within_trans)
  with check_timers_in_order [OF c] show ?thesis by (simp add: grows_def)
qed

lemma grows_flush: "grows a (flush_hook_telemetry env a)"
proof -
  obtain i b where d: "al_draw a = (i, b)" by fastforce
  have "grows b (upd_state f (upd_state (push_history e) b))"
    if "\<And>s. work_queue (f s) = work_queue s" "\<And>s. hooks (f s) = hooks s" "\<And>s. timer_manager (f s) = timer_manager s" for e f
    by (rule grows_trans [OF grows_upd_state grows_upd_state]) (simp_all add: in_order_def push_history_def that)
  with grows_draw [OF d] show ?thesis
    by (auto simp: flush_hook_telemetry_def d Let_def intro: grows_trans)
qed

lemma grows_record_turn: "grows a (record_turn env code out e a)"
proof -
  obtain i b where d: "al_draw a = (i, b)" by fastforce
  have "grows b (upd_state (push_history h) b)" for h
    by (rule grows_upd_state) (simp add: in_order_def push_history_def)
  with grows_draw [OF d] show ?thesis by (auto simp: record_turn_def d intro: grows_trans)
qed

lemma grows_wait_all: "wait_all env mss evs a = Some a' \<Longrightarrow> grows a a'"
proof (induction env mss evs a rule: wait_all.induct)
  case (2 env ms mss evs a)
  then obtain b where b: "drain_events env (case evs of [] \<Rightarrow> [] | es # _ \<Rightarrow> es) (emit [OWait ms] a) = Some b"
    by (auto split: option.splits)
  have "grows a (emit [OWait ms] a)" by (rule grows_emit) simp
  also note grows_drain [OF b]
  also have "grows b a'" using 2 b by simp
  finally show ?case .
qed simp

lemma grows_deferred: "perform_deferred_ops env evs d a = Some a' \<Longrightarrow> grows a a'"
  by (auto simp: perform_deferred_ops_def dest!: grows_wait_all intro!: grows_trans [OF _ grows_emit] simp: list_all_iff)

lemma grows_apply_side_effects:
  assumes "apply_side_effects env ef committed a = Some (r, a')" "in_order (al_state a) \<Longrightarrow> in_order committed"
  shows "grows a a'"
proof (cases "check_recipients (al_registry a) (ef_agent_messages ef)")
  case None
  then obtain d where "apply_committed env ef committed a = Some (d, a')"
    using assms(1) by (auto simp: apply_side_effects_def)
  then have "grows (commit_state committed a) a'" by (rule grows_apply_committed)
  moreover have "grows a (commit_state committed a)"
    using assms(2) by (intro grows_frame [where os = "[]"]) simp_all
  ultimately show ?thesis by (blast intro: grows_trans)
qed (use assms in \<open>auto simp: apply_side_effects_def\<close>)

lemma grows_done_result: "grows a (a\<lparr>al_done_result := x\<rparr>)"
  by (rule grows_frame [where os = "[]"]) simp_all

lemma grows_finish_turn:
  assumes "finish_turn env evs code r a = Some (d, a')"
    and "\<And>s. \<lbrakk>er_committed r = Some s; in_order (al_state a)\<rbrakk> \<Longrightarrow> in_order s"
  shows "grows a a'"
proof (cases "er_is_error r")
  case True
  with assms(1) show ?thesis by (auto simp: finish_turn_def grows_record_turn)
next
  case False
  let ?b = "if ef_done_called (er_effects r) then a\<lparr>al_done_result := ef_done_result (er_effects r)\<rparr> else a"
  obtain s res b where s: "er_committed r = Some s" and b: "apply_side_effects env (er_effects r) s ?b = Some (res, b)"
    using assms(1) False by (fastforce simp: finish_turn_def Let_def split: option.splits)
  have "grows a ?b" by (simp add: grows_done_result)
  also have "grows ?b b"
    using b assms(2) [OF s] by (rule grows_apply_side_effects) (simp split: if_splits)
  also have "grows b a'"
    using assms(1) False s b
    by (auto simp: finish_turn_def Let_def grows_record_turn split: sum.splits
        intro: grows_trans [OF grows_deferred grows_record_turn])
  finally show ?thesis .
qed

lemma commit_in_order:
  assumes "execute_with_timeout n c interp code s = Some r" "er_committed r = Some s'" "in_order s"
  shows "in_order s'"
proof -
  have "subseq (wq_items (work_queue s')) (wq_items (work_queue s))"
    using commit_whole [OF assms(1,2) queue_shrinks.script_invariant_axioms [of c "wq_items (work_queue s)"]] by auto
  moreover have "hooks_ordered (hooks s')"
    using commit_whole [OF assms(1,2) hooks_kept.script_invariant_axioms [of c]] assms(3) by (auto simp: in_order_def)
  moreover have "whole_timers (timer_manager s')"
    using commit_whole [OF assms(1,2) whole.script_invariant_axioms [of c]] assms(3) by (auto simp: in_order_def)
  moreover have "set (wq_items (work_queue s')) \<subseteq> set (wq_items (work_queue s))"
    using list_emb_set [OF calculation(1)] by auto
  ultimately show ?thesis
    using assms(3) queue_sorted_subseq whole_queue_subset by (auto simp: in_order_def)
qed

lemma grows_execute_turn: "execute_turn env evs code a = Some (d, a') \<Longrightarrow> grows a a'"
  unfolding execute_turn_def
  by (auto split: option.splits elim!: grows_finish_turn dest: commit_in_order)

lemma record_usage_frame:
  assumes "record_usage env r a = Some b"
  shows "al_turn_counter b = al_turn_counter a + 1" "al_permissions b = al_permissions a"
    "al_max_children b = al_max_children a" "al_active_children b = al_active_children a" "al_out b = al_out a"
    "in_order (al_state b) = in_order (al_state a)"
  using assms by (auto simp: record_usage_def Let_def upd_state_def in_order_def split: option.splits)

text \<open>What holds between the rounds of the loop.\<close>

definition loop_ok :: "agent_loop \<Rightarrow> bool" where
  "loop_ok a \<longleftrightarrow> in_order (al_state a) \<and> (\<forall>s. OSaveState s \<in> set (al_out a) \<longrightarrow> in_order s) \<and>
     al_active_children a \<le> al_max_children a \<and>
     (case max_turns (al_permissions a) of None \<Rightarrow> True | Some m \<Rightarrow> al_turn_counter a \<le> m)"

lemma no_save: "list_all (\<lambda>x. \<not> is_save x) os \<Longrightarrow> OSaveState s \<notin> set os"
  by (induction os) auto

lemma loop_ok_grows: "\<lbrakk>grows a b; loop_ok a\<rbrakk> \<Longrightarrow> loop_ok b"
  by (auto simp: grows_def within_def loop_ok_def no_save split: option.splits)

lemma grows_permissions: "grows a b \<Longrightarrow> al_permissions b = al_permissions a"
  by (simp add: grows_def within_def)

lemma run_turn_cases:
  assumes "run_turn env call evs a = Some (res, a')"
  shows "(\<exists>e. res = Inl e) \<and> grows a a' \<or>
     (\<exists>d b r. res = Inr d \<and> grows a b \<and> (\<exists>c. record_usage env r b = Some c \<and> grows c a'))"
proof -
  let ?b = "al_broadcast (BStatus ''thinking'') (put_snapshot env ''thinking'' a)"
  have b: "grows a ?b" by (rule grows_trans [OF grows_snapshot grows_al_broadcast])
  obtain rendered x where x: "turn_context env a = Some rendered"
      "call rendered (ax_pinned env) (al_name ?b) (al_turn_counter ?b) (sensitive_values env (al_state ?b)) = Some x"
    using assms by (auto simp: run_turn_def Let_def split: option.splits)
  show ?thesis
  proof (cases x)
    case (Inl e)
    with assms x b show ?thesis by (auto simp: run_turn_def Let_def)
  next
    case (Inr r)
    then obtain c where c: "record_usage env r ?b = Some c"
      using assms x by (auto simp: run_turn_def Let_def split: option.splits)
    then obtain d where "execute_turn env evs (tr_code r) (show_status env ''executing'' c) = Some (d, a')" "res = Inr d"
      using assms x Inr by (auto simp: run_turn_def Let_def)
    with b c show ?thesis
      by (blast intro: grows_trans [OF grows_show_status grows_execute_turn])
  qed
qed

lemma loop_ok_run_turn:
  assumes "run_turn env call evs a = Some (res, a')" "loop_ok a" "over_limit a = None"
  shows "loop_ok a' \<and> al_permissions a' = al_permissions a"
  using run_turn_cases [OF assms(1)]
proof (elim disjE exE conjE)
  fix d b r c
  assume g: "grows a b" "record_usage env r b = Some c" "grows c a'"
  note f = record_usage_frame [OF g(2)]
  have "loop_ok c"
  proof (cases "max_turns (al_permissions a)")
    case None
    with g(1) assms(2) f show ?thesis by (auto simp: loop_ok_def grows_def within_def no_save)
  next
    case (Some m)
    with assms(3) have "al_turn_counter a < m" by (auto simp: over_limit_def split: if_splits)
    then have "al_turn_counter a + 1 \<le> m" by (rule inc_le)
    with Some g(1) assms(2) f show ?thesis by (auto simp: loop_ok_def grows_def within_def no_save)
  qed
  then have "loop_ok a'" by (rule loop_ok_grows [OF g(3)])
  moreover have "al_permissions a' = al_permissions a" using g f by (simp add: grows_def within_def)
  ultimately show ?thesis by simp
qed (use assms loop_ok_grows [of a a'] grows_permissions [of a a'] in blast)

fun step_agent :: "step_result \<Rightarrow> agent_loop" where
  "step_agent (Continue i a) = a"
| "step_agent (Finished r a) = a"

lemma finished_eq [simp]: "finished env r a = Finished r (put_snapshot env (as_status_str r) a)"
  by (simp add: finished_def al_finish_def)

lemma put_snapshot_frame [simp]:
  "al_permissions (put_snapshot env st a) = al_permissions a" "al_turn_counter (put_snapshot env st a) = al_turn_counter a"
  "al_killed (put_snapshot env st a) = al_killed a" "al_state (put_snapshot env st a) = al_state a"
  "loop_ok (put_snapshot env st a) = loop_ok a"
  by (simp_all add: put_snapshot_def loop_ok_def split: option.splits)

lemma loop_ok_save: "loop_ok a \<Longrightarrow> loop_ok (save_if_root a) \<and> al_permissions (save_if_root a) = al_permissions a"
  by (auto simp: save_if_root_def loop_ok_def emit_def split: option.splits)

lemma idle_wait_grows: "idle_wait li idle a = Some res \<Longrightarrow> grows a (step_agent res)"
proof -
  assume w: "idle_wait li idle a = Some res"
  let ?b = "if idle then a else al_broadcast (BStatus ''idle'') (put_snapshot (li_env li) ''idle'' a)"
  have "grows a ?b" by (auto intro: grows_trans [OF grows_snapshot grows_al_broadcast])
  moreover have "grows ?b (step_agent res)"
    using w by (auto simp: idle_wait_def Let_def grows_snapshot grows_event grows_check_timers split: wait_result.splits)
  ultimately show ?thesis by (rule grows_trans)
qed

text \<open>The reasons for which a round ends the loop.\<close>

definition reason_ok :: "agent_loop \<Rightarrow> finish_reason \<Rightarrow> bool" where
  "reason_ok a r \<longleftrightarrow> (\<forall>n. r = MaxTurns n \<longrightarrow> max_turns (al_permissions a) = Some n \<and> al_turn_counter a = n) \<and>
     (r = Killed \<longrightarrow> al_killed a)"

lemma active_turn_ok:
  assumes "active_turn li idle a = Some res" "loop_ok a"
  shows "loop_ok (step_agent res) \<and> al_permissions (step_agent res) = al_permissions a \<and>
    (\<forall>r b. res = Finished r b \<longrightarrow> reason_ok b r)"
proof -
  let ?b = "if idle then flush_hook_telemetry (li_env li) a else a"
  have g: "grows a ?b" by (auto simp: grows_flush)
  then have ok: "loop_ok ?b" using assms(2) by (rule loop_ok_grows)
  show ?thesis
  proof (cases "al_killed ?b")
    case True
    with assms(1) ok grows_permissions [OF g] show ?thesis
      by (auto simp: active_turn_def Let_def reason_ok_def)
  next
    case alive: False
    show ?thesis
    proof (cases "over_limit ?b")
      case (Some m)
      with ok have "max_turns (al_permissions ?b) = Some m \<and> al_turn_counter ?b = m"
        by (auto simp: over_limit_def loop_ok_def split: option.splits if_splits)
      with Some alive assms(1) ok grows_permissions [OF g] show ?thesis
        by (auto simp: active_turn_def Let_def reason_ok_def)
    next
      case None
      show ?thesis
      proof (cases "li_mid_shutdown li")
        case True
        let ?c = "al_broadcast (BStatus ''thinking'') (put_snapshot (li_env li) ''thinking'' ?b)"
        have "grows ?b ?c" by (rule grows_trans [OF grows_snapshot grows_al_broadcast])
        with ok have "loop_ok ?c" "al_permissions ?c = al_permissions ?b" by (auto intro: loop_ok_grows grows_permissions)
        with True None alive assms(1) grows_permissions [OF g] show ?thesis
          by (auto simp: active_turn_def Let_def reason_ok_def)
      next
        case False
        with assms(1) None alive obtain x c where t: "run_turn (li_env li) (li_call li) (li_deferred li) ?b = Some (x, c)"
          by (auto simp: active_turn_def Let_def split: option.splits)
        note c = loop_ok_run_turn [OF t ok None]
        have "loop_ok (save_if_root c) \<and> al_permissions (save_if_root c) = al_permissions c"
          using c loop_ok_save by auto
        with c t None alive False assms(1) grows_permissions [OF g] show ?thesis
          by (auto simp: active_turn_def Let_def reason_ok_def split: sum.splits if_splits)
      qed
    qed
  qed
qed

lemma loop_step_ok:
  assumes "loop_step li idle a = Some res" "loop_ok a"
  shows "loop_ok (step_agent res) \<and> al_permissions (step_agent res) = al_permissions a \<and>
    (\<forall>r b. res = Finished r b \<longrightarrow> reason_ok b r)"
proof -
  obtain b where b: "drain_events (li_env li) (li_drained li) a = Some b"
    using assms(1) by (auto simp: loop_step_def Let_def split: option.splits)
  obtain c where c: "check_timers (li_env li) b = Some c"
    using assms(1) b by (auto simp: loop_step_def Let_def split: option.splits)
  let ?d = "trigger_if_full (li_env li) c"
  have g: "grows a ?d"
    unfolding trigger_if_full_def
    by (rule grows_trans [OF grows_trans [OF grows_drain [OF b] grows_check_timers [OF c]] grows_request_compaction])
  then have ok: "loop_ok ?d" and perm: "al_permissions ?d = al_permissions a"
    using assms(2) by (auto intro: loop_ok_grows grows_permissions)
  consider (shut) "res = finished (li_env li) Shutdown ?d" | (idle) "idle_wait li idle ?d = Some res" | (turn) "active_turn li idle ?d = Some res"
    using assms(1) b c by (auto simp: loop_step_def Let_def split: if_splits)
  then show ?thesis
  proof cases
    case shut
    with ok perm show ?thesis by (simp add: reason_ok_def)
  next
    case idle
    have "reason_ok e r" if "res = Finished r e" for r e
      using idle that by (auto simp: idle_wait_def Let_def reason_ok_def split: wait_result.splits)
    with idle_wait_grows [OF idle] ok perm show ?thesis by (auto dest: loop_ok_grows grows_permissions)
  next
    case turn
    from active_turn_ok [OF turn ok] perm show ?thesis by auto
  qed
qed

section \<open>Properties\<close>


definition sample_input :: loop_input where
  "sample_input = \<lparr>li_env = sample_agent_env, li_call = (\<lambda>r p n t v. Some (Inl ''offline'')), li_drained = [HEKillSignal],
     li_shutdown = False, li_wait = WTimer, li_mid_shutdown = False, li_deferred = []\<rparr>"

definition sample_busy :: agent_loop where
  "sample_busy = sample_agent\<lparr>al_state := (hs_new 0 0)\<lparr>work_queue := \<lparr>wq_items = [sample_item 1 5 0]\<rparr>\<rparr>\<rparr>"

lemma quiet_timers: "tm_timers (timer_manager (al_state a)) = [] \<Longrightarrow> check_timers env a = Some (upd_state id a)"
  by (auto simp: check_timers_def check_and_fire_def upd_state_def split: prod.splits)

lemma sample_busy_run:
  "loop_run [sample_input] False sample_busy = Some (finished sample_agent_env Killed (sample_busy\<lparr>al_killed := True\<rparr>))"
  by (simp add: loop_step_def sample_input_def drain_events_def quiet_timers sample_busy_def hs_new_def tm_new_def
      trigger_if_full_def request_compaction_effect_def should_trigger_def wq_is_empty_def active_turn_def upd_state_def
      sample_agent_def al_new_def finished_def al_finish_def)


definition quiet_input :: "loop_input \<Rightarrow> bool" where
  "quiet_input li \<longleftrightarrow> set (li_drained li) \<subseteq> {HEKillSignal} \<and> \<not> li_shutdown li \<and> li_wait li \<in> {WTimer, WEvent HEKillSignal}"

definition nothing_to_do :: "agent_loop \<Rightarrow> bool" where
  "nothing_to_do a \<longleftrightarrow> wq_items (work_queue (al_state a)) = [] \<and> tm_timers (timer_manager (al_state a)) = [] \<and>
     last_total_input_tokens (al_state a) \<le> cf_compact_at (al_config a)"

lemma drain_kill_signals:
  "set evs \<subseteq> {HEKillSignal} \<Longrightarrow> drain_events env evs a = Some (if evs = [] then a else a\<lparr>al_killed := True\<rparr>)"
  unfolding drain_events_def by (induction evs arbitrary: a) auto

lemma quiet_step:
  assumes "quiet_input li" "nothing_to_do a" "al_killed a"
  shows "\<exists>a'. loop_step li idle a = Some (Continue True a') \<and> nothing_to_do a' \<and> al_killed a'"
proof -
  have k: "a\<lparr>al_killed := True\<rparr> = a" using assms(3) by simp
  then have d: "drain_events (li_env li) (li_drained li) a = Some a"
    using assms(1) by (simp add: quiet_input_def drain_kill_signals)
  have t: "check_timers env b = Some b" if "nothing_to_do b" for b env
    using that quiet_timers [of b env] by (simp add: nothing_to_do_def upd_state_def)
  have i: "trigger_if_full (li_env li) a = a"
    using assms(2) by (simp add: trigger_if_full_def request_compaction_effect_def should_trigger_def nothing_to_do_def)
  have n: "nothing_to_do (al_broadcast m (put_snapshot env st a)) \<and> al_killed (al_broadcast m (put_snapshot env st a))" for m env st
    using assms(2,3) by (simp add: nothing_to_do_def al_broadcast_def put_snapshot_def emit_def)
  have "\<exists>a'. idle_wait li idle a = Some (Continue True a') \<and> nothing_to_do a' \<and> al_killed a'"
    using assms n t by (auto simp: idle_wait_def quiet_input_def Let_def nothing_to_do_def [of "_\<lparr>al_killed := _\<rparr>"] nothing_to_do_def [symmetric])
  with d t [OF assms(2)] i assms show ?thesis
    by (simp add: loop_step_def quiet_input_def nothing_to_do_def wq_is_empty_def)
qed

text \<open>An idle agent does not die. The kill flag is looked at only before a turn, and there
  is no turn while the queue is empty: an agent with nothing to do and no timers goes on
  waiting whatever number of kill signals it gets (nothing else happening), although its
  parent's \<open>kill_child\<close> is the only thing that stops a child without a turn limit.\<close>

theorem idle_agent_ignores_kill:
  assumes "list_all quiet_input lis" "nothing_to_do a" "al_killed a"
  shows "\<exists>idle' a'. loop_run lis idle a = Some (Continue idle' a') \<and> al_killed a'"
  using assms
proof (induction lis arbitrary: idle a)
  case (Cons li lis)
  with quiet_step [of li a idle] obtain b where "loop_step li idle a = Some (Continue True b)" "nothing_to_do b" "al_killed b"
    by auto
  with Cons.IH [of b True] Cons.prems(1) show ?case by simp
qed simp

theorem idle_agent_ignores_kill_witness:
  "\<exists>idle' a'. loop_run (replicate 100 sample_input) True (sample_agent\<lparr>al_state := hs_new 0 0, al_killed := True\<rparr>) =
     Some (Continue idle' a') \<and> al_killed a'"
  by (rule idle_agent_ignores_kill)
    (simp_all add: list_all_iff sample_input_def quiet_input_def nothing_to_do_def hs_new_def wq_new_def tm_new_def sample_agent_def)

lemma record_turn_last:
  "\<exists>i t es. eh_entries (event_history (al_state (record_turn env code out e a))) = es @ [Execution i t code out e] \<and>
     es = eh_entries (event_history (al_state a))"
proof -
  obtain i b where d: "al_draw a = (i, b)" by fastforce
  have "event_history (al_state b) = event_history (al_state a)" using al_draw_state [OF d] by simp
  with d show ?thesis by (simp add: record_turn_def push_history_def eh_push_def)
qed

lemma finish_turn_records:
  assumes "finish_turn env evs code r a = Some (d, a')"
  obtains out e b where "a' = record_turn env code out e b" "d \<longrightarrow> \<not> e"
proof (cases "er_is_error r")
  case True
  with assms that [of "error_output (er_error_text r)" True a] show ?thesis by (simp add: finish_turn_def)
next
  case False
  define a0 where "a0 = (if ef_done_called (er_effects r) then a\<lparr>al_done_result := ef_done_result (er_effects r)\<rparr> else a)"
  from False assms obtain s res b where
    f: "apply_side_effects env (er_effects r) s a0 = Some (res, b)" "er_committed r = Some s"
    by (auto simp: finish_turn_def Let_def a0_def split: option.splits)
  show ?thesis
  proof (cases res)
    case (Inl msg)
    with False f assms that [of "error_output msg" True b] show ?thesis
      by (simp add: finish_turn_def Let_def a0_def [symmetric])
  next
    case (Inr ops)
    with False f assms that [of "er_stdout r" False] show ?thesis by (auto simp: finish_turn_def Let_def a0_def [symmetric])
  qed
qed

text \<open>Every executed turn leaves a record of itself as the newest history entry, with the code that
  ran; the agent counts as done only if that record is no error.\<close>

theorem turn_leaves_record:
  assumes "execute_turn env evs code a = Some (d, a')"
  shows "\<exists>es i t out e. eh_entries (event_history (al_state a')) = es @ [Execution i t code out e] \<and> (d \<longrightarrow> \<not> e)"
proof -
  obtain r where "finish_turn env evs code r a = Some (d, a')"
    using assms by (auto simp: execute_turn_def split: option.splits)
  then obtain out e b where "a' = record_turn env code out e b" "d \<longrightarrow> \<not> e"
    by (rule finish_turn_records)
  with record_turn_last [of env code out e b] show ?thesis by auto
qed

theorem turn_leaves_record_witness:
  "\<exists>d a' es i t out e. execute_turn sample_agent_env [] ''pass'' sample_busy = Some (d, a') \<and>
     eh_entries (event_history (al_state a')) = es @ [Execution i t ''pass'' out e]"
proof -
  have "\<exists>d a'. execute_turn sample_agent_env [] ''pass'' sample_busy = Some (d, a')"
    by (auto simp: execute_turn_def execute_with_timeout_def execute_inner_def thread_of_def sample_agent_env_def nul_def turn_ctx_def
        sample_busy_def sample_agent_def al_new_def cm_new_def committed_run_def finish_turn_def no_effects_def
        apply_side_effects_def check_recipients_def apply_committed_def push_view_def append_script_def
        request_compaction_effect_def run_compaction_def Let_def emit_def perform_deferred_ops_def commit_state_def)
  then show ?thesis using turn_leaves_record by blast
qed

text \<open>A result that was rolled back stays. When a turn calls \<open>done\<close> and the effects are refused
  (a message to an unknown agent), the turn counts as an error and the agent goes on, but the
  result is kept, and when the agent then ends for another reason (its turn limit, a kill)
  its parent receives that result.\<close>

theorem rolled_back_result_reported:
  assumes "finish_turn env evs code r a = Some (d, a')" "\<not> er_is_error r" "ef_done_called (er_effects r)"
    and "m \<in> set (ef_agent_messages (er_effects r))" "map_of (ar_agents (al_registry a)) (am_recipient m) = None"
  shows "\<not> d \<and> (\<exists>t success summary prio' i out cc cr'. snd (end_child nm prio (MaxTurns n) a') =
     HEChildCompleted nm (ef_done_result (er_effects r)) t success summary prio' i out cc cr')"
proof -
  define b where "b = a\<lparr>al_done_result := ef_done_result (er_effects r)\<rparr>"
  obtain s where s: "er_committed r = Some s"
    using assms by (auto simp: finish_turn_def Let_def split: option.splits)
  have "check_recipients (al_registry b) (ef_agent_messages (er_effects r)) \<noteq> None"
    using assms(4,5) by (auto simp: check_recipients_None b_def)
  then obtain e where e: "check_recipients (al_registry b) (ef_agent_messages (er_effects r)) = Some e" by auto
  have "d = False" "a' = record_turn env code (error_output e) True b"
    using assms(1-3) s e by (simp_all add: finish_turn_def Let_def apply_side_effects_def b_def [symmetric])
  moreover have "al_done_result (record_turn env code (error_output e) True b) = ef_done_result (er_effects r)"
    by (simp add: record_turn_def al_draw_def split_beta upd_state_def b_def)
  ultimately show ?thesis by (auto simp: end_child_def Let_def split_beta)
qed

definition retracted :: execution_result where
  "retracted = \<lparr>er_stdout = [], er_is_error = False, er_error_text = [],
     er_effects = no_effects\<lparr>ef_done_called := True, ef_done_result := [(''ok'', JBool True)],
       ef_agent_messages := [\<lparr>am_recipient = ''x'', am_content = [], am_priority = 6\<rparr>]\<rparr>,
     er_committed = Some sample_state\<rparr>"

theorem rolled_back_result_reported_witness:
  "\<exists>a' t success summary p i out cc cr'. finish_turn sample_agent_env [] ''pass'' retracted sample_agent = Some (False, a') \<and>
     snd (end_child ''worker'' 6 (MaxTurns 20) a') = HEChildCompleted ''worker'' [(''ok'', JBool True)] t success summary p i out cc cr'"
proof -
  obtain d a' where f: "finish_turn sample_agent_env [] ''pass'' retracted sample_agent = Some (d, a')"
    by (auto simp: finish_turn_def Let_def retracted_def apply_side_effects_def check_recipients_def ar_exists_def sample_agent_def
        al_new_def ar_new_def)
  have r: "\<not> er_is_error retracted" "ef_done_called (er_effects retracted)" "ef_done_result (er_effects retracted) = [(''ok'', JBool True)]"
    "\<lparr>am_recipient = ''x'', am_content = [], am_priority = 6\<rparr> \<in> set (ef_agent_messages (er_effects retracted))"
    by (simp_all add: retracted_def)
  have "map_of (ar_agents (al_registry sample_agent)) (am_recipient \<lparr>am_recipient = ''x'', am_content = [], am_priority = 6\<rparr>) = None"
    by (simp add: sample_agent_def al_new_def ar_new_def)
  from rolled_back_result_reported [OF f r(1,2,4) this, of "''worker''" 6 20] f r(3) show ?thesis by auto
qed

end
