(* ===== verification/Database.thy ===== *)
theory Database
  imports Agent_Run
begin

text \<open>
  The database (\<open>Database\<close> of src/src/db.rs): its tables as association lists and the effect of
  each statement on them. Serialization of the state is a parameter of the operations that use
  it; that SQLite itself fails is not modelled. \<open>apply_output\<close> carries out what an agent loop
  writes to the database.
\<close>

section \<open>Tables\<close>

record outbound_row =
  ob_id :: nat
  ob_chat_id :: string
  ob_content :: string
  ob_attachments :: "string list"
  ob_created_at :: string

record database =
  db_state_json :: "string option" \<comment> \<open>harness\_state, its one row\<close>
  db_process_output :: "(string, string) hmap"
  db_outbound :: "outbound_row list"
  db_last_rowid :: nat \<comment> \<open>the largest id ever given, which AUTOINCREMENT remembers\<close>
  db_pinned :: "(string, string) hmap"

definition db_new :: database where
  "db_new = \<lparr>db_state_json = None, db_process_output = [], db_outbound = [], db_last_rowid = 0, db_pinned = []\<rparr>"

section \<open>Statements\<close>

definition save_state :: "(harness_state \<Rightarrow> string option) \<Rightarrow> harness_state \<Rightarrow> database \<Rightarrow> database option" where
  "save_state enc s d = map_option (\<lambda>j. d\<lparr>db_state_json := Some j\<rparr>) (enc s)"

text \<open>Outside: the error; inside: no row, or the state.\<close>

definition load_state :: "(string \<Rightarrow> harness_state option) \<Rightarrow> database \<Rightarrow> harness_state option option" where
  "load_state dec d = (case db_state_json d of None \<Rightarrow> Some None | Some j \<Rightarrow> map_option Some (dec j))"

definition append_process_output :: "string \<Rightarrow> string \<Rightarrow> database \<Rightarrow> database" where
  "append_process_output pid chunk d =
     d\<lparr>db_process_output := AList.update pid
         ((case map_of (db_process_output d) pid of Some output \<Rightarrow> output | None \<Rightarrow> []) @ chunk) (db_process_output d)\<rparr>"

definition load_process_output :: "string \<Rightarrow> database \<Rightarrow> string" where
  "load_process_output pid d = (case map_of (db_process_output d) pid of Some output \<Rightarrow> output | None \<Rightarrow> [])"

definition load_all_process_outputs :: "database \<Rightarrow> (string, string) hmap" where
  "load_all_process_outputs d = fold (\<lambda>(pid, output). AList.update pid output) (db_process_output d) []"

definition save_outbound_message ::
  "string \<Rightarrow> string \<Rightarrow> string \<Rightarrow> string list \<Rightarrow> database \<Rightarrow> nat \<times> database" where
  "save_outbound_message now chat content att d =
     (let i = db_last_rowid d + 1
      in (i, d\<lparr>db_outbound := db_outbound d @ [\<lparr>ob_id = i, ob_chat_id = chat, ob_content = content, ob_attachments = att,
               ob_created_at = now\<rparr>], db_last_rowid := i\<rparr>))"

text \<open>\<open>ORDER BY created_at\<close> says nothing of rows of the same second: the order is a parameter.\<close>

definition time_ordered :: "(outbound_row list \<Rightarrow> outbound_row list) \<Rightarrow> bool" where
  "time_ordered order \<longleftrightarrow> (\<forall>rows. mset (order rows) = mset rows \<and> sorted (map ob_created_at (order rows)))"

definition load_outbound_messages ::
  "(outbound_row list \<Rightarrow> outbound_row list) \<Rightarrow> string \<Rightarrow> database \<Rightarrow> outbound_row list" where
  "load_outbound_messages order chat d = order (filter (\<lambda>r. ob_chat_id r = chat) (db_outbound d))"

definition load_pinned :: "database \<Rightarrow> (string \<times> string) list" where
  "load_pinned d = sort_key fst (db_pinned d)"

definition save_pin :: "string \<Rightarrow> string \<Rightarrow> database \<Rightarrow> database" where
  "save_pin k content d = d\<lparr>db_pinned := AList.update k content (db_pinned d)\<rparr>"

definition delete_pin :: "string \<Rightarrow> database \<Rightarrow> database" where
  "delete_pin k d = d\<lparr>db_pinned := AList.delete k (db_pinned d)\<rparr>"

section \<open>What an agent loop writes\<close>

text \<open>A failed save is reported and the old row stays.\<close>

fun apply_output :: "(harness_state \<Rightarrow> string option) \<Rightarrow> string \<Rightarrow> agent_output \<Rightarrow> database \<Rightarrow> database" where
  "apply_output enc now (OSaveMessage chat content att) d = snd (save_outbound_message now chat content att d)"
| "apply_output enc now (OPin k content) d = save_pin k content d"
| "apply_output enc now (OUnpin k) d = delete_pin k d"
| "apply_output enc now (OSaveState s) d = (case save_state enc s d of Some d' \<Rightarrow> d' | None \<Rightarrow> d)"
| "apply_output enc now x d = d"

definition apply_outputs :: "(harness_state \<Rightarrow> string option) \<Rightarrow> string \<Rightarrow> agent_output list \<Rightarrow> database \<Rightarrow> database" where
  "apply_outputs enc now = fold (apply_output enc now)"

section \<open>Invariant\<close>

text \<open>The primary keys of the tables, and the ids of messages in the order they were saved.\<close>

definition db_ok :: "database \<Rightarrow> bool" where
  "db_ok d \<longleftrightarrow> distinct (map fst (db_process_output d)) \<and> distinct (map fst (db_pinned d)) \<and>
     sorted_wrt (<) (map ob_id (db_outbound d)) \<and> (\<forall>r \<in> set (db_outbound d). ob_id r \<le> db_last_rowid d)"

lemma db_ok_new: "db_ok db_new"
  by (simp add: db_ok_def db_new_def)

lemma db_ok_append: "db_ok d \<Longrightarrow> db_ok (append_process_output pid chunk d)"
  by (simp add: db_ok_def append_process_output_def distinct_update)

lemma db_ok_message: "db_ok d \<Longrightarrow> db_ok (snd (save_outbound_message now chat content att d))"
  by (force simp: db_ok_def save_outbound_message_def Let_def sorted_wrt_append)

lemma db_ok_pin: "db_ok d \<Longrightarrow> db_ok (save_pin k content d)" "db_ok d \<Longrightarrow> db_ok (delete_pin k d)"
  by (simp_all add: db_ok_def save_pin_def delete_pin_def distinct_update distinct_delete)

lemma db_ok_state: "db_ok d \<Longrightarrow> save_state enc s d = Some d' \<Longrightarrow> db_ok d'"
  by (auto simp: db_ok_def save_state_def)

lemma db_ok_output: "db_ok d \<Longrightarrow> db_ok (apply_output enc now x d)"
  by (cases x) (auto intro: db_ok_message db_ok_pin db_ok_state split: option.splits)

lemma db_ok_outputs: "db_ok d \<Longrightarrow> db_ok (apply_outputs enc now xs d)"
  unfolding apply_outputs_def by (induction xs arbitrary: d) (auto intro: db_ok_output)

lemma map_of_sort_key:
  assumes "distinct (map fst xs)"
  shows "map_of (sort_key fst xs) = map_of xs"
proof -
  have "distinct (map fst (sort_key fst xs))"
    using assms by (simp add: mset_eq_imp_distinct_iff [of "map fst (sort_key fst xs)" "map fst xs"])
  then show ?thesis using assms by (intro map_of_eqI) (auto simp: map_of_eq_Some_iff)
qed

section \<open>Properties\<close>

text \<open>The pinned memory as a map from keys to texts, and what an output does to it.\<close>

fun pin_effect :: "agent_output \<Rightarrow> (string \<rightharpoonup> string) \<Rightarrow> (string \<rightharpoonup> string)" where
  "pin_effect (OPin k content) m = m(k \<mapsto> content)"
| "pin_effect (OUnpin k) m = m(k := None)"
| "pin_effect x m = m"

lemma pinned_output: "map_of (db_pinned (apply_output enc now x d)) = pin_effect x (map_of (db_pinned d))"
  by (cases x) (auto simp: save_pin_def delete_pin_def update_conv' delete_conv' save_outbound_message_def Let_def
      save_state_def restrict_map_def split: option.splits)

text \<open>C15: the pinned memory in the database refines a map. After any outputs of agents, each key
  has the text it was last pinned with and none after it was unpinned, and what a turn reads
  is that map in one fixed order (strictly ascending keys), so the cached system prompt does
  not depend on the order of the pins.\<close>

theorem pins_refine_map:
  assumes "db_ok d"
  shows "map_of (load_pinned (apply_outputs enc now xs d)) = fold pin_effect xs (map_of (load_pinned d)) \<and>
     sorted_wrt (<) (map fst (load_pinned (apply_outputs enc now xs d)))"
proof -
  have ok: "db_ok (apply_outputs enc now xs d)" using assms by (rule db_ok_outputs)
  have m: "map_of (load_pinned e) = map_of (db_pinned e)" if "db_ok e" for e
    using that by (simp add: load_pinned_def db_ok_def map_of_sort_key)
  have "map_of (db_pinned (apply_outputs enc now xs d)) = fold pin_effect xs (map_of (db_pinned d))"
    unfolding apply_outputs_def by (induction xs arbitrary: d) (simp_all add: pinned_output)
  moreover have "distinct (map fst (load_pinned (apply_outputs enc now xs d)))"
    using ok by (simp add: db_ok_def load_pinned_def mset_eq_imp_distinct_iff [of "map fst (sort_key fst (db_pinned _))" "map fst (db_pinned _)"])
  ultimately show ?thesis
    using m [OF ok] m [OF assms] by (simp add: strict_sorted_iff load_pinned_def)
qed

theorem pins_refine_map_witness:
  "load_pinned (apply_outputs (\<lambda>s. None) ''t'' [OPin ''b'' ''1'', OPin ''a'' ''2'', OPin ''b'' ''3'', OUnpin ''a''] db_new) = [(''b'', ''3'')] \<and>
   map_of (load_pinned (apply_outputs (\<lambda>s. None) ''t'' [OPin ''b'' ''1'', OPin ''a'' ''2'', OPin ''b'' ''3'', OUnpin ''a''] db_new)) =
     fold pin_effect [OPin ''b'' ''1'', OPin ''a'' ''2'', OPin ''b'' ''3'', OUnpin ''a''] (map_of (load_pinned db_new))"
  using pins_refine_map [OF db_ok_new]
  by (simp add: apply_outputs_def load_pinned_def save_pin_def delete_pin_def db_new_def)

text \<open>The stored output of a process id is the concatenation of the chunks appended under it,
  in order, whatever was appended to others in between. Nothing separates two processes that
  were given the same id (\<open>child_repeats_parent_ids\<close>): their outputs are one text.\<close>

theorem process_output_concat:
  "load_process_output pid (fold (\<lambda>(p, chunk). append_process_output p chunk) xs d) =
     load_process_output pid d @ concat (map snd (filter (\<lambda>x. fst x = pid) xs))"
proof (induction xs arbitrary: d)
  case (Cons x xs)
  obtain p chunk where x: "x = (p, chunk)" by fastforce
  have "load_process_output pid (append_process_output p chunk d) =
      load_process_output pid d @ (if p = pid then chunk else [])"
    by (simp add: load_process_output_def append_process_output_def update_conv' split: option.splits)
  with Cons.IH [of "append_process_output p chunk d"] x show ?case by simp
qed simp

end
