(* ===== verification/Config.thy ===== *)
theory Config
  imports Agent_Run
begin

text \<open>
  Configuration (src/src/config.rs): environment variables with their defaults, the credential
  and the guard rails of bearer tokens. What the process finds is in the environment
  \<open>cenv\<close>: its variables, whether it has a terminal and what is typed there, the clock, and
  the library functions that parse addresses, floats, base64 and JSON. Paths are strings. An
  error is its text.
\<close>

section \<open>Data\<close>

datatype auth_credential = ApiKey string | Bearer string

fun is_bearer :: "auth_credential \<Rightarrow> bool" where
  "is_bearer (Bearer token) = True"
| "is_bearer (ApiKey k) = False"

record config =
  c_model :: string
  c_effort :: string
  c_auth :: auth_credential
  c_api_base_url :: string
  c_max_tokens :: nat
  c_context_window :: nat
  c_db_path :: string
  c_system_prompt_path :: string
  c_deployment_context_path :: "string option"
  c_listen_addr :: string
  c_compact_at :: nat
  c_compact_target :: nat
  c_render_config :: render_config
  c_python_timeout_secs :: nat
  c_prices :: prices

record cenv =
  ce_var :: "string \<Rightarrow> string option"
  ce_parse_addr :: "string \<Rightarrow> string option"
  ce_parse_f64 :: "string \<Rightarrow> f64 option"
  ce_floats :: float_ops
  ce_terminal :: bool
  ce_typed :: "string option" \<comment> \<open>a line of standard input\<close>
  ce_now :: time
  ce_base64 :: "string \<Rightarrow> string option"
  ce_json :: "string \<Rightarrow> json option"
  ce_debug_str :: "string \<Rightarrow> string"
  ce_debug_time :: "time \<Rightarrow> string"

section \<open>The credential\<close>

text \<open>The \<open>exp\<close> claim of a JWT, in nanoseconds since the epoch.\<close>

definition parse_jwt_exp :: "cenv \<Rightarrow> string \<Rightarrow> time option" where
  "parse_jwt_exp e token =
     (let parts = split_on (CHR ''.'') token in
      if length parts \<noteq> 3 then None
      else case Option.bind (ce_base64 e (parts ! 1)) (ce_json e) of
        None \<Rightarrow> None
      | Some j \<Rightarrow>
          (case Option.bind (json_get ''exp'' j) as_i64 of
             None \<Rightarrow> None
           | Some exp \<Rightarrow> if exp < 0 then None else Some (exp * 1000000000)))"

definition enforce_bearer_guardrails :: "cenv \<Rightarrow> string + unit" where
  "enforce_bearer_guardrails e =
     (let ack = (case ce_var e ''CLAUDE_SERVER_AUTH_ACK'' of
            Some v \<Rightarrow> v = ''1'' \<or> to_ascii_lowercase v = ''true'' | None \<Rightarrow> False)
      in if ack then Inr ()
         else if \<not> ce_terminal e then
           Inl (''bearer mode requires an interactive TTY (stdin is not a terminal). '' @
                ''Set CLAUDE_SERVER_AUTH_ACK=1 only if you understand the ToS implications.'')
         else case ce_typed e of
           None \<Rightarrow> Inl ''read acknowledgment''
         | Some l \<Rightarrow> if trim l \<noteq> ''I AGREE'' then Inl (''acknowledgment declined '' @ em_dash @ '' aborting startup'') else Inr ())"

definition non_empty :: "string option \<Rightarrow> string option" where
  "non_empty v = (case v of Some s \<Rightarrow> if s = [] then None else Some s | None \<Rightarrow> None)"

definition auth_from_env :: "cenv \<Rightarrow> string + auth_credential" where
  "auth_from_env e =
     (case (non_empty (ce_var e ''ANTHROPIC_API_KEY''), non_empty (ce_var e ''CLAUDE_SERVER_BEARER_TOKEN'')) of
        (Some k, Some t) \<Rightarrow> Inl ''ANTHROPIC_API_KEY and CLAUDE_SERVER_BEARER_TOKEN are mutually exclusive''
      | (Some k, None) \<Rightarrow> Inr (ApiKey k)
      | (None, Some t) \<Rightarrow>
          (case enforce_bearer_guardrails e of
             Inl err \<Rightarrow> Inl err
           | Inr u \<Rightarrow>
               (case parse_jwt_exp e t of
                  Some exp \<Rightarrow>
                    if exp \<le> ce_now e then Inl (''bearer token is already expired (exp: '' @ ce_debug_time e exp @ '')'')
                    else Inr (Bearer t)
                | None \<Rightarrow> Inr (Bearer t)))
      | (None, None) \<Rightarrow> Inl ''Either ANTHROPIC_API_KEY or CLAUDE_SERVER_BEARER_TOKEN must be set'')"

section \<open>The configuration\<close>

definition var_or :: "cenv \<Rightarrow> string \<Rightarrow> string \<Rightarrow> string" where
  "var_or e k d = (case ce_var e k of Some v \<Rightarrow> v | None \<Rightarrow> d)"

definition u64_or :: "cenv \<Rightarrow> string \<Rightarrow> nat \<Rightarrow> nat" where
  "u64_or e k d = (case Option.bind (ce_var e k) (parse_uint 64) of Some n \<Rightarrow> n | None \<Rightarrow> d)"

definition f64_or :: "cenv \<Rightarrow> string \<Rightarrow> string \<Rightarrow> f64" where
  "f64_or e k d = (case Option.bind (ce_var e k) (ce_parse_f64 e) of Some x \<Rightarrow> x | None \<Rightarrow> f_dec (ce_floats e) d)"

definition valid_effort :: "string list" where
  "valid_effort = [''low'', ''medium'', ''high'', ''xhigh'', ''max'']"

text \<open>\<open>(available as f64 * share) as u64\<close>, where the last conversion saturates.\<close>

definition share_of :: "cenv \<Rightarrow> string \<Rightarrow> nat \<Rightarrow> nat" where
  "share_of e share available =
     min (2 ^ 64 - 1) (f_to_nat (ce_floats e) (f_mul (ce_floats e) (f_nat (ce_floats e) available) (f_dec (ce_floats e) share)))"

definition bad_effort :: "cenv \<Rightarrow> string \<Rightarrow> string" where
  "bad_effort e effort =
     ''CLAUDE_SERVER_EFFORT must be one of ['' @ join '', '' (map (ce_debug_str e) valid_effort) @ ''], got '' @ ce_debug_str e effort"

definition from_env :: "cenv \<Rightarrow> string + config" where
  "from_env e =
     (case auth_from_env e of
        Inl err \<Rightarrow> Inl err
      | Inr auth \<Rightarrow>
          let effort = var_or e ''CLAUDE_SERVER_EFFORT'' ''high''
          in if effort \<notin> set valid_effort then Inl (bad_effort e effort)
          else case ce_parse_addr e (var_or e ''CLAUDE_SERVER_LISTEN'' ''127.0.0.1:3000'') of
            None \<Rightarrow> Inl ''Invalid listen address''
          | Some addr \<Rightarrow>
              let max_tokens = u64_or e ''CLAUDE_SERVER_MAX_TOKENS'' 16384;
                  context_window = u64_or e ''CLAUDE_SERVER_CONTEXT_WINDOW'' 1000000;
                  available = context_window - max_tokens
              in Inr \<lparr>c_model = var_or e ''CLAUDE_SERVER_MODEL'' ''claude-opus-4-8'', c_effort = effort, c_auth = auth,
                   c_api_base_url = var_or e ''CLAUDE_SERVER_API_URL'' ''https://api.anthropic.com'',
                   c_max_tokens = max_tokens, c_context_window = context_window,
                   c_db_path = var_or e ''CLAUDE_SERVER_DB'' ''claude-server.db'',
                   c_system_prompt_path = var_or e ''CLAUDE_SERVER_SYSTEM_PROMPT'' ''system_prompt.txt'',
                   c_deployment_context_path = ce_var e ''CLAUDE_SERVER_DEPLOYMENT_CONTEXT'', c_listen_addr = addr,
                   c_compact_at = u64_or e ''CLAUDE_SERVER_COMPACT_AT'' (share_of e ''0.8'' available),
                   c_compact_target = u64_or e ''CLAUDE_SERVER_COMPACT_TARGET'' (share_of e ''0.5'' available),
                   c_render_config = render_config_default (ce_var e ''CLAUDE_SERVER_CACHE_STRIDE'') (ce_var e ''CLAUDE_SERVER_CACHE_TIERS''),
                   c_python_timeout_secs = u64_or e ''CLAUDE_SERVER_PYTHON_TIMEOUT'' 5,
                   c_prices = \<lparr>cost_per_m_input = f64_or e ''CLAUDE_SERVER_COST_INPUT'' ''3.0'',
                     cost_per_m_output = f64_or e ''CLAUDE_SERVER_COST_OUTPUT'' ''15.0'',
                     cost_per_m_cache_read = f64_or e ''CLAUDE_SERVER_COST_CACHE_READ'' ''0.30'',
                     cost_per_m_cache_write = f64_or e ''CLAUDE_SERVER_COST_CACHE_WRITE'' ''3.75''\<rparr>\<rparr>)"

text \<open>A file is read by its path; \<open>None\<close> is a file that cannot be read.\<close>

definition load_deployment_context :: "(string \<Rightarrow> string option) \<Rightarrow> config \<Rightarrow> string option" where
  "load_deployment_context read c =
     (case c_deployment_context_path c of Some path \<Rightarrow> read path | None \<Rightarrow> Some [])"

definition load_system_prompt :: "(string \<Rightarrow> string option) \<Rightarrow> config \<Rightarrow> string option" where
  "load_system_prompt read c = read (c_system_prompt_path c)"

text \<open>What the agent loop uses of it.\<close>

definition agent_config_of :: "config \<Rightarrow> agent_config" where
  "agent_config_of c = \<lparr>cf_model = c_model c, cf_compact_at = c_compact_at c, cf_compact_target = c_compact_target c,
     cf_python_timeout_secs = c_python_timeout_secs c, cf_render = c_render_config c, cf_prices = c_prices c\<rparr>"

section \<open>Properties\<close>

text \<open>Who gets past the configuration, and with which credential. An API key alone is taken as
  it is; a bearer token alone only with the acknowledgment (the variable, or typed on a
  terminal) and not when it says that it has expired; both or none are refused.\<close>

theorem credential_accepted_iff:
  "auth_from_env e = Inr c \<longleftrightarrow>
     (\<exists>k. c = ApiKey k \<and> k \<noteq> [] \<and> ce_var e ''ANTHROPIC_API_KEY'' = Some k \<and>
        non_empty (ce_var e ''CLAUDE_SERVER_BEARER_TOKEN'') = None) \<or>
     (\<exists>t. c = Bearer t \<and> t \<noteq> [] \<and> ce_var e ''CLAUDE_SERVER_BEARER_TOKEN'' = Some t \<and>
        non_empty (ce_var e ''ANTHROPIC_API_KEY'') = None \<and>
        ((\<exists>v. ce_var e ''CLAUDE_SERVER_AUTH_ACK'' = Some v \<and> (v = ''1'' \<or> to_ascii_lowercase v = ''true'')) \<or>
         ce_terminal e \<and> (\<exists>l. ce_typed e = Some l \<and> trim l = ''I AGREE'')) \<and>
        (case parse_jwt_exp e t of Some exp \<Rightarrow> ce_now e < exp | None \<Rightarrow> True))"
  by (auto simp: auth_from_env_def non_empty_def enforce_bearer_guardrails_def Let_def linorder_not_le
      split: option.splits if_splits sum.splits)

end
