(* ===== verification/Daemon.thy ===== *)
theory Daemon
  imports Database Config
begin

text \<open>
  The daemon (\<open>run_daemon\<close> of src/src/main.rs and \<open>CoreLoop\<close> of src/src/core_loop.rs): the
  configuration is read, the stored state resumed or a fresh one made, the root agent runs,
  its final state is stored. The rounds of the agent loop run against the database; what the
  process supervisor appends between them is an input. The texts of the change log are a
  parameter, its versions are those of the code.
\<close>

section \<open>The change log\<close>

definition pkg_version :: string where
  "pkg_version = ''0.2.9''"

definition parse_ver :: "string \<Rightarrow> nat \<times> nat \<times> nat" where
  "parse_ver v =
     (let ns = map (\<lambda>p. case parse_uint 32 p of Some n \<Rightarrow> n | None \<Rightarrow> 0) (split_on (CHR ''.'') v);
          part = (\<lambda>i. if i < length ns then ns ! i else 0)
      in (part 0, part 1, part 2))"

text \<open>The order of tuples.\<close>

fun ver_le :: "nat \<times> nat \<times> nat \<Rightarrow> nat \<times> nat \<times> nat \<Rightarrow> bool" where
  "ver_le (a, b, c) (x, y, z) \<longleftrightarrow> a < x \<or> a = x \<and> (b < y \<or> b = y \<and> c \<le> z)"

definition changelog_versions :: "string list" where
  "changelog_versions = [''0.2.0'', ''0.2.1'', ''0.2.2'', ''0.2.3'', ''0.2.4'', ''0.2.5'', ''0.2.6'', ''0.2.7'', ''0.2.8'', ''0.2.9'']"

definition versions_since :: "string \<Rightarrow> string \<Rightarrow> string list" where
  "versions_since prev current =
     filter (\<lambda>v. \<not> ver_le (parse_ver v) (parse_ver prev) \<and> ver_le (parse_ver v) (parse_ver current)) changelog_versions"

definition changelog_since :: "(string \<Rightarrow> string) \<Rightarrow> string \<Rightarrow> string \<Rightarrow> string option" where
  "changelog_since text prev current =
     (let entries = versions_since prev current in
      if entries = [] then None
      else Some (''Harness upgraded from '' @ prev @ '' to '' @ current @ ''. Changes you should act on:'' @ [nl, nl] @
        concat (map (\<lambda>v. ''## '' @ v @ [nl] @ text v @ [nl, nl]) entries)))"

section \<open>Resuming\<close>

definition resume_state :: "(string \<Rightarrow> string) \<Rightarrow> time \<Rightarrow> harness_state \<Rightarrow> harness_state" where
  "resume_state text now s =
     (let prev = (case last_harness_version s of Some v \<Rightarrow> v | None \<Rightarrow> ''unknown'');
          s = s\<lparr>process_manager := pm_new, last_harness_version := Some pkg_version\<rparr>;
          (i, s) = draw_id s
      in push_queue \<lparr>wi_id = i, wi_priority = 9, wi_time = now, wi_type = AgentStartup (changelog_since text prev pkg_version),
           wi_attachments = []\<rparr> s)"

record storage =
  st_enc :: "harness_state \<Rightarrow> string option"
  st_dec :: "string \<Rightarrow> harness_state option"

definition resume_or_create :: "storage \<Rightarrow> (string \<Rightarrow> string) \<Rightarrow> time \<Rightarrow> config \<Rightarrow> database \<Rightarrow> (harness_state \<times> database) option" where
  "resume_or_create st text now config d =
     (case load_state (st_dec st) d of
        None \<Rightarrow> None
      | Some (Some s) \<Rightarrow> Some (resume_state text now s, d)
      | Some None \<Rightarrow>
          let s = (hs_new (c_context_window config) (c_max_tokens config))\<lparr>last_harness_version := Some pkg_version\<rparr>
          in map_option (Pair s) (save_state (st_enc st) s d))"

section \<open>The root agent\<close>

definition root_permissions :: agent_permissions where
  "root_permissions = \<lparr>can_compact = True, max_turns = None, child_depth_remaining = 1, agent_name = Root, lineage = [''root'']\<rparr>"

definition core_new :: "cenv \<Rightarrow> config \<Rightarrow> harness_state \<Rightarrow> string \<Rightarrow> agent_loop option" where
  "core_new e config s deployment =
     (case ar_register ''root'' 0 ar_new of
        (Inl err, reg) \<Rightarrow> None
      | (Inr u, reg) \<Rightarrow> Some (al_new ''root'' root_permissions s (agent_config_of config) deployment None True
          (Some (ta_new (ce_now e div 1000000000))) (ul_new (u64_or e ''CLAUDE_SERVER_USAGE_LOG_CAPACITY'' 1000)) reg
          (ce_var e ''CLAUDE_SERVER_MAX_CHILDREN'') 1))"

section \<open>Serving\<close>

record daemon =
  dm_agent :: agent_loop
  dm_idle :: bool
  dm_db :: database

record daemon_input =
  di_loop :: loop_input
  di_appends :: "(string \<times> string) list" \<comment> \<open>process output stored since the last round\<close>
  di_created_at :: string

datatype daemon_result = Serving daemon | Stopped finish_reason daemon

definition with_database :: "database \<Rightarrow> loop_input \<Rightarrow> loop_input" where
  "with_database d li = li\<lparr>li_env := (li_env li)\<lparr>ax_process_output := \<lambda>pid. Some (load_process_output pid d),
     ax_all_outputs := load_all_process_outputs d, ax_pinned := load_pinned d\<rparr>\<rparr>"

definition take_outputs :: "storage \<Rightarrow> string \<Rightarrow> bool \<Rightarrow> agent_loop \<Rightarrow> database \<Rightarrow> daemon" where
  "take_outputs st now idle a d =
     \<lparr>dm_agent = a\<lparr>al_out := []\<rparr>, dm_idle = idle, dm_db = apply_outputs (st_enc st) now (al_out a) d\<rparr>"

definition daemon_step :: "storage \<Rightarrow> daemon_input \<Rightarrow> daemon \<Rightarrow> daemon_result option" where
  "daemon_step st di dm =
     (let d = fold (\<lambda>(p, chunk). append_process_output p chunk) (di_appends di) (dm_db dm) in
      case loop_step (with_database d (di_loop di)) (dm_idle dm) (dm_agent dm) of
        None \<Rightarrow> None
      | Some (Continue idle a) \<Rightarrow> Some (Serving (take_outputs st (di_created_at di) idle a d))
      | Some (Finished r a) \<Rightarrow> Some (Stopped r (take_outputs st (di_created_at di) (dm_idle dm) a d)))"

fun daemon_rounds :: "storage \<Rightarrow> daemon_input list \<Rightarrow> daemon \<Rightarrow> daemon_result option" where
  "daemon_rounds st [] dm = Some (Serving dm)"
| "daemon_rounds st (di # dis) dm =
     (case daemon_step st di dm of
        None \<Rightarrow> None
      | Some (Serving dm) \<Rightarrow> daemon_rounds st dis dm
      | Some (Stopped r dm) \<Rightarrow> Some (Stopped r dm))"

text \<open>\<open>Inl\<close> is an error of the start; \<open>None\<close> a panic.\<close>

definition start_daemon ::
  "storage \<Rightarrow> (string \<Rightarrow> string) \<Rightarrow> (string \<Rightarrow> string option) \<Rightarrow> cenv \<Rightarrow> database \<Rightarrow> (string + daemon) option" where
  "start_daemon st text read e d =
     (case from_env e of
        Inl err \<Rightarrow> Some (Inl err)
      | Inr config \<Rightarrow>
     (case load_deployment_context read config of
        None \<Rightarrow> Some (Inl ''Failed to read deployment context'')
      | Some deployment \<Rightarrow>
     (case resume_or_create st text (ce_now e) config d of
        None \<Rightarrow> Some (Inl ''state'')
      | Some (s, d) \<Rightarrow>
          map_option (\<lambda>a. Inr \<lparr>dm_agent = a, dm_idle = False, dm_db = d\<rparr>) (core_new e config s deployment))))"

text \<open>The final state is stored when the loop has ended.\<close>

definition stop_daemon :: "storage \<Rightarrow> daemon \<Rightarrow> database option" where
  "stop_daemon st dm = save_state (st_enc st) (al_state (dm_agent dm)) (dm_db dm)"

section \<open>Lemmas\<close>

lemma ver_le_total: "ver_le u v \<or> ver_le v u"
  by (cases u; cases v) auto

lemma ver_le_trans: "ver_le u v \<Longrightarrow> ver_le v w \<Longrightarrow> ver_le u w"
  by (cases u; cases v; cases w) auto

lemma core_new_some: "\<exists>a. core_new e config s deployment = Some a \<and> al_state a = s \<and> al_permissions a = root_permissions \<and> al_active_children a = 0 \<and> al_out a = []"
  by (simp add: core_new_def ar_register_def running_agent_def ar_new_def al_new_def)

lemma core_new_loop_ok:
  assumes "core_new e config s deployment = Some a" "in_order s"
  shows "loop_ok a"
  using assms core_new_some [of e config s deployment] by (auto simp: loop_ok_def root_permissions_def)

lemma resume_in_order: "in_order s \<Longrightarrow> in_order (resume_state text now s)"
  by (simp add: resume_state_def Let_def in_order_def push_queue_def queue_sorted_push whole_queue_push draw_id_def split_beta)

lemma in_order_stored: "in_order s \<Longrightarrow> stored_state s = s"
  by (simp add: in_order_def stored_state_id)

text \<open>Serialization is faithful up to the durations.\<close>

definition faithful :: "storage \<Rightarrow> bool" where
  "faithful st \<longleftrightarrow> (\<forall>s j. st_enc st s = Some j \<longrightarrow> st_dec st j = Some (stored_state s))"

text \<open>The stored state, if there is one, can be read and is in order.\<close>

definition recoverable :: "storage \<Rightarrow> database \<Rightarrow> bool" where
  "recoverable st d \<longleftrightarrow> (\<exists>x. load_state (st_dec st) d = Some x \<and> (\<forall>s. x = Some s \<longrightarrow> in_order s))"

lemma recoverable_new: "recoverable st db_new"
  by (simp add: recoverable_def load_state_def db_new_def)

lemma recoverable_save: "\<lbrakk>faithful st; save_state (st_enc st) s d = Some d'; in_order s\<rbrakk> \<Longrightarrow>
    recoverable st d' \<and> load_state (st_dec st) d' = Some (Some s)"
  by (auto simp: faithful_def recoverable_def save_state_def load_state_def in_order_stored)

lemma recoverable_frame: "db_state_json d' = db_state_json d \<Longrightarrow> recoverable st d' = recoverable st d"
  by (simp add: recoverable_def load_state_def)

lemma recoverable_output:
  "\<lbrakk>faithful st; recoverable st d; \<forall>s. x = OSaveState s \<longrightarrow> in_order s\<rbrakk> \<Longrightarrow> recoverable st (apply_output (st_enc st) now x d)"
proof (cases "\<exists>s. x = OSaveState s")
  case False
  assume "recoverable st d"
  moreover from False have "db_state_json (apply_output (st_enc st) now x d) = db_state_json d"
    by (cases x) (simp_all add: save_outbound_message_def Let_def save_pin_def delete_pin_def)
  ultimately show ?thesis using recoverable_frame by blast
qed (auto dest: recoverable_save split: option.splits)

lemma recoverable_outputs:
  "\<lbrakk>faithful st; recoverable st d; \<forall>s. OSaveState s \<in> set xs \<longrightarrow> in_order s\<rbrakk> \<Longrightarrow> recoverable st (apply_outputs (st_enc st) now xs d)"
  unfolding apply_outputs_def by (induction xs arbitrary: d) (auto simp: recoverable_output)

lemma appends_state: "db_state_json (fold (\<lambda>(p, chunk). append_process_output p chunk) xs d) = db_state_json d"
  by (induction xs arbitrary: d) (auto simp: append_process_output_def)

text \<open>What holds between the rounds.\<close>

definition daemon_ok :: "storage \<Rightarrow> daemon \<Rightarrow> bool" where
  "daemon_ok st dm \<longleftrightarrow> loop_ok (dm_agent dm) \<and> recoverable st (dm_db dm)"

lemma take_outputs_ok:
  "\<lbrakk>faithful st; loop_ok a; recoverable st d\<rbrakk> \<Longrightarrow> daemon_ok st (take_outputs st now idle a d)"
  by (auto simp: daemon_ok_def take_outputs_def loop_ok_def intro: recoverable_outputs split: option.splits)

fun result_daemon :: "daemon_result \<Rightarrow> daemon" where
  "result_daemon (Serving dm) = dm"
| "result_daemon (Stopped r dm) = dm"

lemma daemon_step_ok:
  assumes "daemon_step st di dm = Some res" "daemon_ok st dm" "faithful st"
  shows "daemon_ok st (result_daemon res)"
proof -
  let ?d = "fold (\<lambda>(p, chunk). append_process_output p chunk) (di_appends di) (dm_db dm)"
  have d: "recoverable st ?d"
    using assms(2) recoverable_frame [OF appends_state] by (simp add: daemon_ok_def)
  obtain x where x: "loop_step (with_database ?d (di_loop di)) (dm_idle dm) (dm_agent dm) = Some x"
    using assms(1) by (auto simp: daemon_step_def Let_def split: option.splits)
  from assms(2) have "loop_ok (dm_agent dm)" by (simp add: daemon_ok_def)
  from loop_step_ok [OF x this] have "loop_ok (step_agent x)" by blast
  with assms(1,3) x d show ?thesis
    by (cases x) (auto simp: daemon_step_def Let_def intro: take_outputs_ok)
qed

lemma daemon_rounds_ok:
  "\<lbrakk>daemon_rounds st dis dm = Some res; daemon_ok st dm; faithful st\<rbrakk> \<Longrightarrow> daemon_ok st (result_daemon res)"
proof (induction dis arbitrary: dm)
  case (Cons di dis)
  then obtain x where x: "daemon_step st di dm = Some x" by (auto split: option.splits)
  note ok = daemon_step_ok [OF x Cons.prems(2,3)]
  show ?case
  proof (cases x)
    case (Serving dm')
    with Cons.prems x have "daemon_rounds st dis dm' = Some res" by simp
    from Cons.IH [OF this] ok Serving Cons.prems(3) show ?thesis by simp
  next
    case (Stopped r dm')
    with Cons.prems x ok show ?thesis by auto
  qed
qed auto

lemma start_daemon_ok:
  assumes "start_daemon st text read e d = Some (Inr dm)" "recoverable st d" "faithful st"
  shows "daemon_ok st dm"
proof -
  obtain config deployment s d' where
    s: "resume_or_create st text (ce_now e) config d = Some (s, d')" and
    a: "core_new e config s deployment = Some (dm_agent dm)" "dm_db dm = d'"
    using assms(1) by (auto simp: start_daemon_def split: sum.splits option.splits)
  have fresh: "in_order ((hs_new w m)\<lparr>last_harness_version := v\<rparr>)" for w m v
    by (simp add: in_order_def hs_new_def queue_sorted_def wq_new_def hooks_ordered_def whole_queue_def)
  have "in_order s \<and> recoverable st d'"
  proof (cases "load_state (st_dec st) d = Some None")
    case True
    with s have "save_state (st_enc st) s d = Some d'" "\<exists>w m v. s = (hs_new w m)\<lparr>last_harness_version := v\<rparr>"
      by (auto simp: resume_or_create_def Let_def)
    with fresh recoverable_save [OF assms(3)] show ?thesis by blast
  next
    case False
    then obtain s0 where l: "load_state (st_dec st) d = Some (Some s0)"
      using s by (auto simp: resume_or_create_def split: option.splits)
    with assms(2) have "in_order s0" by (simp add: recoverable_def)
    with l s assms(2) resume_in_order show ?thesis by (auto simp: resume_or_create_def)
  qed
  with a core_new_loop_ok show ?thesis by (auto simp: daemon_ok_def)
qed

section \<open>Properties\<close>

text \<open>The run of the witnesses: a fresh start, a shutdown, a stop.\<close>

definition sample_cenv :: cenv where
  "sample_cenv = \<lparr>ce_var = (\<lambda>k. if k = ''ANTHROPIC_API_KEY'' then Some ''key'' else None), ce_parse_addr = Some,
     ce_parse_f64 = (\<lambda>x. None), ce_floats = sample_floats, ce_terminal = False, ce_typed = None, ce_now = 0,
     ce_base64 = (\<lambda>x. None), ce_json = (\<lambda>x. None), ce_debug_str = (\<lambda>x. x), ce_debug_time = (\<lambda>t. [])\<rparr>"

text \<open>A store for the states of an empty agent, which differ only in their id counter.\<close>

definition bare_state :: "nat \<Rightarrow> harness_state" where
  "bare_state n = (hs_new 1000000 16384)\<lparr>last_harness_version := Some pkg_version, id_gen := \<lparr>counter = of_nat n\<rparr>\<rparr>"

definition sample_storage :: storage where
  "sample_storage = \<lparr>st_enc = (\<lambda>s. if s = bare_state 0 then Some ''bare'' else None),
     st_dec = (\<lambda>j. if j = ''bare'' then Some (bare_state 0) else None)\<rparr>"

definition sample_shutdown :: daemon_input where
  "sample_shutdown = \<lparr>di_loop = sample_input\<lparr>li_drained := [], li_shutdown := True\<rparr>, di_appends = [], di_created_at = []\<rparr>"

lemma bare_in_order: "in_order (bare_state n)"
  by (simp add: in_order_def bare_state_def hs_new_def queue_sorted_def wq_new_def hooks_ordered_def whole_queue_def)

lemma sample_faithful: "faithful sample_storage"
  using in_order_stored [OF bare_in_order [of 0]] by (auto simp: faithful_def sample_storage_def)

lemma sample_config:
  "\<exists>config. from_env sample_cenv = Inr config \<and> c_context_window config = 1000000 \<and> c_max_tokens config = 16384 \<and>
     c_deployment_context_path config = None"
  by (simp add: from_env_def auth_from_env_def non_empty_def sample_cenv_def var_or_def valid_effort_def u64_or_def Let_def)

lemma sample_start:
  "\<exists>dm. start_daemon sample_storage (\<lambda>v. []) (\<lambda>p. None) sample_cenv db_new = Some (Inr dm) \<and>
     al_state (dm_agent dm) = bare_state 0 \<and> dm_db dm = db_new\<lparr>db_state_json := Some ''bare''\<rparr>"
proof -
  obtain config where c: "from_env sample_cenv = Inr config" "c_context_window config = 1000000" "c_max_tokens config = 16384"
      "c_deployment_context_path config = None"
    using sample_config by blast
  have "(hs_new 1000000 16384)\<lparr>last_harness_version := Some pkg_version\<rparr> = bare_state 0"
    by (simp add: bare_state_def hs_new_def id_generator_new_def)
  with c have "resume_or_create sample_storage (\<lambda>v. []) (ce_now sample_cenv) config db_new =
      Some (bare_state 0, db_new\<lparr>db_state_json := Some ''bare''\<rparr>)"
    by (simp add: resume_or_create_def load_state_def db_new_def save_state_def sample_storage_def)
  with c core_new_some [of sample_cenv config "bare_state 0" "[]"] show ?thesis
    by (auto simp: start_daemon_def load_deployment_context_def)
qed

lemma sample_rounds:
  assumes "al_state (dm_agent dm) = bare_state 0"
  shows "\<exists>dm'. daemon_rounds sample_storage [sample_shutdown] dm = Some (Stopped Shutdown dm') \<and> al_state (dm_agent dm') = bare_state 0"
proof -
  have q: "tm_timers (timer_manager (bare_state 0)) = []" "last_total_input_tokens (bare_state 0) = 0" "(bare_state 0)\<lparr>id_gen := id_gen (bare_state 0)\<rparr> = bare_state 0"
    by (simp_all add: bare_state_def hs_new_def tm_new_def)
  then have "check_timers env (dm_agent dm) = Some (upd_state id (dm_agent dm))" for env
    using assms by (intro quiet_timers) simp
  with assms q show ?thesis
    by (simp add: daemon_step_def sample_shutdown_def sample_input_def with_database_def loop_step_def drain_events_def
        trigger_if_full_def request_compaction_effect_def should_trigger_def take_outputs_def Let_def)
qed





lemma filter_versions:
  assumes "sorted_wrt (\<lambda>a b. ver_le (f a) (f b)) xs" "ver_le u v" "ver_le v w"
  shows "filter (\<lambda>x. \<not> ver_le (f x) u \<and> ver_le (f x) w) xs =
     filter (\<lambda>x. \<not> ver_le (f x) u \<and> ver_le (f x) v) xs @ filter (\<lambda>x. \<not> ver_le (f x) v \<and> ver_le (f x) w) xs"
  using assms(1)
proof (induction xs)
  case (Cons x xs)
  show ?case
  proof (cases "ver_le (f x) v")
    case True
    then have "ver_le (f x) w" using assms(3) by (rule ver_le_trans)
    with True Cons show ?thesis by simp
  next
    case False
    with Cons.prems have "\<forall>y \<in> set (x # xs). \<not> ver_le (f y) v"
      by (auto dest: ver_le_trans simp del: ver_le.simps)
    then have "filter (\<lambda>x. \<not> ver_le (f x) u \<and> ver_le (f x) v) (x # xs) = []"
      and "\<forall>y \<in> set (x # xs). \<not> ver_le (f y) u"
      using assms(2) by (auto simp: filter_empty_conv simp del: ver_le.simps dest: ver_le_trans)
    with \<open>\<forall>y \<in> set (x # xs). \<not> ver_le (f y) v\<close> show ?thesis
      by (simp only: append.simps) (rule filter_cong, auto)
  qed
qed simp

lemma versions_sorted: "sorted_wrt (\<lambda>a b. ver_le (parse_ver a) (parse_ver b)) changelog_versions"
  by (simp add: changelog_versions_def parse_ver_def parse_uint_def radix_value_def digit_val_def is_digit_def Let_def)

text \<open>No upgrade hides a change. The entries a start shows are those of the versions after
  the stored one up to the current one, in order; upgrading in steps shows exactly the entries
  a single upgrade shows, each once.\<close>

theorem changelog_composes:
  assumes "ver_le (parse_ver u) (parse_ver v)" "ver_le (parse_ver v) (parse_ver w)"
  shows "versions_since u w = versions_since u v @ versions_since v w \<and>
     (changelog_since text u w = None \<longleftrightarrow> versions_since u w = [])"
  using filter_versions [OF versions_sorted assms] by (simp add: versions_since_def changelog_since_def Let_def)

theorem changelog_composes_witness:
  "versions_since ''0.2.6'' ''0.2.9'' = [''0.2.7''] @ [''0.2.8'', ''0.2.9'']"
proof -
  have v: "versions_since ''0.2.6'' ''0.2.7'' = [''0.2.7'']" "versions_since ''0.2.7'' ''0.2.9'' = [''0.2.8'', ''0.2.9'']"
    "ver_le (parse_ver ''0.2.6'') (parse_ver ''0.2.7'')" "ver_le (parse_ver ''0.2.7'') (parse_ver ''0.2.9'')"
    by (simp_all add: versions_since_def changelog_versions_def parse_ver_def parse_uint_def radix_value_def digit_val_def is_digit_def Let_def)
  from changelog_composes [OF v(3,4)] v(1,2) show ?thesis by simp
qed

end
