(* ===== verification/Turn_Dump.thy ===== *)
theory Turn_Dump
  imports Api_Client
begin

text \<open>
  The dump of a turn (src/src/core_loop.rs): the blocks the cache sees, the context, the answer and its
  output, printed or written to a file. The sizes of attached files are a parameter; a slice off a
  character boundary panics (\<open>None\<close>).
\<close>

section \<open>Pieces\<close>

text \<open>FNV-1a.\<close>

definition quick_hash :: "string \<Rightarrow> string" where
  "quick_hash s =
     show_hex 16 (unat (foldl (\<lambda>h b. xor h (of_char b) * 0x100000001b3) (0xcbf29ce484222325 :: u64) s))"

function snap_forward :: "string \<Rightarrow> nat \<Rightarrow> nat" where
  "snap_forward s i = (if i < length s \<and> \<not> is_char_boundary s i then snap_forward s (i + 1) else i)"
  by pat_completeness auto
termination
  by (relation "measure (\<lambda>(s, i). length s - i)") auto

declare snap_forward.simps [simp del]

definition return_sign :: string where
  "return_sign = [CHR 0xE2, CHR 0x8F, CHR 0x8E]"

definition ellipsis :: string where
  "ellipsis = [CHR 0xE2, CHR 0x80, CHR 0xA6]"

definition snip :: "string \<Rightarrow> nat \<Rightarrow> string option" where
  "snip s n =
     (if length s \<le> n * 2 then Some (replace_sub [nl] return_sign s)
      else map_option (\<lambda>tail. replace_sub [nl] return_sign (trunc s n) @ ellipsis @ replace_sub [nl] return_sign tail)
             (slice_from s (snap_forward s (length s - n))))"

definition sep :: string where
  "sep = replicate 80 (CHR ''='')"

definition dash :: string where
  "dash = replicate 80 (CHR ''-'')"

definition dump_title :: "string \<Rightarrow> nat \<Rightarrow> string list \<Rightarrow> string" where
  "dump_title agent turn what =
     line [sep] @ line ([''['', agent, ''] Turn '', show_nat turn, '' '', em_dash, '' ''] @ what) @ line [sep] @ [nl]"

section \<open>The dump\<close>

definition dump_prefix :: "rendered_context \<Rightarrow> string option" where
  "dump_prefix r =
     (if prefix_text r = [] then Some (line [''prefix_text: (empty '', em_dash, '' merged into seg1)''])
      else map_option (\<lambda>s. line [''prefix_text: '', show_nat (length (prefix_text r)), '' chars  hash='', quick_hash (prefix_text r), ''  '', s])
             (snip (prefix_text r) 40))"

definition dump_prefix_attachments :: "rendered_context \<Rightarrow> string" where
  "dump_prefix_attachments r =
     (if prefix_attachments r = [] then line [''prefix_attachments: (none)'']
      else concat (map (\<lambda>(i, a). line [''prefix_attach['', show_nat i, '']: '', a, '' '',
               (if i = length (prefix_attachments r) - 1 then ''  [+cache_control]'' else [])])
             (enumerate 0 (prefix_attachments r))))"

definition dump_segments :: "rendered_context \<Rightarrow> string option" where
  "dump_segments r =
     map_option (\<lambda>ls. concat ls @ (if cached_segments r = [] then line [''cached_segments: (none '', em_dash, '' all in tail)''] else []))
       (those (map (\<lambda>(i, seg). map_option (\<lambda>s. line [''cached_seg['', show_nat i, '']: '', show_nat (length seg), '' chars  hash='', quick_hash seg,
                  ''  [+cache_control]''] @ line [''  '', s]) (snip seg 60))
          (enumerate 0 (cached_segments r))))"

definition dump_tail :: "string \<Rightarrow> string option" where
  "dump_tail t =
     map_option (\<lambda>s. line [''tail: '', show_nat (length t), '' chars  hash='', quick_hash t] @ line [''  '', s]) (snip t 60)"

definition dump_order :: "rendered_context \<Rightarrow> string \<Rightarrow> string" where
  "dump_order r t =
     [nl] @ line [''API block order: [system+cc]'', (if prefix_text r = [] then [] else '' [prefix_text] ''),
       concat (map (\<lambda>i. if i = length (prefix_attachments r) - 1 then ''[img+cc]'' else ''[img]'') [0..<length (prefix_attachments r)]),
       (if prefix_attachments r = [] then [] else '' ''),
       concat (map (\<lambda>s. ''[seg:'' @ show_nat (length s) @ ''+cc]'') (cached_segments r)), ''[tail:'', show_nat (length t), '']'']"

record dump_turn =
  dt_agent :: string
  dt_turn :: nat
  dt_usage :: "nat \<times> nat \<times> nat \<times> nat" \<comment> \<open>input, output, cache write, cache read\<close>
  dt_thinking :: "string option"
  dt_code :: string
  dt_output :: string
  dt_is_error :: bool

definition dump_blocks :: "rendered_context \<Rightarrow> dump_turn \<Rightarrow> string option" where
  "dump_blocks r d =
     (case (dt_usage d, dump_prefix r, dump_segments r, slice_from (rc_text r) (length (prefix_text r) + sum_list (map length (cached_segments r)))) of
        ((inp, out, written, cached), Some p, Some ss, Some t) \<Rightarrow>
          map_option (\<lambda>tl. dump_title (dt_agent d) (dt_turn d) [''CACHE BLOCKS''] @
            line [''API usage: in='', show_nat inp, '' out='', show_nat out, '' cache_write='', show_nat written, '' cache_read='', show_nat cached] @ [nl] @
            p @ dump_prefix_attachments r @ ss @ tl @ dump_order r t @ line [dash] @ [nl]) (dump_tail t)
      | _ \<Rightarrow> None)"

definition dump_attachments :: "(string \<Rightarrow> nat option) \<Rightarrow> rendered_context \<Rightarrow> dump_turn \<Rightarrow> string" where
  "dump_attachments fsize r d =
     (if rc_attachments r = [] then []
      else [nl] @ dump_title (dt_agent d) (dt_turn d) [''ATTACHMENTS ('', show_nat (length (rc_attachments r)), '' file'',
               (if length (rc_attachments r) = 1 then [] else ''s''), '')''] @
           concat (map (\<lambda>a. line [''  '', a, '' ('', show_nat (case fsize a of Some n \<Rightarrow> n | None \<Rightarrow> 0), '' bytes)'']) (rc_attachments r)) @
           line [dash])"

definition dump_thinking :: "dump_turn \<Rightarrow> string" where
  "dump_thinking d =
     (case dt_thinking d of
        None \<Rightarrow> []
      | Some thinking \<Rightarrow> [nl] @ dump_title (dt_agent d) (dt_turn d) [''AGENT THINKING''] @ thinking @ [nl] @ line [dash])"

definition dump_output :: "dump_turn \<Rightarrow> string" where
  "dump_output d =
     (if dt_output d = [] then []
      else [nl] @ dump_title (dt_agent d) (dt_turn d) [''EXECUTION '', (if dt_is_error d then ''ERROR'' else ''OUTPUT'')] @
           dt_output d @ (if ends_with_char nl (dt_output d) then [] else [nl]) @ line [dash])"

definition dump_text :: "(string \<Rightarrow> nat option) \<Rightarrow> rendered_context \<Rightarrow> dump_turn \<Rightarrow> string option" where
  "dump_text fsize r d =
     map_option (\<lambda>blocks. blocks @
       dump_title (dt_agent d) (dt_turn d) [''CONTEXT SENT TO MODEL ('', show_nat (length (rc_text r)), '' chars)''] @
       rc_text r @ [nl] @ line [dash] @
       dump_attachments fsize r d @ dump_thinking d @
       [nl] @ dump_title (dt_agent d) (dt_turn d) [''AGENT RESPONSE (Python code)''] @ dt_code d @ [nl] @ line [dash] @
       dump_output d) (dump_blocks r d)"

text \<open>\<open>{:03}\<close>.\<close>

definition show_nat_3 :: "nat \<Rightarrow> string" where
  "show_nat_3 n = replicate (3 - length (show_nat n)) (CHR ''0'') @ show_nat n"

text \<open>What is printed, and the file written: directory, name and contents.\<close>

definition write_turn_dump ::
  "(string \<Rightarrow> nat option) \<Rightarrow> bool \<Rightarrow> string option \<Rightarrow> rendered_context \<Rightarrow> dump_turn \<Rightarrow> (string list \<times> (string \<times> string \<times> string) list) option" where
  "write_turn_dump fsize to_stdout dump_dir r d =
     map_option (\<lambda>dump.
       ((if to_stdout then [dump] else []),
        (case dump_dir of Some dir \<Rightarrow> [(dir, dt_agent d @ ''-'' @ show_nat_3 (dt_turn d) @ ''-dump.txt'', dump)] | None \<Rightarrow> [])))
       (dump_text fsize r d)"

section \<open>Lemmas\<close>

lemma snap_forward_boundary: "i \<le> length s \<Longrightarrow> is_char_boundary s (snap_forward s i)"
  by (induction s i rule: snap_forward.induct) (subst snap_forward.simps, auto)

lemma snip_total: "\<exists>t. snip s n = Some t"
  using snap_forward_boundary [of "length s - n" s] by (simp add: snip_def slice_from_def)

lemma those_map_total: "(\<And>x. \<exists>y. f x = Some y) \<Longrightarrow> \<exists>ys. those (map f xs) = Some ys"
proof (induction xs)
  case (Cons x xs)
  then obtain y ys where "f x = Some y" "those (map f xs) = Some ys" by meson
  then show ?case by simp
qed simp

lemma dump_parts_total: "\<exists>t. dump_prefix r = Some t" "\<exists>t. dump_segments r = Some t" "\<exists>t. dump_tail s = Some t"
proof -
  show "\<exists>t. dump_prefix r = Some t" using snip_total [of "prefix_text r" 40] by (auto simp: dump_prefix_def)
  show "\<exists>t. dump_tail s = Some t" using snip_total [of s 60] by (auto simp: dump_tail_def)
  have "\<exists>y. (case x of (i, seg) \<Rightarrow> map_option (\<lambda>s. line [''cached_seg['', show_nat i, '']: '', show_nat (length seg), '' chars  hash='', quick_hash seg,
      ''  [+cache_control]''] @ line [''  '', s]) (snip seg 60)) = Some y" for x
    using snip_total [of "snd x" 60] by (cases x) auto
  from those_map_total [of _ "enumerate 0 (cached_segments r)", OF this] show "\<exists>t. dump_segments r = Some t"
    by (auto simp: dump_segments_def)
qed

lemma dump_output_split: obtains c e where "dump_output d = c @ dt_output d @ e"
proof (cases "dt_output d = []")
  case True
  then show ?thesis using that [of "[]" "[]"] by (simp add: dump_output_def)
next
  case False
  then have "dump_output d = ([nl] @ dump_title (dt_agent d) (dt_turn d) [''EXECUTION '', (if dt_is_error d then ''ERROR'' else ''OUTPUT'')]) @
      dt_output d @ ((if ends_with_char nl (dt_output d) then [] else [nl]) @ line [dash])"
    by (simp only: dump_output_def if_False append_assoc)
  then show ?thesis by (rule that)
qed

section \<open>Properties\<close>

text \<open>Dumping never panics and leaves nothing out: for every context the renderer produces, and any answer and output,
  the dump is written, to the terminal and to the file of the agent and turn as asked, and it holds the whole context, the
  code of the answer and the output, verbatim and in this order.\<close>

theorem turn_dump_complete:
  assumes "renderable config s"
    and "render_context env s dep rp compaction config compact_at agent pinned = Some r"
  shows "\<exists>dump a b c e. write_turn_dump fsize to_stdout dump_dir r d =
       Some (if to_stdout then [dump] else [],
         case dump_dir of Some dir \<Rightarrow> [(dir, dt_agent d @ ''-'' @ show_nat_3 (dt_turn d) @ ''-dump.txt'', dump)] | None \<Rightarrow> []) \<and>
     dump = a @ rc_text r @ b @ dt_code d @ c @ dt_output d @ e"
proof -
  from cached_layout_lemma [OF assms] obtain rest where
    rest: "rc_text r = prefix_text r @ concat (cached_segments r) @ rest" "rest = [] \<or> hd rest = CHR ''<''" by blast
  have "slice_from (rc_text r) (length (prefix_text r) + sum_list (map length (cached_segments r))) = Some rest"
    using slice_tail [of rest "prefix_text r @ concat (cached_segments r)"] rest by (auto simp: length_concat)
  moreover obtain p ss t where "dump_prefix r = Some p" "dump_segments r = Some ss" "dump_tail rest = Some t"
    using dump_parts_total(1,2) [of r] dump_parts_total(3) [of rest] by blast
  ultimately obtain blocks where "dump_blocks r d = Some blocks" by (cases "dt_usage d") (auto simp: dump_blocks_def)
  moreover obtain c e where "dump_output d = c @ dt_output d @ e" by (rule dump_output_split)
  moreover obtain a b c' where "blocks @ dump_title (dt_agent d) (dt_turn d) [''CONTEXT SENT TO MODEL ('', show_nat (length (rc_text r)), '' chars)''] = a"
    "[nl] @ line [dash] @ dump_attachments fsize r d @ dump_thinking d @
       [nl] @ dump_title (dt_agent d) (dt_turn d) [''AGENT RESPONSE (Python code)''] = b" "[nl] @ line [dash] @ c = c'" by blast
  ultimately have "dump_text fsize r d = Some (a @ rc_text r @ b @ dt_code d @ c' @ dt_output d @ e)"
    by (auto simp only: dump_text_def option.map append_assoc)
  then show ?thesis by (simp only: write_turn_dump_def option.map) blast
qed

theorem turn_dump_complete_witness:
  "\<exists>r w. render_context sample_env (hs_new 200000 16384) ''home'' None None (render_config_default None None) 100000 None None = Some r \<and>
     write_turn_dump (\<lambda>p. None) True (Some ''/tmp'') r
       \<lparr>dt_agent = ''root'', dt_turn = 1, dt_usage = (1, 2, 3, 4), dt_thinking = None, dt_code = ''x'', dt_output = [], dt_is_error = False\<rparr> = Some w"
proof -
  obtain r where r: "render_context sample_env (hs_new 200000 16384) ''home'' None None (render_config_default None None) 100000 None None = Some r"
    using cached_layout_witness by blast
  from turn_dump_complete [OF sample_renderable r] r show ?thesis by blast
qed

text \<open>A snippet is short: each of its two ends has at most \<open>n\<close> bytes, of which each line break becomes three.\<close>

lemma replace_break_length: "length (replace_sub [nl] return_sign s) \<le> 3 * length s"
  by (induction s) (auto simp: return_sign_def starts_with_def)

lemma snap_forward_ge: "i \<le> snap_forward s i"
proof (induction s i rule: snap_forward.induct)
  case (1 s i)
  then show ?case by (subst snap_forward.simps) auto
qed

lemma snip_length:
  assumes "snip s n = Some t"
  shows "length t \<le> 6 * n + 3"
proof (cases "length s \<le> n * 2")
  case True
  with assms replace_break_length [of s] show ?thesis by (simp add: snip_def)
next
  case False
  have "length (drop (snap_forward s (length s - n)) s) \<le> n" using snap_forward_ge [of "length s - n" s] by simp
  with False assms replace_break_length [of "trunc s n"] replace_break_length [of "drop (snap_forward s (length s - n)) s"] trunc_le [of s n]
  show ?thesis by (auto simp: snip_def slice_from_def ellipsis_def split: if_splits)
qed

end
