(* ===== verification/Webhook_Proxy.thy ===== *)
theory Webhook_Proxy
  imports Api_Client
begin

unbundle bit_operations_syntax

text \<open>
  The public webhook ingress (src/src/webhook_proxy.rs): what a request must carry to be
  forwarded to the daemon. HMAC-SHA256, the JSON parser, UTF-8 validation and the HTTP client
  are parameters. A handler gives its answer and the events it forwarded; \<open>i64\<close> arithmetic
  wraps around as in a release build.
\<close>

section \<open>Requests\<close>

record webhook_state =
  wh_github_secret :: "string option"
  wh_slack_secret :: "string option"
  wh_generic_token :: "string option"

record webhook_env =
  we_hmac :: "string \<Rightarrow> string \<Rightarrow> string" \<comment> \<open>key, message\<close>
  we_json :: "string \<Rightarrow> json option"
  we_utf8 :: "string \<Rightarrow> bool"
  we_post :: "json \<Rightarrow> nat option" \<comment> \<open>the status of the daemon's answer\<close>
  we_now :: int \<comment> \<open>seconds\<close>

type_synonym headers = "(string \<times> string) list"

text \<open>\<open>HeaderValue::to_str\<close> takes visible ASCII and tabs only.\<close>

definition header_str :: "string \<Rightarrow> headers \<Rightarrow> string option" where
  "header_str k hs =
     (case map_of hs k of
        None \<Rightarrow> None
      | Some v \<Rightarrow> if list_all (\<lambda>c. (32::nat) \<le> of_char c \<and> of_char c < (127::nat) \<or> c = CHR 0x09) v then Some v else None)"

definition hex_encode :: "string \<Rightarrow> string" where
  "hex_encode bs = concat (map (\<lambda>b. show_hex 2 (of_char b)) bs)"

section \<open>Comparing in constant time\<close>

definition constant_time_eq :: "string \<Rightarrow> string \<Rightarrow> bool" where
  "constant_time_eq a b \<longleftrightarrow>
     (if length a \<noteq> length b then False
      else foldl (\<lambda>acc (x, y). acc OR (of_char x XOR of_char y)) (0 :: u8) (zip a b) = 0)"

section \<open>Handlers\<close>

definition event_body :: "string \<Rightarrow> string \<Rightarrow> json \<Rightarrow> u8 \<Rightarrow> json" where
  "event_body source event_type data prio =
     JObj [(''source'', JStr source), (''type'', JStr event_type), (''data'', data), (''priority'', JInt (uint prio))]"

text \<open>The status for the caller; the daemon's own is not passed on.\<close>

definition forward :: "webhook_env \<Rightarrow> string \<Rightarrow> string \<Rightarrow> json \<Rightarrow> u8 \<Rightarrow> nat \<times> json list" where
  "forward e source event_type data prio =
     (let body = event_body source event_type data prio
      in (case we_post e body of Some s \<Rightarrow> if 200 \<le> s \<and> s < 300 then 200 else 502 | None \<Rightarrow> 502, [body]))"

definition github :: "webhook_env \<Rightarrow> webhook_state \<Rightarrow> headers \<Rightarrow> string \<Rightarrow> nat \<times> json list" where
  "github e st hs body =
     (case wh_github_secret st of
        None \<Rightarrow> (404, [])
      | Some secret \<Rightarrow>
     (case header_str ''x-hub-signature-256'' hs of
        None \<Rightarrow> (401, [])
      | Some sig \<Rightarrow>
     (case strip_prefix ''sha256='' sig of
        None \<Rightarrow> (401, [])
      | Some sig_hex \<Rightarrow>
          if \<not> constant_time_eq sig_hex (hex_encode (we_hmac e secret body)) then (401, [])
          else forward e ''github'' (case header_str ''x-github-event'' hs of Some t \<Rightarrow> t | None \<Rightarrow> ''unknown'')
            (case we_json e body of Some j \<Rightarrow> j | None \<Rightarrow> JNull) 6)))"

text \<open>\<open>(now - ts).abs() > 300\<close>\<close>

definition too_old :: "int \<Rightarrow> int \<Rightarrow> bool" where
  "too_old now ts \<longleftrightarrow> wrap_i64 \<bar>wrap_i64 (now - ts)\<bar> > 300"

definition slack_base :: "string \<Rightarrow> string \<Rightarrow> string" where
  "slack_base ts body = ''v0:'' @ ts @ '':'' @ body"

text \<open>\<open>Inl\<close> is a status, \<open>Inr\<close> a JSON answer with status 200.\<close>

definition slack :: "webhook_env \<Rightarrow> webhook_state \<Rightarrow> headers \<Rightarrow> string \<Rightarrow> (nat + json) \<times> json list" where
  "slack e st hs body =
     (case wh_slack_secret st of
        None \<Rightarrow> (Inl 404, [])
      | Some secret \<Rightarrow>
     (case (header_str ''x-slack-request-timestamp'' hs, header_str ''x-slack-signature'' hs) of
        (Some ts, Some sig) \<Rightarrow>
     (case parse_i64 ts of
        None \<Rightarrow> (Inl 401, [])
      | Some ts_num \<Rightarrow>
          if too_old (we_now e) ts_num then (Inl 401, [])
          else if \<not> we_utf8 e body then (Inl 400, [])
          else if \<not> constant_time_eq sig (''v0='' @ hex_encode (we_hmac e secret (slack_base ts body))) then (Inl 401, [])
          else case we_json e body of
            None \<Rightarrow> (Inl 400, [])
          | Some data \<Rightarrow>
              if as_str (json_at ''type'' data) = Some ''url_verification''
              then (Inr (JObj [(''challenge'', json_at ''challenge'' data)]), [])
              else (let (s, posted) = forward e ''slack''
                      (case as_str (json_at ''type'' data) of Some t \<Rightarrow> t | None \<Rightarrow> ''event'') data 6
                    in (if s = 200 then Inr (JObj [(''ok'', JBool True)]) else Inl s, posted)))
      | _ \<Rightarrow> (Inl 401, [])))"

record generic_event =
  ge_source :: string
  ge_type :: string
  ge_data :: json
  ge_priority :: u8

definition generic :: "webhook_env \<Rightarrow> webhook_state \<Rightarrow> headers \<Rightarrow> generic_event \<Rightarrow> nat \<times> json list" where
  "generic e st hs ev =
     (case wh_generic_token st of
        None \<Rightarrow> (404, [])
      | Some token \<Rightarrow>
          if Option.bind (header_str ''authorization'' hs) (strip_prefix ''Bearer '') \<noteq> Some token then (401, [])
          else forward e (ge_source ev) (ge_type ev) (ge_data ev) (ge_priority ev))"

section \<open>Lemmas\<close>

lemma of_char_word_inject: "(of_char x :: u8) = of_char y \<longleftrightarrow> x = y"
proof
  assume eq: "(of_char x :: u8) = of_char y"
  have u: "unat (of_char c :: u8) = of_char c" for c
    by (subst of_nat_of_char [symmetric]) (simp add: unat_of_nat)
  show "x = y" using arg_cong [OF eq, of unat] by (simp add: u)
qed simp

lemma xor_eq_0: "(a XOR b = (0 :: u8)) \<longleftrightarrow> a = b"
  by (metis xor.left_neutral xor.assoc xor_self_eq)

lemma or_fold_zero:
  "foldl (\<lambda>acc (x, y). acc OR (of_char x XOR of_char y)) (acc :: u8) ps = 0 \<longleftrightarrow> acc = 0 \<and> (\<forall>p \<in> set ps. fst p = snd p)"
  by (induction ps arbitrary: acc) (auto simp: or_eq_0_iff xor_eq_0 of_char_word_inject split: prod.splits)

lemma constant_time_eq_iff: "constant_time_eq a b \<longleftrightarrow> a = b"
proof (cases "length a = length b")
  case True
  then have "(\<forall>p \<in> set (zip a b). fst p = snd p) \<longleftrightarrow> a = b"
    by (induction a b rule: list_induct2) auto
  with True show ?thesis by (simp add: constant_time_eq_def or_fold_zero)
qed (auto simp: constant_time_eq_def)

lemma forward_posts: "snd (forward e s t d p) = [event_body s t d p]"
  by (simp add: forward_def Let_def)

lemma forward_status [simp]: "fst (forward e s t d p) = 200 \<or> fst (forward e s t d p) = 401 \<or> fst (forward e s t d p) = 404 \<or> fst (forward e s t d p) = 502"
  by (simp add: forward_def Let_def split: option.splits)

lemma strip_prefix_append: "strip_prefix p (p @ r) = Some r"
  by (simp add: strip_prefix_Some_iff)

definition near :: "int \<Rightarrow> int \<Rightarrow> bool" where
  "near now ts \<longleftrightarrow> \<bar>now - ts\<bar> \<le> 300"

lemma not_too_old:
  assumes "0 \<le> now" "now < 2 ^ 62" "- (2 ^ 63) \<le> ts" "ts < 2 ^ 63" "\<not> too_old now ts"
  shows "near now ts \<or> now - ts = 2 ^ 63"
proof (cases "now - ts < 2 ^ 63")
  case True
  with assms have "wrap_i64 (now - ts) = now - ts" by (simp add: wrap_i64_def)
  moreover from True assms have "wrap_i64 \<bar>now - ts\<bar> = \<bar>now - ts\<bar>" by (simp add: wrap_i64_def)
  ultimately show ?thesis using assms(5) by (simp add: too_old_def near_def)
next
  case False
  define d where "d = now - ts"
  have d: "2 ^ 63 \<le> d" "d < 2 ^ 63 + 2 ^ 62 + 1" using False assms by (auto simp: d_def)
  have w: "wrap_i64 d = d - 2 ^ 64"
    using d mod_add_self2 [of "d - 2 ^ 63" "2 ^ 64 :: int"] by (simp add: wrap_i64_def add.commute)
  show ?thesis
  proof (rule ccontr)
    assume "\<not> ?thesis"
    with d have d': "2 ^ 63 < d" by (auto simp: d_def)
    have "wrap_i64 \<bar>d - 2 ^ 64\<bar> = 2 ^ 64 - d" using d d' by (simp add: wrap_i64_def)
    with assms(5) d show False by (simp add: too_old_def w flip: d_def)
  qed
qed

lemma parse_i64_range: "parse_i64 s = Some v \<Longrightarrow> - (2 ^ 63) \<le> v \<and> v < 2 ^ 63"
  by (auto simp: parse_i64_def Let_def split: if_splits)

lemma slack_forwardD:
  assumes "slack e st hs body = (r, posted)" "(\<exists>j. r = Inr j) \<or> posted \<noteq> []"
  obtains secret ts n where "wh_slack_secret st = Some secret"
    "header_str ''x-slack-request-timestamp'' hs = Some ts" "parse_i64 ts = Some n" "\<not> too_old (we_now e) n"
    "header_str ''x-slack-signature'' hs = Some (''v0='' @ hex_encode (we_hmac e secret (slack_base ts body)))"
  using assms unfolding slack_def constant_time_eq_iff
  by (auto split: option.splits if_splits)

section \<open>Properties\<close>

text \<open>A request at \<open>/github\<close> reaches the daemon exactly when a secret is configured and its signature
  header is \<open>sha256=\<close> with the hexadecimal HMAC of the body under that secret; then one event is
  posted, with the body as data (null when it is not JSON) at priority 6. Otherwise nothing is posted and
  the answer is 401 or 404.\<close>

theorem github_forwards_iff:
  "snd (github e st hs body) =
     (if \<exists>secret. wh_github_secret st = Some secret
           \<and> header_str ''x-hub-signature-256'' hs = Some (''sha256='' @ hex_encode (we_hmac e secret body))
      then [event_body ''github'' (case header_str ''x-github-event'' hs of Some t \<Rightarrow> t | None \<Rightarrow> ''unknown'')
              (case we_json e body of Some j \<Rightarrow> j | None \<Rightarrow> JNull) 6]
      else [])
   \<and> fst (github e st hs body) \<in> {200, 401, 404, 502}"
proof (cases "wh_github_secret st")
  case (Some secret)
  note s = this
  show ?thesis
  proof (cases "\<exists>x. header_str ''x-hub-signature-256'' hs = Some (''sha256='' @ x)")
    case True
    then obtain x where x: "header_str ''x-hub-signature-256'' hs = Some (''sha256='' @ x)" by blast
    show ?thesis
      unfolding github_def s x option.case strip_prefix_append constant_time_eq_iff
      by (simp add: forward_posts forward_status)
  next
    case False
    then have "snd (github e st hs body) = []" "fst (github e st hs body) = 401"
      using s by (auto simp: github_def strip_prefix_Some_iff split: option.splits)
    with False show ?thesis by auto
  qed
qed (simp add: github_def)


definition example_env :: "int \<Rightarrow> webhook_env" where
  "example_env now = \<lparr>we_hmac = (\<lambda>k m. k), we_json = (\<lambda>s. Some (JObj [(''type'', JStr ''message'')])), we_utf8 = (\<lambda>_. True),
     we_post = (\<lambda>_. Some 200), we_now = now\<rparr>"

definition example_headers :: "string \<Rightarrow> headers" where
  "example_headers ts = [(''x-slack-request-timestamp'', ts), (''x-slack-signature'', ''v0=6b'')]"

definition example_webhooks :: webhook_state where
  "example_webhooks = \<lparr>wh_github_secret = None, wh_slack_secret = Some ''k'', wh_generic_token = None\<rparr>"

lemma example_slack:
  "slack (example_env 1000) example_webhooks (example_headers ''900'') ''b'' =
     (Inr (JObj [(''ok'', JBool True)]), [event_body ''slack'' ''message'' (JObj [(''type'', JStr ''message'')]) 6])"
  by code_simp


text \<open>The overflow: a request signed for the second \<open>1000 - 2^63\<close> is acknowledged.\<close>

lemma slack_window_overflow:
  "fst (slack (example_env 1000) example_webhooks (example_headers ''-9223372036854774808'') ''b'') = Inr (JObj [(''ok'', JBool True)])"
proof -
  have p: "parse_i64 ''-9223372036854774808'' = Some (-9223372036854774808)"
    by (simp add: parse_i64_def radix_value_def digit_val_def is_digit_def)
  have t: "\<not> too_old 1000 (-9223372036854774808)"
    by (simp add: too_old_def wrap_i64_def)
  have h: "header_str ''x-slack-request-timestamp'' (example_headers ts) = Some ts" if "list_all (\<lambda>c. (32::nat) \<le> of_char c \<and> of_char c < (127::nat) \<or> c = CHR 0x09) ts" for ts
    using that by (simp add: header_str_def example_headers_def)
  have h2: "header_str ''x-slack-signature'' (example_headers ts) = Some ''v0=6b''" for ts
    by (simp add: header_str_def example_headers_def)
  have x: "hex_encode ''k'' = ''6b''" by code_simp
  show ?thesis
    by (simp add: slack_def example_webhooks_def example_env_def h h2 p t x constant_time_eq_iff json_at_def forward_def)
qed

end
