(* ===== verification/Bridge_Relay.thy ===== *)
theory Bridge_Relay
  imports Http_Server Api_Client
begin

text \<open>
  The relay every chat bridge runs (src/src/bridges/mod.rs): messages of the external service
  are posted to the daemon, and the daemon's event stream is parsed into outbound messages.
  \<open>from_utf8_lossy\<close> and the JSON parser are parameters. \<open>pending_event\<close> and \<open>pending_data\<close>
  are empty between two blocks, so a block is read from empty fields.
\<close>

section \<open>Messages\<close>

record inbound =
  in_chat_id :: string
  in_text :: string
  in_attachments :: "string list"
  in_message_ref :: "string option"

record outbound =
  out_chat_id :: string
  out_content :: string
  out_attachments :: "string list"
  out_react_to :: "string option"

record relay_env =
  re_lossy :: "string \<Rightarrow> string"
  re_parse :: "string \<Rightarrow> json option"

definition inbound_body :: "string \<Rightarrow> inbound \<Rightarrow> json" where
  "inbound_body user msg =
     JObj [(''chat_id'', JStr (in_chat_id msg)), (''user'', JStr user), (''content'', JStr (in_text msg)),
           (''attachments'', JArr (map JStr (in_attachments msg))), (''message_ref'', opt_str (in_message_ref msg))]"

section \<open>Reading the event stream\<close>

lemma find_sub_bound:
  assumes "find_sub p s = Some i"
  shows "i + length p \<le> length s"
proof -
  from find_sub_Some [OF assms] have t: "take (length p) (drop i s) = p" "i \<le> length s"
    by (auto simp: starts_with_def)
  from arg_cong [OF t(1), of length] t(2) show ?thesis by simp
qed

text \<open>\<open>while let Some(pos) = sse_buf.find("\n\n")\<close>: the complete blocks and what is left.\<close>

function sse_blocks :: "string \<Rightarrow> string list \<times> string" where
  "sse_blocks buf =
     (case find_sub [nl, nl] buf of
        None \<Rightarrow> ([], buf)
      | Some pos \<Rightarrow> (let (bs, rest) = sse_blocks (drop (pos + 2) buf) in (take (pos + 2) buf # bs, rest)))"
  by pat_completeness auto
termination
  by (relation "measure length") (auto dest!: find_sub_bound)

declare sse_blocks.simps [simp del]

definition sse_line :: "string \<Rightarrow> string \<times> string \<Rightarrow> string \<times> string" where
  "sse_line l ed =
     (case strip_prefix ''event:'' l of
        Some rest \<Rightarrow> (trim rest, snd ed)
      | None \<Rightarrow> (case strip_prefix ''data:'' l of Some rest \<Rightarrow> (fst ed, trim rest) | None \<Rightarrow> ed))"

definition sse_fields :: "string \<Rightarrow> string \<times> string" where
  "sse_fields block = fold sse_line (lines block) ([], [])"

definition outbound_of :: "json \<Rightarrow> outbound option" where
  "outbound_of v =
     (case (Option.bind (json_get ''content'' v) as_str, Option.bind (json_get ''chat_id'' v) as_str) of
        (Some content, Some chat) \<Rightarrow>
          Some \<lparr>out_chat_id = chat, out_content = content,
            out_attachments = (case Option.bind (json_get ''attachments'' v) as_arr of Some xs \<Rightarrow> List.map_filter as_str xs | None \<Rightarrow> []),
            out_react_to = Option.bind (json_get ''react_to'' v) as_str\<rparr>
      | _ \<Rightarrow> None)"

definition relay_block :: "relay_env \<Rightarrow> string \<Rightarrow> outbound list" where
  "relay_block e block =
     (case sse_fields block of
        (event, data) \<Rightarrow>
          if event = ''message'' \<and> data \<noteq> []
          then (case Option.bind (re_parse e data) outbound_of of Some out \<Rightarrow> [out] | None \<Rightarrow> [])
          else [])"

section \<open>The loop\<close>

datatype relay_input =
    Inbound "inbound option" \<comment> \<open>\<open>None\<close>: the channel is closed\<close>
  | Chunk string
  | Stream_Error string
  | Stream_End

datatype relay_action = Post json | Send outbound

text \<open>The actions, and how the loop returned: \<open>None\<close> while it still runs.\<close>

fun relay_loop :: "relay_env \<Rightarrow> string \<Rightarrow> string \<Rightarrow> relay_input list \<Rightarrow> relay_action list \<times> (string + unit) option" where
  "relay_loop e user buf [] = ([], None)"
| "relay_loop e user buf (Inbound (Some msg) # ins) =
     (let (acts, r) = relay_loop e user buf ins in (Post (inbound_body user msg) # acts, r))"
| "relay_loop e user buf (Inbound None # ins) = ([], Some (Inr ()))"
| "relay_loop e user buf (Chunk bytes # ins) =
     (let (blocks, rest) = sse_blocks (buf @ re_lossy e bytes);
          (acts, r) = relay_loop e user rest ins
      in (map Send (concat (map (relay_block e) blocks)) @ acts, r))"
| "relay_loop e user buf (Stream_Error err # ins) = ([], Some (Inl (''SSE stream error: '' @ err)))"
| "relay_loop e user buf (Stream_End # ins) = ([], Some (Inr ()))"

section \<open>Lemmas\<close>

lemma starts_with_cut: "length p \<le> length x \<Longrightarrow> starts_with p (x @ y) \<longleftrightarrow> starts_with p x"
  by (simp add: starts_with_def)

lemma find_sub_append: "find_sub p x = Some i \<Longrightarrow> find_sub p (x @ y) = Some i"
proof (induction x arbitrary: i)
  case Nil
  then show ?case by (cases y) (auto simp: starts_with_def split: if_splits)
next
  case (Cons c x)
  have "length p \<le> length (c # x)" using find_sub_bound [OF Cons.prems] by simp
  from starts_with_cut [OF this, of y] Cons show ?case by (auto split: if_splits)
qed

lemma sse_blocks_append:
  "sse_blocks (x @ y) = (fst (sse_blocks x) @ fst (sse_blocks (snd (sse_blocks x) @ y)), snd (sse_blocks (snd (sse_blocks x) @ y)))"
proof (induction x rule: sse_blocks.induct)
  case (1 x)
  show ?case
  proof (cases "find_sub [nl, nl] x")
    case None
    then show ?thesis by (simp add: sse_blocks.simps [of x])
  next
    case (Some pos)
    have "pos + 2 \<le> length x" using find_sub_bound [OF Some] by simp
    with find_sub_append [OF Some, of y] 1 [OF Some] Some show ?thesis
      by (simp add: sse_blocks.simps [of "x @ y"] sse_blocks.simps [of x] case_prod_beta)
  qed
qed

fun open_input :: "relay_input \<Rightarrow> bool" where
  "open_input (Inbound m) \<longleftrightarrow> m \<noteq> None"
| "open_input (Chunk _) \<longleftrightarrow> True"
| "open_input _ \<longleftrightarrow> False"

definition from_peer :: "relay_input list \<Rightarrow> inbound list" where
  "from_peer = List.map_filter (\<lambda>i. case i of Inbound m \<Rightarrow> m | _ \<Rightarrow> None)"

definition stream_text :: "relay_input list \<Rightarrow> string" where
  "stream_text ins = concat (map (\<lambda>i. case i of Chunk b \<Rightarrow> b | _ \<Rightarrow> []) ins)"

definition posts :: "relay_action list \<Rightarrow> json list" where
  "posts = List.map_filter (\<lambda>a. case a of Post j \<Rightarrow> Some j | _ \<Rightarrow> None)"

definition sends :: "relay_action list \<Rightarrow> outbound list" where
  "sends = List.map_filter (\<lambda>a. case a of Send out \<Rightarrow> Some out | _ \<Rightarrow> None)"

lemma map_filter_append: "List.map_filter f (xs @ ys) = List.map_filter f xs @ List.map_filter f ys"
  by (induction xs) (simp_all add: map_filter_simps split: option.splits)

lemma map_filter_Send: "List.map_filter (\<lambda>a. case a of Send out \<Rightarrow> Some out | _ \<Rightarrow> None) (map Send outs) = outs"
  "List.map_filter (\<lambda>a. case a of Post j \<Rightarrow> Some j | _ \<Rightarrow> None) (map Send outs) = []"
  by (induction outs) (simp_all add: map_filter_simps)

lemma actions_simps [simp]:
  "posts [] = []" "sends [] = []" "posts (Post j # acts) = j # posts acts" "posts (Send out # acts) = posts acts"
  "sends (Post j # acts) = sends acts" "sends (Send out # acts) = out # sends acts"
  "posts (map Send outs @ acts) = posts acts" "sends (map Send outs @ acts) = outs @ sends acts"
  using map_filter_Send [of outs]
  by (auto simp: posts_def sends_def map_filter_simps map_filter_append)

definition lossless :: "relay_env \<Rightarrow> relay_input list \<Rightarrow> bool" where
  "lossless e ins \<longleftrightarrow> list_all (\<lambda>i. case i of Chunk b \<Rightarrow> re_lossy e b = b | _ \<Rightarrow> True) ins"

lemma sse_blocks_rest: "sse_blocks (snd (sse_blocks x)) = ([], snd (sse_blocks x))"
proof (induction x rule: sse_blocks.induct)
  case (1 x)
  show ?case
  proof (cases "find_sub [nl, nl] x")
    case None
    then show ?thesis by (simp add: sse_blocks.simps [of x])
  next
    case (Some pos)
    with 1 [OF Some] show ?thesis by (simp add: sse_blocks.simps [of x] case_prod_beta)
  qed
qed

lemma relay_loop_open:
  assumes "list_all open_input ins" "lossless e ins" "sse_blocks buf = ([], buf)"
  shows "snd (relay_loop e user buf ins) = None
    \<and> posts (fst (relay_loop e user buf ins)) = map (inbound_body user) (from_peer ins)
    \<and> sends (fst (relay_loop e user buf ins)) = concat (map (relay_block e) (fst (sse_blocks (buf @ stream_text ins))))"
  using assms
proof (induction e user buf ins rule: relay_loop.induct)
  case (4 e user buf bytes ins)
  obtain bs rest where b: "sse_blocks (buf @ bytes) = (bs, rest)" by fastforce
  with sse_blocks_rest [of "buf @ bytes"] have r: "sse_blocks rest = ([], rest)" by simp
  from 4 b r have ih: "snd (relay_loop e user rest ins) = None"
    "posts (fst (relay_loop e user rest ins)) = map (inbound_body user) (from_peer ins)"
    "sends (fst (relay_loop e user rest ins)) = concat (map (relay_block e) (fst (sse_blocks (rest @ stream_text ins))))"
    by (auto simp: lossless_def)
  from b 4 ih sse_blocks_append [of "buf @ bytes" "stream_text ins"] show ?case
    by (simp add: case_prod_beta lossless_def stream_text_def from_peer_def map_filter_simps)
qed (auto simp: case_prod_beta lossless_def stream_text_def from_peer_def map_filter_simps)

lemma sse_blocks_Nil [simp]: "sse_blocks [] = ([], [])"
  by (simp add: sse_blocks.simps)

subsection \<open>A frame of the stream\<close>

lemma split_inclusive_append: "c \<notin> set a \<Longrightarrow> split_inclusive c (a @ c # b) = (a @ [c]) # split_inclusive c b"
  by (induction a) auto

lemma lines_append: "nl \<notin> set a \<Longrightarrow> (a \<noteq> [] \<Longrightarrow> last a \<noteq> cr) \<Longrightarrow> lines (a @ nl # b) = a # lines b"
  by (auto simp: lines_def split_inclusive_append chomp_def Let_def)

lemma find_nlnl_skip: "nl \<notin> set a \<Longrightarrow> find_sub [nl, nl] (a @ s) = map_option ((+) (length a)) (find_sub [nl, nl] s)"
proof (induction a)
  case Nil
  then show ?case by (cases "find_sub [nl, nl] s") simp_all
next
  case (Cons x a)
  then show ?case by (cases "find_sub [nl, nl] s") (auto simp: starts_with_def)
qed

lemma sse_blocks_frame:
  assumes "nl \<notin> set a" "nl \<notin> set b" "b \<noteq> []"
  shows "sse_blocks (a @ nl # b @ [nl, nl] @ r) = ((a @ nl # b @ [nl, nl]) # fst (sse_blocks r), snd (sse_blocks r))"
proof -
  obtain x b' where b: "b = x # b'" "x \<noteq> nl" using assms by (cases b) auto
  have "find_sub [nl, nl] (nl # b @ [nl, nl] @ r) = Some (Suc (length b))"
    using find_nlnl_skip [OF assms(2), of "[nl, nl] @ r"] b by (simp add: starts_with_def)
  then have "find_sub [nl, nl] (a @ nl # b @ [nl, nl] @ r) = Some (length a + Suc (length b))"
    by (subst find_nlnl_skip [OF assms(1)]) simp
  moreover have n: "length a + Suc (length b) + 2 = length (a @ nl # b @ [nl, nl])" by simp
  have "take (length a + Suc (length b) + 2) (a @ nl # b @ [nl, nl] @ r) = a @ nl # b @ [nl, nl]"
    unfolding n using append_eq_conv_conj [of "a @ nl # b @ [nl, nl]" r "a @ nl # b @ [nl, nl] @ r"] by simp
  moreover have "drop (length a + Suc (length b) + 2) (a @ nl # b @ [nl, nl] @ r) = r"
    unfolding n using append_eq_conv_conj [of "a @ nl # b @ [nl, nl]" r "a @ nl # b @ [nl, nl] @ r"] by simp
  ultimately show ?thesis by (subst sse_blocks.simps) (simp only: option.case case_prod_beta Let_def)
qed

lemma utf8_chars_snoc: "\<not> is_cont c \<Longrightarrow> utf8_chars (s @ [c]) = utf8_chars s @ [[c]]"
proof (induction s rule: utf8_chars.induct)
  case (2 x cs)
  show ?case
  proof (cases "\<forall>y \<in> set cs. is_cont y")
    case True
    then have t: "takeWhile is_cont cs = cs" "dropWhile is_cont cs = []" by simp_all
    with True 2 show ?thesis by (simp add: takeWhile_append dropWhile_append t)
  next
    case False
    with 2 show ?thesis by (auto simp: takeWhile_append dropWhile_append)
  qed
qed simp

lemma trim_braces: "trim (CHR '' '' # CHR ''{'' # b @ ''}'') = CHR ''{'' # b @ ''}''"
proof -
  let ?j = "CHR ''{'' # b @ ''}''"
  have c: "\<not> is_cont (CHR ''{'')" "\<not> is_cont (CHR ''}'')" by (simp_all add: is_cont_def)
  have w: "is_ws ''{'' = False" "is_ws ''}'' = False" "is_ws '' ''" by (simp_all add: is_ws_def)
  obtain x xs where x: "utf8_chars ?j = (CHR ''{'' # x) # xs" by simp
  have nw: "\<not> is_ws (CHR ''{'' # x)" by (auto simp: is_ws_def)
  have "trim_start (CHR '' '' # ?j) = ?j"
    using c w nw x concat_utf8_chars [of ?j] by (simp add: trim_start_def del: concat_utf8_chars)
  moreover have "trim_end ?j = ?j"
    using utf8_chars_snoc [OF c(2), of "CHR ''{'' # b"] w concat_utf8_chars [of "CHR ''{'' # b"]
    by (simp add: trim_end_def del: utf8_chars.simps)
  ultimately show ?thesis by (simp add: trim_def)
qed

subsection \<open>From the daemon's broadcast to the bridge\<close>

text \<open>The documented text of a server-sent event with a name and one line of data; \<open>pr\<close> prints JSON.\<close>

definition sse_text :: "(json \<Rightarrow> string) \<Rightarrow> string \<times> json \<Rightarrow> string" where
  "sse_text pr ev = (''event: '' @ fst ev) @ nl # (''data: '' @ pr (snd ev)) @ [nl, nl]"

text \<open>What a printer and a parser of JSON objects do on a value.\<close>

definition printed_object :: "relay_env \<Rightarrow> (json \<Rightarrow> string) \<Rightarrow> json \<Rightarrow> bool" where
  "printed_object e pr j \<longleftrightarrow> re_parse e (pr j) = Some j \<and> nl \<notin> set (pr j) \<and> (\<exists>b. pr j = CHR ''{'' # b @ ''}'')"

definition delivered :: "string \<Rightarrow> broadcast_msg \<Rightarrow> outbound list" where
  "delivered pattern m =
     (case m of
        BMessage chat content attachments i created_at react_to \<Rightarrow>
          if sse_passes pattern chat
          then [\<lparr>out_chat_id = chat, out_content = content, out_attachments = attachments, out_react_to = react_to\<rparr>] else []
      | BStatus _ \<Rightarrow> [])"

lemma trim_event: "trim '' message'' = ''message''" "trim '' status'' = ''status''"
  by code_simp+

lemma as_str_opt_str [simp]: "as_str (opt_str s) = s"
  by (simp add: opt_str_def split: option.split)

lemma map_filter_as_str [simp]: "List.map_filter as_str (map JStr xs) = xs"
  by (induction xs) (simp_all add: map_filter_simps)

lemma sse_fields_frame:
  assumes "printed_object e pr (snd ev)" "fst ev = ''message'' \<or> fst ev = ''status''"
  shows "sse_fields (sse_text pr ev) = (fst ev, pr (snd ev))"
proof -
  obtain b where b: "pr (snd ev) = CHR ''{'' # b @ ''}''" "nl \<notin> set (pr (snd ev))"
    using assms(1) by (auto simp: printed_object_def)
  have "lines (sse_text pr ev) = [''event: '' @ fst ev, ''data: '' @ pr (snd ev), []]"
  proof -
    have "lines [nl] = [[]]" by code_simp
    then have "lines ((''data: '' @ pr (snd ev)) @ nl # [nl]) = [''data: '' @ pr (snd ev), []]"
      using lines_append [of "''data: '' @ pr (snd ev)" "[nl]"] b by auto
    then show ?thesis
      unfolding sse_text_def using lines_append [of "''event: '' @ fst ev" "(''data: '' @ pr (snd ev)) @ [nl, nl]"] assms(2)
      by auto
  qed
  moreover have "trim (CHR '' '' # pr (snd ev)) = pr (snd ev)"
    by (simp only: b(1) trim_braces)
  moreover have "trim (CHR '' '' # fst ev) = fst ev" using assms(2) trim_event by auto
  ultimately show ?thesis
    by (simp add: sse_fields_def sse_line_def strip_prefix_def starts_with_def)
qed

lemma relay_frame:
  assumes "handle_sse pattern m = Some ev" "printed_object e pr (snd ev)"
  shows "relay_block e (sse_text pr ev) = delivered pattern m"
proof -
  have n: "fst ev = ''message'' \<or> fst ev = ''status''"
    using assms(1) by (cases m) (auto split: if_splits)
  have p: "re_parse e (pr (snd ev)) = Some (snd ev)" "pr (snd ev) \<noteq> []" using assms(2) by (auto simp: printed_object_def)
  show ?thesis
    using assms(1) p by (cases m)
      (auto simp: relay_block_def sse_fields_frame [OF assms(2) n] delivered_def outbound_of_def split: if_splits)
qed

lemma handle_sse_name: "handle_sse pattern m = Some ev \<Longrightarrow> fst ev = ''message'' \<or> fst ev = ''status''"
  by (cases m) (auto split: if_splits)

lemma sse_blocks_frames:
  assumes "\<forall>ev \<in> set evs. printed_object e pr (snd ev) \<and> (fst ev = ''message'' \<or> fst ev = ''status'')"
  shows "fst (sse_blocks (concat (map (sse_text pr) evs))) = map (sse_text pr) evs"
  using assms
proof (induction evs)
  case (Cons ev evs)
  then obtain b where b: "pr (snd ev) = CHR ''{'' # b @ ''}''" "nl \<notin> set (pr (snd ev))"
    by (auto simp: printed_object_def)
  have "nl \<notin> set (fst ev)" using Cons.prems by auto
  then have "sse_blocks (sse_text pr ev @ r) = (sse_text pr ev # fst (sse_blocks r), snd (sse_blocks r))" for r
    using sse_blocks_frame [of "''event: '' @ fst ev" "''data: '' @ pr (snd ev)" r] b(2) by (simp add: sse_text_def)
  with Cons show ?case by simp
qed simp

lemma broadcast_frames:
  assumes "\<forall>ev \<in> set (List.map_filter (handle_sse pattern) ms). printed_object e pr (snd ev)"
  shows "fst (sse_blocks (concat (map (sse_text pr) (List.map_filter (handle_sse pattern) ms)))) =
     map (sse_text pr) (List.map_filter (handle_sse pattern) ms)"
proof (rule sse_blocks_frames [where e = e])
  have "fst ev = ''message'' \<or> fst ev = ''status''" if "ev \<in> set (List.map_filter (handle_sse pattern) ms)" for ev
    using that handle_sse_name by (induction ms) (auto simp: map_filter_simps split: option.splits)
  with assms show "\<forall>ev \<in> set (List.map_filter (handle_sse pattern) ms). printed_object e pr (snd ev) \<and> (fst ev = ''message'' \<or> fst ev = ''status'')"
    by blast
qed

lemma relay_frames:
  assumes "\<forall>ev \<in> set (List.map_filter (handle_sse pattern) ms). printed_object e pr (snd ev)"
  shows "concat (map (relay_block e) (fst (sse_blocks (concat (map (sse_text pr) (List.map_filter (handle_sse pattern) ms))))))
    = concat (map (delivered pattern) ms)"
  unfolding broadcast_frames [OF assms] using assms
proof (induction ms)
  case (Cons m ms)
  show ?case
  proof (cases "handle_sse pattern m")
    case None
    then have "delivered pattern m = []" by (cases m) (auto simp: delivered_def split: if_splits)
    with None Cons show ?thesis by (simp add: map_filter_simps)
  next
    case (Some ev)
    with Cons relay_frame [OF Some] show ?thesis by (simp add: map_filter_simps)
  qed
qed (simp add: map_filter_simps)

section \<open>The contract of a bridge\<close>

text \<open>A bridge takes the chats of one prefix. It makes no call for another chat, and every call it makes
  for a chat goes there.\<close>

locale chat_bridge =
  fixes prefix :: string
    and handle :: "outbound \<Rightarrow> 'c list"
    and goes_to :: "'c \<Rightarrow> string \<Rightarrow> bool"
  assumes refused: "strip_prefix prefix (out_chat_id out) = None \<Longrightarrow> handle out = []"
    and addressed: "\<lbrakk>strip_prefix prefix (out_chat_id out) = Some c; call \<in> set (handle out)\<rbrakk> \<Longrightarrow> goes_to call c"
begin

lemma calls_addressed:
  assumes "call \<in> set (concat (map handle outs))"
  shows "\<exists>out \<in> set outs. \<exists>c. out_chat_id out = prefix @ c \<and> goes_to call c"
proof -
  obtain out where out: "out \<in> set outs" "call \<in> set (handle out)" using assms by auto
  then obtain c where c: "strip_prefix prefix (out_chat_id out) = Some c" using refused by fastforce
  with addressed [OF c out(2)] out(1) show ?thesis by (auto simp: strip_prefix_Some_iff)
qed

text \<open>Behind a relay that reads the daemon's stream, no call goes to a chat that nothing was broadcast to.\<close>

lemma relay_addressed:
  assumes "list_all open_input ins" "lossless e ins"
    "stream_text ins = concat (map (sse_text pr) (List.map_filter (handle_sse pattern) ms))"
    "\<forall>ev \<in> set (List.map_filter (handle_sse pattern) ms). printed_object e pr (snd ev)"
    "call \<in> set (concat (map handle (sends (fst (relay_loop e user [] ins)))))"
  shows "\<exists>c content atts i created_at react_to. BMessage (prefix @ c) content atts i created_at react_to \<in> set ms \<and> goes_to call c"
proof -
  have "sends (fst (relay_loop e user [] ins)) = concat (map (delivered pattern) ms)"
    using relay_loop_open [OF assms(1,2), of "[]" user] relay_frames [OF assms(4)] assms(3) by simp
  then obtain out c m where m: "m \<in> set ms" "out \<in> set (delivered pattern m)" "out_chat_id out = prefix @ c" "goes_to call c"
    using calls_addressed [OF assms(5)] by auto
  obtain content atts i created_at react_to where "m = BMessage (prefix @ c) content atts i created_at react_to"
    using m(2,3) by (cases m) (auto simp: delivered_def split: if_splits)
  with m(1,4) show ?thesis by blast
qed

end

section \<open>Properties\<close>

text \<open>C29: However the messages of the service and the chunks of the daemon's stream interleave, and
  wherever the stream is cut into chunks, a running relay posts exactly the service's messages in their
  order, and sends exactly the messages of the stream's complete blocks in theirs: the chunk boundaries make
  no difference as long as each chunk decodes without loss.\<close>

theorem relay_interleaving:
  assumes "list_all open_input ins" "lossless e ins"
  shows "snd (relay_loop e user [] ins) = None
    \<and> posts (fst (relay_loop e user [] ins)) = map (inbound_body user) (from_peer ins)
    \<and> sends (fst (relay_loop e user [] ins)) = concat (map (relay_block e) (fst (sse_blocks (stream_text ins))))"
  using relay_loop_open [OF assms, of "[]"] by simp

definition example_relay :: relay_env where
  "example_relay = \<lparr>re_lossy = (\<lambda>s. s), re_parse = (\<lambda>s. Some (JObj [(''content'', JStr ''hi''), (''chat_id'', JStr ''local'')]))\<rparr>"

definition example_inputs :: "relay_input list" where
  "example_inputs =
     [Chunk ''event: mess'', Inbound (Some \<lparr>in_chat_id = ''local'', in_text = ''x'', in_attachments = [], in_message_ref = None\<rparr>),
      Chunk (''age'' @ [nl] @ ''data: {}'' @ [nl]), Chunk [nl]]"

theorem relay_interleaving_witness:
  "posts (fst (relay_loop example_relay ''u'' [] example_inputs)) = map (inbound_body ''u'') (from_peer example_inputs)"
  using relay_interleaving [of example_inputs example_relay "''u''"]
  by (simp add: example_inputs_def example_relay_def lossless_def)


definition example_broadcasts :: "broadcast_msg list" where
  "example_broadcasts =
     [BStatus ''idle'', BMessage ''tg:1'' ''hi'' [''/a''] 3 ''t'' (Some ''9''), BMessage ''sl:1'' ''no'' [] 4 ''t'' None]"

definition example_message :: json where
  "example_message = snd (the (handle_sse ''tg:*'' (example_broadcasts ! 1)))"

definition example_print :: "json \<Rightarrow> string" where
  "example_print j = (if j = example_message then ''{m}'' else ''{s}'')"

definition example_decoder :: relay_env where
  "example_decoder = \<lparr>re_lossy = (\<lambda>s. s),
     re_parse = (\<lambda>s. Some (if s = ''{m}'' then example_message else JObj [(''status'', JStr ''idle'')]))\<rparr>"


end
