(* ===== verification/Telegram.thy ===== *)
theory Telegram
  imports Bridge_Relay Renderer
begin

text \<open>
  The Telegram bridge (src/src/bridges/telegram.rs): updates become inbound messages, outbound
  messages are split to Telegram's limit. The answers of Telegram's API are inputs; a text is
  well-formed UTF-8, which Rust's \<open>str\<close> guarantees.
\<close>

section \<open>Well-formed UTF-8\<close>

text \<open>The length of a character by its first byte; 0 for a byte that starts none.\<close>

definition char_len :: "char \<Rightarrow> nat" where
  "char_len c =
     (let b = (of_char c :: nat) in
      if b < 128 then 1 else if 194 \<le> b \<and> b < 224 then 2 else if 224 \<le> b \<and> b < 240 then 3 else if 240 \<le> b \<and> b < 245 then 4 else 0)"

fun utf8_ok :: "string \<Rightarrow> bool" where
  "utf8_ok [] = True"
| "utf8_ok (c # cs) =
     (char_len c \<noteq> 0 \<and> char_len c - 1 \<le> length cs \<and> list_all is_cont (take (char_len c - 1) cs) \<and> utf8_ok (drop (char_len c - 1) cs))"

section \<open>Splitting a message\<close>

definition telegram_max :: nat where
  "telegram_max = 4096"

text \<open>The hard split of a line over the limit: whole pieces and the rest. Without a boundary to cut at
  it would not end.\<close>

partial_function (option) hard_split :: "nat \<Rightarrow> string \<Rightarrow> (string list \<times> string) option" where
  "hard_split m rest =
     (if length rest > m
      then Option.bind (hard_split m (drop (snap_back rest m) rest)) (\<lambda>(pieces, r). Some (take (snap_back rest m) rest # pieces, r))
      else Some ([], rest))"

fun chunk_lines :: "nat \<Rightarrow> string list \<Rightarrow> string \<Rightarrow> string list option" where
  "chunk_lines m [] cur = Some (if cur = [] then [] else [cur])"
| "chunk_lines m (l # ls) cur =
     (let full = (length cur + length l > m \<and> cur \<noteq> []);
          out = (if full then [cur] else []);
          cur = (if full then [] else cur)
      in if length l > m
         then Option.bind (hard_split m l) (\<lambda>(pieces, rest). map_option (\<lambda>more. out @ pieces @ more) (chunk_lines m ls (cur @ rest)))
         else map_option (\<lambda>more. out @ more) (chunk_lines m ls (cur @ l)))"

definition chunk_for_telegram :: "string \<Rightarrow> string list option" where
  "chunk_for_telegram content =
     (if length content \<le> telegram_max then Some [content] else chunk_lines telegram_max (split_inclusive nl content) [])"

section \<open>Inbound\<close>

text \<open>The updates of one answer: the next offset and the messages passed on.\<close>

definition telegram_inbound :: "int list \<Rightarrow> json \<Rightarrow> inbound option" where
  "telegram_inbound allow update =
     (let msg = json_at ''message'' update in
      case as_i64 (json_at ''id'' (json_at ''chat'' msg)) of
        None \<Rightarrow> None
      | Some src \<Rightarrow>
          if allow \<noteq> [] \<and> src \<notin> set allow then None
          else map_option (\<lambda>text. \<lparr>in_chat_id = ''telegram:'' @ show_int src, in_text = text, in_attachments = [],
                 in_message_ref = map_option show_int (as_i64 (json_at ''message_id'' msg))\<rparr>) (as_str (json_at ''text'' msg)))"

fun telegram_updates :: "int list \<Rightarrow> json list \<Rightarrow> int \<Rightarrow> int \<times> inbound list" where
  "telegram_updates allow [] offset = (offset, [])"
| "telegram_updates allow (update # updates) offset =
     (let offset = (case as_i64 (json_at ''update_id'' update) of Some i \<Rightarrow> wrap_i64 (i + 1) | None \<Rightarrow> offset);
          (offset, msgs) = telegram_updates allow updates offset
      in (offset, (case telegram_inbound allow update of Some m \<Rightarrow> m # msgs | None \<Rightarrow> msgs)))"

definition telegram_poll :: "int list \<Rightarrow> json \<Rightarrow> int \<Rightarrow> int \<times> inbound list" where
  "telegram_poll allow resp offset =
     telegram_updates allow (case as_arr (json_at ''result'' resp) of Some us \<Rightarrow> us | None \<Rightarrow> []) offset"

section \<open>Outbound\<close>

datatype telegram_call = Send_Message int string | Send_File string int string string \<comment> \<open>method, chat, file name, bytes\<close>

text \<open>The calls made so far, and whether the next one succeeds.\<close>

fun send_chunks :: "(telegram_call list \<Rightarrow> bool) \<Rightarrow> int \<Rightarrow> string list \<Rightarrow> telegram_call list \<Rightarrow> (string + unit) \<times> telegram_call list" where
  "send_chunks ok recipient [] calls = (Inr (), calls)"
| "send_chunks ok recipient (chunk # chunks) calls =
     (if chunk = [] then send_chunks ok recipient chunks calls
      else let calls' = calls @ [Send_Message recipient chunk]
           in if ok calls' then send_chunks ok recipient chunks calls' else (Inl ''sendMessage'', calls'))"

fun send_files ::
  "(telegram_call list \<Rightarrow> bool) \<Rightarrow> (string \<Rightarrow> string option) \<Rightarrow> int \<Rightarrow> string list \<Rightarrow> telegram_call list \<Rightarrow> (string + unit) \<times> telegram_call list" where
  "send_files ok read recipient [] calls = (Inr (), calls)"
| "send_files ok read recipient (path # paths) calls =
     (case read path of
        None \<Rightarrow> (Inl (''reading '' @ path), calls)
      | Some bytes \<Rightarrow>
          let name = (case file_name path of Some n \<Rightarrow> n | None \<Rightarrow> ''file'');
              is_image = (\<exists>x \<in> set [''jpg'', ''jpeg'', ''png'', ''gif'', ''webp'']. extension path = Some x);
              how = (if is_image then ''sendPhoto'' else ''sendDocument'');
              calls' = calls @ [Send_File how recipient name bytes]
          in if ok calls' then send_files ok read recipient paths calls' else (Inl how, calls'))"

definition telegram_outbound ::
  "(telegram_call list \<Rightarrow> bool) \<Rightarrow> (string \<Rightarrow> string option) \<Rightarrow> outbound \<Rightarrow> ((string + unit) \<times> telegram_call list) option" where
  "telegram_outbound ok read out =
     (case Option.bind (strip_prefix ''telegram:'' (out_chat_id out)) parse_i64 of
        None \<Rightarrow> Some (Inl (''bad telegram chat_id: '' @ out_chat_id out), [])
      | Some recipient \<Rightarrow>
     (case chunk_for_telegram (out_content out) of
        None \<Rightarrow> None
      | Some chunks \<Rightarrow>
     (case send_chunks ok recipient chunks [] of
        (Inl err, calls) \<Rightarrow> Some (Inl err, calls)
      | (Inr _, calls) \<Rightarrow> Some (send_files ok read recipient (out_attachments out) calls))))"

section \<open>Lemmas\<close>

lemma char_len_cont: "char_len c \<noteq> 0 \<Longrightarrow> \<not> is_cont c"
  by (auto simp: char_len_def is_cont_def Let_def split: if_splits)

lemma char_len_le: "char_len c \<le> 4"
  by (simp add: char_len_def Let_def)

lemma utf8_ok_hd: "utf8_ok s \<Longrightarrow> s \<noteq> [] \<Longrightarrow> \<not> is_cont (hd s)"
  using char_len_cont by (cases s) auto

lemma utf8_ok_char: "\<lbrakk>char_len c \<noteq> 0; length conts = char_len c - 1; list_all is_cont conts; utf8_ok s\<rbrakk> \<Longrightarrow> utf8_ok (c # conts @ s)"
  by simp

lemma utf8_ok_Cons:
  "utf8_ok (c # cs) \<Longrightarrow> char_len c \<noteq> 0 \<and> char_len c - 1 \<le> length cs \<and> list_all is_cont (take (char_len c - 1) cs) \<and> utf8_ok (drop (char_len c - 1) cs)"
  by simp

declare utf8_ok.simps(2) [simp del]

text \<open>Induction over the characters of a text.\<close>

lemma utf8_ok_induct [consumes 1, case_names Nil Char]:
  assumes "utf8_ok s" "P []"
    and "\<And>c conts s. \<lbrakk>char_len c = Suc (length conts); list_all is_cont conts; utf8_ok s; P s\<rbrakk> \<Longrightarrow> P (c # conts @ s)"
  shows "P s"
  using assms(1)
proof (induction s rule: utf8_ok.induct)
  case (2 c cs)
  let ?k = "char_len c - 1"
  have "P (c # take ?k cs @ drop ?k cs)"
    by (rule assms(3)) (use 2 utf8_ok_Cons [OF 2(2)] in auto)
  then show ?case by simp
qed (rule assms(2))

lemma utf8_ok_append: "utf8_ok a \<Longrightarrow> utf8_ok b \<Longrightarrow> utf8_ok (a @ b)"
proof (induction a rule: utf8_ok_induct)
  case (Char c conts s)
  then have "utf8_ok (c # conts @ (s @ b))" by (intro utf8_ok_char) auto
  then show ?case by simp
qed simp

lemma boundary_lift:
  assumes "utf8_ok s" "is_char_boundary s i"
  shows "is_char_boundary (c # conts @ s) (Suc (length conts) + i)"
proof (cases i)
  case 0
  show ?thesis
  proof (cases s)
    case (Cons x xs)
    with utf8_ok_hd [OF assms(1)] 0 show ?thesis by (simp add: is_char_boundary_def nth_append)
  qed (simp add: 0 is_char_boundary_def)
next
  case (Suc j)
  with assms(2) show ?thesis by (auto simp: is_char_boundary_def nth_append split: if_splits)
qed

lemma boundary_near: "utf8_ok s \<Longrightarrow> m \<le> length s \<Longrightarrow> \<exists>i \<le> m. m \<le> i + 3 \<and> is_char_boundary s i"
proof (induction s arbitrary: m rule: utf8_ok_induct)
  case (Char c conts s)
  show ?case
  proof (cases "m < char_len c")
    case True
    then show ?thesis using char_len_le [of c] by (intro exI [of _ 0]) auto
  next
    case False
    have "m - char_len c \<le> length s" using Char.prems Char.hyps(1) by simp
    from Char.IH [OF this] obtain i where i: "i \<le> m - char_len c" "m - char_len c \<le> i + 3" "is_char_boundary s i"
      by blast
    from boundary_lift [OF Char.hyps(3) i(3), of c conts] i(1,2) False Char.hyps(1) show ?thesis
      by (intro exI [of _ "Suc (length conts) + i"]) auto
  qed
qed simp

lemma utf8_ok_cut: "utf8_ok s \<Longrightarrow> is_char_boundary s i \<Longrightarrow> utf8_ok (take i s) \<and> utf8_ok (drop i s)"
proof (induction s arbitrary: i rule: utf8_ok_induct)
  case (Char c conts s)
  show ?case
  proof (cases i)
    case (Suc j)
    have j: "length conts \<le> j"
    proof (rule ccontr)
      assume "\<not> length conts \<le> j"
      then have "is_cont ((conts @ s) ! j)" "j < length (conts @ s)" using Char.hyps(2) by (auto simp: list_all_length nth_append)
      with Char.prems Suc show False by (simp add: is_char_boundary_def)
    qed
    then have "is_char_boundary s (j - length conts)"
      using Char.prems Suc by (auto simp: is_char_boundary_def nth_append split: if_splits)
    from Char.IH [OF this] have u: "utf8_ok (take (j - length conts) s)" "utf8_ok (drop (j - length conts) s)" by simp_all
    have "utf8_ok (c # conts @ take (j - length conts) s)"
      using u(1) Char.hyps by (intro utf8_ok_char) auto
    with u(2) Suc j show ?thesis by simp
  next
    case 0
    have "utf8_ok (c # conts @ s)" using Char.hyps by (intro utf8_ok_char) auto
    with 0 show ?thesis by simp
  qed
qed simp

text \<open>The cut of an overlong text: a boundary at most three bytes before the limit.\<close>

lemma snap_back_near:
  assumes "utf8_ok s" "m \<le> length s"
  shows "m \<le> snap_back s m + 3" "is_char_boundary s (snap_back s m)"
proof -
  obtain i where i: "i \<le> m" "m \<le> i + 3" "is_char_boundary s i" using boundary_near [OF assms] by blast
  from snap_back_max [OF i(1,3)] i(2) show "m \<le> snap_back s m + 3" by simp
  show "is_char_boundary s (snap_back s m)" by (rule snap_back_boundary [OF assms(2)])
qed

definition fits :: "nat \<Rightarrow> string \<Rightarrow> bool" where
  "fits m s \<longleftrightarrow> length s \<le> m \<and> utf8_ok s \<and> s \<noteq> []"

lemma hard_split_fits:
  assumes "utf8_ok s" "3 < m"
  shows "\<exists>pieces rest. hard_split m s = Some (pieces, rest) \<and> concat pieces @ rest = s \<and>
     list_all (fits m) pieces \<and> utf8_ok rest \<and> length rest \<le> m"
  using assms(1)
proof (induction "length s" arbitrary: s rule: less_induct)
  case less
  show ?case
  proof (cases "length s > m")
    case True
    let ?cut = "snap_back s m"
    have c: "m \<le> ?cut + 3" "is_char_boundary s ?cut" using snap_back_near [OF less.prems] True by auto
    have le: "?cut \<le> m" by (rule snap_back_le)
    have u: "utf8_ok (take ?cut s)" "utf8_ok (drop ?cut s)" using utf8_ok_cut [OF less.prems c(2)] by simp_all
    have "length (drop ?cut s) < length s" using c(1) assms(2) True by simp
    from less.hyps [OF this u(2)] obtain pieces rest where
      "hard_split m (drop ?cut s) = Some (pieces, rest)" "concat pieces @ rest = drop ?cut s"
      "list_all (fits m) pieces" "utf8_ok rest" "length rest \<le> m" by blast
    moreover have "fits m (take ?cut s)" using u(1) le c(1) assms(2) True by (auto simp: fits_def)
    moreover have "take ?cut s @ concat pieces @ rest = s" using \<open>concat pieces @ rest = drop ?cut s\<close> by simp
    ultimately show ?thesis using True by (subst hard_split.simps) simp
  next
    case False
    with less.prems show ?thesis by (subst hard_split.simps) simp
  qed
qed

lemma chunk_lines_fits:
  assumes "3 < m" "list_all utf8_ok ls" "utf8_ok cur" "length cur \<le> m"
  shows "\<exists>cs. chunk_lines m ls cur = Some cs \<and> concat cs = cur @ concat ls \<and> list_all (fits m) cs"
  using assms
proof (induction m ls cur rule: chunk_lines.induct)
  case (2 m l ls cur)
  define full where "full \<longleftrightarrow> length cur + length l > m \<and> cur \<noteq> []"
  define out where "out = (if full then [cur] else [])"
  define cur' where "cur' = (if full then [] else cur)"
  have o: "concat out @ cur' = cur" "list_all (fits m) out" "utf8_ok cur'"
    using 2(5,6) by (auto simp: out_def cur'_def full_def fits_def)
  show ?case
  proof (cases "length l > m")
    case True
    have e: "cur' = []" using True by (simp add: cur'_def full_def)
    have "utf8_ok l" using 2(4) by simp
    from hard_split_fits [OF this 2(3)] obtain pieces rest where h: "hard_split m l = Some (pieces, rest)"
      "concat pieces @ rest = l" "list_all (fits m) pieces" "utf8_ok rest" "length rest \<le> m" by blast
    from "2.IH"(1) [OF full_def out_def cur'_def True, of "(pieces, rest)" pieces rest] h e 2(3,4)
    obtain more where "chunk_lines m ls (cur' @ rest) = Some more" "concat more = rest @ concat ls" "list_all (fits m) more"
      by auto
    moreover from this(1) have "chunk_lines m (l # ls) cur = Some (out @ pieces @ more)"
      using h(1) True e by (simp add: Let_def out_def full_def)
    moreover have "concat (out @ pieces @ more) = cur @ concat (l # ls)"
      using o(1) e h(2) \<open>concat more = rest @ concat ls\<close> by (simp flip: h(2))
    ultimately show ?thesis using o(2) h(3) by simp
  next
    case False
    have "length (cur' @ l) \<le> m" using False by (auto simp: cur'_def full_def)
    moreover have "utf8_ok (cur' @ l)" using o(3) 2(4) utf8_ok_append by simp
    ultimately obtain more where "chunk_lines m ls (cur' @ l) = Some more" "concat more = (cur' @ l) @ concat ls" "list_all (fits m) more"
      using "2.IH"(2) [OF full_def out_def cur'_def False] 2(3,4) by auto
    moreover from this(1) have "chunk_lines m (l # ls) cur = Some (out @ more)"
      using False by (auto simp: Let_def out_def full_def cur'_def split: if_splits)
    moreover have "concat (out @ more) = cur @ concat (l # ls)"
      using o(1) \<open>concat more = (cur' @ l) @ concat ls\<close> by (simp flip: o(1))
    ultimately show ?thesis using o(2) by simp
  qed
qed (auto simp: fits_def)

lemma lines_utf8_ok: "utf8_ok s \<Longrightarrow> list_all utf8_ok (split_inclusive nl s)"
proof (induction s rule: utf8_ok_induct)
  case (Char c conts s)
  have glue: "split_inclusive nl (x @ r) = (case split_inclusive nl r of [] \<Rightarrow> [x] | y # ys \<Rightarrow> (x @ y) # ys)"
    if "nl \<notin> set x" "x \<noteq> []" for x r
    using that
  proof (induction x)
    case (Cons a x)
    then show ?case by (cases "x = []"; cases "split_inclusive nl r") auto
  qed simp
  show ?case
  proof (cases "c = nl")
    case True
    then have "conts = []" using Char.hyps(1) by (simp add: char_len_def)
    moreover have "utf8_ok [nl]" by (simp add: utf8_ok.simps(2) char_len_def)
    ultimately show ?thesis using True Char.IH by simp
  next
    case False
    have "nl \<notin> set conts" using Char.hyps(2) by (auto simp: list_all_iff is_cont_def)
    with False have g: "split_inclusive nl (c # conts @ s) = (case split_inclusive nl s of [] \<Rightarrow> [c # conts] | y # ys \<Rightarrow> ((c # conts) @ y) # ys)"
      using glue [of "c # conts" s] by (simp del: split_inclusive.simps)
    have "utf8_ok (c # conts @ y)" if "utf8_ok y" for y using that Char.hyps by (intro utf8_ok_char) auto
    from this [of "[]"] this show ?thesis using Char.IH g by (auto split: list.splits)
  qed
qed simp

lemma chunks_fit:
  assumes "utf8_ok content"
  shows "\<exists>cs. chunk_for_telegram content = Some cs \<and> concat cs = content \<and>
     list_all (\<lambda>s. length s \<le> telegram_max \<and> utf8_ok s) cs \<and> (content \<noteq> [] \<longrightarrow> [] \<notin> set cs)"
proof (cases "length content \<le> telegram_max")
  case False
  have "3 < telegram_max" by (simp add: telegram_max_def)
  from chunk_lines_fits [OF this lines_utf8_ok [OF assms], of "[]"] False show ?thesis
    by (auto simp: chunk_for_telegram_def fits_def list_all_iff)
qed (use assms in \<open>simp add: chunk_for_telegram_def\<close>)

lemma send_chunks_all:
  assumes "\<And>calls. ok calls"
  shows "send_chunks ok r cs calls = (Inr (), calls @ map (Send_Message r) (filter (\<lambda>c. c \<noteq> []) cs))"
  using assms by (induction cs arbitrary: calls) auto

section \<open>The contract\<close>

definition telegram_handle :: "(telegram_call list \<Rightarrow> bool) \<Rightarrow> (string \<Rightarrow> string option) \<Rightarrow> outbound \<Rightarrow> telegram_call list" where
  "telegram_handle ok read out = (case telegram_outbound ok read out of Some (r, calls) \<Rightarrow> calls | None \<Rightarrow> [])"

fun telegram_goes_to :: "telegram_call \<Rightarrow> string \<Rightarrow> bool" where
  "telegram_goes_to (Send_Message r text) c = (parse_i64 c = Some r)"
| "telegram_goes_to (Send_File how r name bytes) c = (parse_i64 c = Some r)"

lemma send_chunks_goes_to:
  "\<lbrakk>send_chunks ok r cs calls = (res, calls'); parse_i64 c = Some r; \<forall>x \<in> set calls. telegram_goes_to x c\<rbrakk> \<Longrightarrow> \<forall>x \<in> set calls'. telegram_goes_to x c"
  by (induction cs arbitrary: calls) (auto simp: Let_def split: if_splits)

lemma send_files_goes_to:
  "\<lbrakk>send_files ok read r ps calls = (res, calls'); parse_i64 c = Some r; \<forall>x \<in> set calls. telegram_goes_to x c\<rbrakk> \<Longrightarrow> \<forall>x \<in> set calls'. telegram_goes_to x c"
proof (induction ps arbitrary: calls)
  case (Cons p ps)
  let ?calls = "\<lambda>bytes. calls @ [Send_File (if \<exists>x \<in> set [''jpg'', ''jpeg'', ''png'', ''gif'', ''webp'']. extension p = Some x then ''sendPhoto'' else ''sendDocument'') r
      (case file_name p of Some n \<Rightarrow> n | None \<Rightarrow> ''file'') bytes]"
  have "\<forall>x \<in> set (?calls bytes). telegram_goes_to x c" for bytes using Cons.prems by simp
  with Cons show ?case by (auto simp: Let_def simp del: list.set split: option.splits if_splits)
qed simp

interpretation telegram_bridge: chat_bridge "''telegram:''" "telegram_handle ok read" telegram_goes_to for ok read
proof
  fix out :: outbound and c call
  show "strip_prefix ''telegram:'' (out_chat_id out) = None \<Longrightarrow> telegram_handle ok read out = []"
    by (simp add: telegram_handle_def telegram_outbound_def)
  assume c: "strip_prefix ''telegram:'' (out_chat_id out) = Some c" "call \<in> set (telegram_handle ok read out)"
  then obtain r cs where r: "parse_i64 c = Some r" "chunk_for_telegram (out_content out) = Some cs"
    by (auto simp: telegram_handle_def telegram_outbound_def split: option.splits)
  obtain res calls where s: "send_chunks ok r cs [] = (res, calls)" by (cases "send_chunks ok r cs []")
  have all: "\<forall>x \<in> set calls. telegram_goes_to x c" using send_chunks_goes_to [OF s r(1)] by simp
  obtain res' calls' where f: "send_files ok read r (out_attachments out) calls = (res', calls')"
    by (cases "send_files ok read r (out_attachments out) calls")
  from send_files_goes_to [OF f r(1) all] all c r s f show "telegram_goes_to call c"
    by (cases res) (auto simp: telegram_handle_def telegram_outbound_def)
qed

section \<open>Properties\<close>

text \<open>A message to Telegram: when the chat id names a recipient and Telegram takes every call, a text of
  any length is sent completely, as messages to this recipient whose texts put together are the text, none
  empty, none over the limit of 4096 bytes and none cutting a character; in particular the
  splitting ends. An id that names none is refused before anything is sent.\<close>

theorem telegram_sends_text:
  assumes "utf8_ok (out_content out)" "\<And>calls. ok calls" "out_attachments out = []"
  shows "case Option.bind (strip_prefix ''telegram:'' (out_chat_id out)) parse_i64 of
     None \<Rightarrow> telegram_outbound ok read out = Some (Inl (''bad telegram chat_id: '' @ out_chat_id out), [])
   | Some r \<Rightarrow> \<exists>cs. telegram_outbound ok read out = Some (Inr (), map (Send_Message r) cs) \<and> concat cs = out_content out \<and>
       list_all (\<lambda>s. length s \<le> 4096 \<and> utf8_ok s \<and> s \<noteq> []) cs"
proof -
  obtain cs where cs: "chunk_for_telegram (out_content out) = Some cs" "concat cs = out_content out"
    "list_all (\<lambda>s. length s \<le> telegram_max \<and> utf8_ok s) cs"
    using chunks_fit [OF assms(1)] by blast
  have "concat (filter (\<lambda>c. c \<noteq> []) cs) = concat cs" by (induction cs) auto
  with cs send_chunks_all [OF assms(2)] assms(3) show ?thesis
    by (auto simp: telegram_outbound_def telegram_max_def list_all_iff split: option.split intro!: exI [of _ "filter (\<lambda>c. c \<noteq> []) cs"])
qed

definition sample_outbound :: outbound where
  "sample_outbound = \<lparr>out_chat_id = ''telegram:7'', out_content = ''hi'', out_attachments = [], out_react_to = None\<rparr>"

theorem telegram_sends_text_witness:
  "\<exists>cs. telegram_outbound (\<lambda>calls. True) (\<lambda>p. None) sample_outbound = Some (Inr (), map (Send_Message 7) cs) \<and> concat cs = ''hi''"
proof -
  have "Option.bind (strip_prefix ''telegram:'' (out_chat_id sample_outbound)) parse_i64 = Some 7"
    by (simp add: sample_outbound_def strip_prefix_def starts_with_def parse_i64_def radix_value_def digit_val_def is_digit_def)
  moreover have "utf8_ok (out_content sample_outbound)" "out_attachments sample_outbound = []"
    by (simp_all add: sample_outbound_def utf8_ok.simps(2) char_len_def)
  ultimately show ?thesis
    using telegram_sends_text [of sample_outbound "\<lambda>calls. True" "\<lambda>p. None"] by (auto simp: sample_outbound_def)
qed

text \<open>What Telegram documents of \<open>getUpdates\<close>: the updates from the offset on, with ascending ids.\<close>

definition update_ids :: "json list \<Rightarrow> int list" where
  "update_ids us = List.map_filter (\<lambda>u. as_i64 (json_at ''update_id'' u)) us"

fun polls_ok :: "int list \<Rightarrow> json list list \<Rightarrow> int \<Rightarrow> bool" where
  "polls_ok allow [] offset = True"
| "polls_ok allow (us # polls) offset =
     (sorted_wrt (<) (update_ids us) \<and> (\<forall>i \<in> set (update_ids us). offset \<le> i \<and> i < 2 ^ 62) \<and>
      polls_ok allow polls (fst (telegram_updates allow us offset)))"

lemma update_ids_simps [simp]:
  "update_ids [] = []"
  "update_ids (u # us) = (case as_i64 (json_at ''update_id'' u) of Some i \<Rightarrow> i # update_ids us | None \<Rightarrow> update_ids us)"
  by (simp_all add: update_ids_def map_filter_simps split: option.split)

lemma next_offset:
  assumes "\<forall>i \<in> set (update_ids us). 0 \<le> i \<and> i < 2 ^ 62"
  shows "fst (telegram_updates allow us offset) = (if update_ids us = [] then offset else last (update_ids us) + 1)"
  using assms
proof (induction us arbitrary: offset)
  case (Cons u us)
  show ?case
  proof (cases "as_i64 (json_at ''update_id'' u)")
    case (Some i)
    with Cons.prems have "wrap_i64 (i + 1) = i + 1" by (simp add: wrap_i64_def)
    with Some Cons show ?thesis by (simp add: Let_def case_prod_beta)
  qed (use Cons in \<open>simp add: Let_def case_prod_beta\<close>)
qed simp

text \<open>No update is handled twice: whatever the answers to any number of polls, as long as each has ascending
  ids from the asked offset on, the ids of all updates handled are strictly ascending.\<close>

theorem telegram_updates_once:
  assumes "polls_ok allow polls offset" "0 \<le> offset"
  shows "sorted_wrt (<) (update_ids (concat polls)) \<and> (\<forall>i \<in> set (update_ids (concat polls)). offset \<le> i)"
  using assms
proof (induction polls arbitrary: offset)
  case (Cons us polls)
  have app: "update_ids (us @ concat polls) = update_ids us @ update_ids (concat polls)"
    by (simp add: update_ids_def map_filter_append)
  let ?next = "fst (telegram_updates allow us offset)"
  have ids: "\<forall>i \<in> set (update_ids us). 0 \<le> i \<and> i < 2 ^ 62" "sorted_wrt (<) (update_ids us)" "\<forall>i \<in> set (update_ids us). offset \<le> i"
    using Cons.prems by fastforce+
  have nxt: "?next = (if update_ids us = [] then offset else last (update_ids us) + 1)" by (rule next_offset [OF ids(1)])
  have "\<forall>i \<in> set (update_ids us). i < ?next"
  proof
    fix i assume i: "i \<in> set (update_ids us)"
    then have "i \<le> last (update_ids us)" using ids(2)
      by (metis append_butlast_last_id emptyE in_set_butlastD less_imp_le list.set(1) order_refl rotate1.simps(2) set_ConsD set_rotate1 sorted_wrt_append list.set_intros(1))
    with i nxt show "i < ?next" by auto
  qed
  moreover have "offset \<le> ?next"
    using nxt ids(3) last_in_set [of "update_ids us"] by fastforce
  moreover have "sorted_wrt (<) (update_ids (concat polls)) \<and> (\<forall>i \<in> set (update_ids (concat polls)). ?next \<le> i)"
    using Cons.IH [of ?next] Cons.prems \<open>offset \<le> ?next\<close> by simp
  ultimately show ?case using ids by (fastforce simp: app sorted_wrt_append)
qed simp

definition sample_update :: "int \<Rightarrow> json" where
  "sample_update i = JObj [(''update_id'', JInt i), (''message'', JObj [(''chat'', JObj [(''id'', JInt 7)]), (''text'', JStr ''x'')])]"

theorem telegram_updates_once_witness:
  "sorted_wrt (<) (update_ids (concat [[sample_update 1, sample_update 4], [sample_update 5]]))"
proof -
  have "polls_ok [] [[sample_update 1, sample_update 4], [sample_update 5]] 0"
    by (simp add: sample_update_def json_at_def wrap_i64_def telegram_inbound_def)
  from telegram_updates_once [OF this] show ?thesis by simp
qed

text \<open>With an allowlist only its chats get through.\<close>

lemma telegram_allowlist: "allow \<noteq> [] \<Longrightarrow> telegram_inbound allow u = Some m \<Longrightarrow> \<exists>p \<in> set allow. in_chat_id m = ''telegram:'' @ show_int p"
  by (auto simp: telegram_inbound_def Let_def split: option.splits if_splits)

text \<open>A reaction is sent as a message with the emoji as its text.\<close>

lemma reactions_become_messages: "telegram_outbound ok read (out\<lparr>out_react_to := r\<rparr>) = telegram_outbound ok read out"
  by (cases out) (simp only: telegram_outbound_def outbound.select_convs outbound.update_convs cong del: option.case_cong_weak sum.case_cong_weak prod.case_cong_weak)

end
