(* ===== verification/Chat_Services.thy ===== *)
theory Chat_Services
  imports Telegram
begin

text \<open>
  The bridges to Slack, Discord and Signal (src/src/bridges/slack.rs, discord.rs, signal.rs). The
  web sockets and signal-cli's pipes are lists of what they deliver; whether a write succeeds is a
  function of all writes so far, the newest last; \<open>parse\<close> is \<open>serde\_json::from\_str\<close>.
\<close>

section \<open>Web sockets\<close>

datatype ws_msg = Ws_Text string | Ws_Ping string | Ws_Close | Ws_Other | Ws_Error string | Ws_End

datatype ws_sent = Sent_Text json | Sent_Pong string

text \<open>The outcome of a step or a loop: \<open>None\<close> while it runs, else how it returned.\<close>

type_synonym loop_end = "(string + unit) option"

definition ws_write :: "(ws_sent list \<Rightarrow> bool) \<Rightarrow> ws_sent \<Rightarrow> ws_sent list \<Rightarrow> ws_sent list \<times> loop_end" where
  "ws_write wr out sent = (if wr (sent @ [out]) then (sent @ [out], None) else (sent, Some (Inl ''websocket write'')))"

section \<open>Slack\<close>

definition slack_message :: "string list \<Rightarrow> json \<Rightarrow> inbound option" where
  "slack_message allow event =
     (if as_str (json_at ''type'' event) = Some ''message'' \<and> json_at ''bot_id'' event = JNull \<and> json_at ''subtype'' event = JNull
      then (case as_str (json_at ''channel'' event) of
          None \<Rightarrow> None
        | Some ch \<Rightarrow>
            if allow \<noteq> [] \<and> ch \<notin> set allow then None
            else map_option (\<lambda>text. \<lparr>in_chat_id = ''slack:'' @ ch, in_text = text, in_attachments = [],
                   in_message_ref = as_str (json_at ''ts'' event)\<rparr>) (as_str (json_at ''text'' event)))
      else None)"

definition slack_event :: "json \<Rightarrow> json" where
  "slack_event v = json_at ''event'' (json_at ''payload'' v)"

definition slack_envelope :: "(ws_sent list \<Rightarrow> bool) \<Rightarrow> string list \<Rightarrow> json \<Rightarrow> ws_sent list \<Rightarrow> ws_sent list \<times> inbound list \<times> loop_end" where
  "slack_envelope wr allow v sent =
     (let (sent, r) = (case as_str (json_at ''envelope_id'' v) of
             Some i \<Rightarrow> ws_write wr (Sent_Text (JObj [(''envelope_id'', JStr i)])) sent
           | None \<Rightarrow> (sent, None))
      in if r = None then (sent, (case slack_message allow (slack_event v) of Some m \<Rightarrow> [m] | None \<Rightarrow> []), None)
         else (sent, [], r))"

fun slack_step ::
  "(string \<Rightarrow> json option) \<Rightarrow> (ws_sent list \<Rightarrow> bool) \<Rightarrow> string list \<Rightarrow> ws_msg \<Rightarrow> ws_sent list \<Rightarrow> ws_sent list \<times> inbound list \<times> loop_end" where
  "slack_step parse wr allow (Ws_Text t) sent =
     (case parse t of
        None \<Rightarrow> (sent, [], Some (Inl ''invalid JSON''))
      | Some v \<Rightarrow>
          if as_str (json_at ''type'' v) = Some ''disconnect'' then (sent, [], Some (Inr ()))
          else if as_str (json_at ''type'' v) = Some ''events_api'' then slack_envelope wr allow v sent
          else (sent, [], None))"
| "slack_step parse wr allow (Ws_Ping p) sent = (let (sent, r) = ws_write wr (Sent_Pong p) sent in (sent, [], r))"
| "slack_step parse wr allow Ws_Close sent = (sent, [], Some (Inr ()))"
| "slack_step parse wr allow Ws_Other sent = (sent, [], None)"
| "slack_step parse wr allow (Ws_Error e) sent = (sent, [], Some (Inl e))"
| "slack_step parse wr allow Ws_End sent = (sent, [], Some (Inr ()))"

fun socket_mode_loop ::
  "(string \<Rightarrow> json option) \<Rightarrow> (ws_sent list \<Rightarrow> bool) \<Rightarrow> string list \<Rightarrow> ws_msg list \<Rightarrow> ws_sent list \<Rightarrow> ws_sent list \<times> inbound list \<times> loop_end" where
  "socket_mode_loop parse wr allow [] sent = (sent, [], None)"
| "socket_mode_loop parse wr allow (m # ms) sent =
     (case slack_step parse wr allow m sent of
        (sent, msgs, Some r) \<Rightarrow> (sent, msgs, Some r)
      | (sent, msgs, None) \<Rightarrow> (let (sent, others, r) = socket_mode_loop parse wr allow ms sent in (sent, msgs @ others, r)))"

text \<open>The upload of a file: the calls made; \<open>api\<close> gives the answer to the newest, \<open>None\<close> a failure of
  the transport, a body that is no JSON or, for the bytes, an error status.\<close>

datatype slack_call =
    Post_Message string string
  | Get_Upload_URL string nat
  | Post_Bytes string string
  | Complete_Upload string string string

definition slack_api :: "(slack_call list \<Rightarrow> json option) \<Rightarrow> string \<Rightarrow> slack_call \<Rightarrow> slack_call list \<Rightarrow> (string + json) \<times> slack_call list" where
  "slack_api api name c calls =
     ((case api (calls @ [c]) of
         None \<Rightarrow> Inl ''transport''
       | Some v \<Rightarrow>
           if as_bool (json_at ''ok'' v) \<noteq> Some True
           then Inl (name @ '' failed: '' @ (case as_str (json_at ''error'' v) of Some e \<Rightarrow> e | None \<Rightarrow> ''?''))
           else Inr v),
      calls @ [c])"

definition slack_upload_file ::
  "(slack_call list \<Rightarrow> json option) \<Rightarrow> (string \<Rightarrow> string option) \<Rightarrow> string \<Rightarrow> string \<Rightarrow> slack_call list \<Rightarrow> (string + unit) \<times> slack_call list" where
  "slack_upload_file api read channel path calls =
     (case read path of
        None \<Rightarrow> (Inl ''reading'', calls)
      | Some bytes \<Rightarrow>
          let name = (case file_name path of Some n \<Rightarrow> n | None \<Rightarrow> ''file'') in
          (case slack_api api ''getUploadURLExternal'' (Get_Upload_URL name (length bytes)) calls of
             (Inl e, calls) \<Rightarrow> (Inl e, calls)
           | (Inr meta, calls) \<Rightarrow>
          (case (as_str (json_at ''upload_url'' meta), as_str (json_at ''file_id'' meta)) of
             (None, _) \<Rightarrow> (Inl ''no upload_url'', calls)
           | (Some url, None) \<Rightarrow> (Inl ''no file_id'', calls)
           | (Some url, Some file) \<Rightarrow>
               let calls = calls @ [Post_Bytes url bytes] in
               if api calls = None then (Inl ''upload'', calls)
               else (case slack_api api ''completeUploadExternal'' (Complete_Upload channel file name) calls of
                   (Inl e, calls) \<Rightarrow> (Inl e, calls)
                 | (Inr _, calls) \<Rightarrow> (Inr (), calls)))))"

fun slack_uploads ::
  "(slack_call list \<Rightarrow> json option) \<Rightarrow> (string \<Rightarrow> string option) \<Rightarrow> string \<Rightarrow> string list \<Rightarrow> slack_call list \<Rightarrow> (string + unit) \<times> slack_call list" where
  "slack_uploads api read channel [] calls = (Inr (), calls)"
| "slack_uploads api read channel (path # paths) calls =
     (case slack_upload_file api read channel path calls of
        (Inl e, calls) \<Rightarrow> (Inl (''uploading '' @ path), calls)
      | (Inr _, calls) \<Rightarrow> slack_uploads api read channel paths calls)"

definition slack_outbound ::
  "(slack_call list \<Rightarrow> json option) \<Rightarrow> (string \<Rightarrow> string option) \<Rightarrow> outbound \<Rightarrow> (string + unit) \<times> slack_call list" where
  "slack_outbound api read out =
     (case strip_prefix ''slack:'' (out_chat_id out) of
        None \<Rightarrow> (Inl (''bad slack chat_id: '' @ out_chat_id out), [])
      | Some channel \<Rightarrow>
          (case (if out_content out = [] then (Inr JNull, []) else slack_api api ''chat.postMessage'' (Post_Message channel (out_content out)) []) of
             (Inl e, calls) \<Rightarrow> (Inl e, calls)
           | (Inr _, calls) \<Rightarrow> slack_uploads api read channel (out_attachments out) calls))"

section \<open>Discord\<close>

record gateway =
  gw_seq :: "nat option" \<comment> \<open>\<open>last_seq\<close>\<close>
  gw_period :: nat \<comment> \<open>of the heartbeat, in milliseconds\<close>

definition gateway_new :: gateway where
  "gateway_new = \<lparr>gw_seq = None, gw_period = 3600000\<rparr>"

definition intents :: int where
  "intents = 2 ^ 9 + 2 ^ 15"

definition heartbeat_payload :: "gateway \<Rightarrow> json" where
  "heartbeat_payload g = JObj [(''op'', JInt 1), (''d'', case gw_seq g of Some s \<Rightarrow> JInt (int s) | None \<Rightarrow> JNull)]"

definition identify_payload :: "string \<Rightarrow> json" where
  "identify_payload token =
     JObj [(''op'', JInt 2), (''d'', JObj [(''token'', JStr token), (''intents'', JInt intents),
       (''properties'', JObj [(''os'', JStr ''linux''), (''browser'', JStr ''claude-server''), (''device'', JStr ''claude-server'')])])]"

definition discord_message :: "string list \<Rightarrow> json \<Rightarrow> inbound option" where
  "discord_message allow d =
     (case as_str (json_at ''channel_id'' d) of
        None \<Rightarrow> None
      | Some ch \<Rightarrow>
          if as_bool (json_at ''bot'' (json_at ''author'' d)) = Some True then None
          else if allow \<noteq> [] \<and> ch \<notin> set allow then None
          else (case as_str (json_at ''content'' d) of
              Some text \<Rightarrow> if text = [] then None
                else Some \<lparr>in_chat_id = ''discord:'' @ ch, in_text = text, in_attachments = [], in_message_ref = as_str (json_at ''id'' d)\<rparr>
            | None \<Rightarrow> None))"

definition see_sequence :: "json \<Rightarrow> gateway \<Rightarrow> gateway" where
  "see_sequence v g = (case as_u64 (json_at ''s'' v) of Some s \<Rightarrow> g\<lparr>gw_seq := Some s\<rparr> | None \<Rightarrow> g)"

text \<open>An event of the gateway. \<open>tokio::time::interval\<close> panics on a zero period: \<open>None\<close>.\<close>

definition gateway_event ::
  "(ws_sent list \<Rightarrow> bool) \<Rightarrow> string \<Rightarrow> string list \<Rightarrow> json \<Rightarrow> gateway \<times> ws_sent list \<Rightarrow> ((gateway \<times> ws_sent list) \<times> inbound list \<times> loop_end) option" where
  "gateway_event wr token allow v gs =
     (let g = see_sequence v (fst gs); sent = snd gs; op = as_u64 (json_at ''op'' v) in
      if op = Some 10 then
        (let ms = (case as_u64 (json_at ''heartbeat_interval'' (json_at ''d'' v)) of Some ms \<Rightarrow> ms | None \<Rightarrow> 41250) in
         if ms = 0 then None
         else (let (sent, r) = ws_write wr (Sent_Text (identify_payload token)) sent in Some ((g\<lparr>gw_period := ms\<rparr>, sent), [], r)))
      else if op = Some 0 then
        Some ((g, sent),
          (if as_str (json_at ''t'' v) = Some ''MESSAGE_CREATE''
           then (case discord_message allow (json_at ''d'' v) of Some m \<Rightarrow> [m] | None \<Rightarrow> []) else []), None)
      else if op = Some 7 \<or> op = Some 9 then Some ((g, sent), [], Some (Inr ()))
      else Some ((g, sent), [], None))"

datatype gateway_branch = Heartbeat_Due | Gateway_Read ws_msg

fun gateway_step ::
  "(string \<Rightarrow> json option) \<Rightarrow> (ws_sent list \<Rightarrow> bool) \<Rightarrow> string \<Rightarrow> string list \<Rightarrow> gateway_branch \<Rightarrow> gateway \<times> ws_sent list
     \<Rightarrow> ((gateway \<times> ws_sent list) \<times> inbound list \<times> loop_end) option" where
  "gateway_step parse wr token allow Heartbeat_Due (g, sent) =
     (let (sent, r) = ws_write wr (Sent_Text (heartbeat_payload g)) sent in Some ((g, sent), [], r))"
| "gateway_step parse wr token allow (Gateway_Read (Ws_Text t)) (g, sent) =
     (case parse t of
        None \<Rightarrow> Some ((g, sent), [], Some (Inl ''invalid JSON''))
      | Some v \<Rightarrow> gateway_event wr token allow v (g, sent))"
| "gateway_step parse wr token allow (Gateway_Read (Ws_Ping p)) (g, sent) =
     (let (sent, r) = ws_write wr (Sent_Pong p) sent in Some ((g, sent), [], r))"
| "gateway_step parse wr token allow (Gateway_Read Ws_Close) (g, sent) = Some ((g, sent), [], Some (Inr ()))"
| "gateway_step parse wr token allow (Gateway_Read Ws_Other) (g, sent) = Some ((g, sent), [], None)"
| "gateway_step parse wr token allow (Gateway_Read (Ws_Error e)) (g, sent) = Some ((g, sent), [], Some (Inl e))"
| "gateway_step parse wr token allow (Gateway_Read Ws_End) (g, sent) = Some ((g, sent), [], Some (Inl ''gateway stream ended''))"

fun gateway_loop ::
  "(string \<Rightarrow> json option) \<Rightarrow> (ws_sent list \<Rightarrow> bool) \<Rightarrow> string \<Rightarrow> string list \<Rightarrow> gateway_branch list \<Rightarrow> gateway \<times> ws_sent list
     \<Rightarrow> ((gateway \<times> ws_sent list) \<times> inbound list \<times> loop_end) option" where
  "gateway_loop parse wr token allow [] gs = Some (gs, [], None)"
| "gateway_loop parse wr token allow (b # bs) gs =
     (case gateway_step parse wr token allow b gs of
        None \<Rightarrow> None
      | Some (gs, msgs, Some r) \<Rightarrow> Some (gs, msgs, Some r)
      | Some (gs, msgs, None) \<Rightarrow> map_option (\<lambda>(gs, others, r). (gs, msgs @ others, r)) (gateway_loop parse wr token allow bs gs))"

text \<open>One request per message: the channel, the JSON part, the files.\<close>

record discord_request =
  dr_channel :: string
  dr_payload :: json
  dr_files :: "(string \<times> string \<times> string) list" \<comment> \<open>field, file name, bytes\<close>

fun discord_files :: "(string \<Rightarrow> string option) \<Rightarrow> nat \<Rightarrow> string list \<Rightarrow> string + (string \<times> string \<times> string) list" where
  "discord_files read i [] = Inr []"
| "discord_files read i (path # paths) =
     (case read path of
        None \<Rightarrow> Inl (''reading '' @ path)
      | Some bytes \<Rightarrow>
          (case discord_files read (Suc i) paths of
             Inl e \<Rightarrow> Inl e
           | Inr others \<Rightarrow> Inr ((''files['' @ show_nat i @ '']'', (case file_name path of Some n \<Rightarrow> n | None \<Rightarrow> ''file''), bytes) # others)))"

text \<open>\<open>post\<close> gives the status of the answer, \<open>None\<close> a failure of the transport.\<close>

definition discord_outbound ::
  "(string \<Rightarrow> string option) \<Rightarrow> (discord_request \<Rightarrow> nat option) \<Rightarrow> outbound \<Rightarrow> (string + unit) \<times> discord_request list" where
  "discord_outbound read post out =
     (case strip_prefix ''discord:'' (out_chat_id out) of
        None \<Rightarrow> (Inl (''bad discord chat_id: '' @ out_chat_id out), [])
      | Some channel \<Rightarrow>
          (case discord_files read 0 (out_attachments out) of
             Inl e \<Rightarrow> (Inl e, [])
           | Inr files \<Rightarrow>
               let r = \<lparr>dr_channel = channel, dr_payload = JObj [(''content'', JStr (out_content out))], dr_files = files\<rparr>
               in ((case post r of
                      None \<Rightarrow> Inl ''transport''
                    | Some status \<Rightarrow> if 200 \<le> status \<and> status < 300 then Inr () else Inl (''send returned '' @ show_nat status)), [r])))"

section \<open>Signal\<close>

text \<open>A line of signal-cli's standard output.\<close>

definition signal_received :: "string list \<Rightarrow> string \<Rightarrow> json \<Rightarrow> inbound option" where
  "signal_received allow attach_dir env =
     (case (case as_str (json_at ''sourceNumber'' env) of Some s \<Rightarrow> Some s | None \<Rightarrow> as_str (json_at ''source'' env)) of
        None \<Rightarrow> None
      | Some src \<Rightarrow>
          if allow \<noteq> [] \<and> src \<notin> set allow then None
          else
            (let dm = json_at ''dataMessage'' env;
                 text = (case as_str (json_at ''message'' dm) of Some s \<Rightarrow> s | None \<Rightarrow> []);
                 atts = map (\<lambda>i. attach_dir @ ''/'' @ i)
                   (List.map_filter (\<lambda>a. as_str (json_at ''id'' a)) (case as_arr (json_at ''attachments'' dm) of Some xs \<Rightarrow> xs | None \<Rightarrow> []))
             in if text = [] \<and> atts = [] then None
                else Some \<lparr>in_chat_id = ''signal:'' @ src, in_text = text, in_attachments = atts,
                       in_message_ref = map_option show_int (as_i64 (json_at ''timestamp'' env))\<rparr>))"

definition signal_line :: "(string \<Rightarrow> json option) \<Rightarrow> string list \<Rightarrow> string \<Rightarrow> string \<Rightarrow> inbound option" where
  "signal_line parse allow attach_dir l =
     (case parse l of
        None \<Rightarrow> None
      | Some v \<Rightarrow>
          if json_get ''error'' v \<noteq> None then None
          else if as_str (json_at ''method'' v) = Some ''receive''
            then signal_received allow attach_dir (json_at ''envelope'' (json_at ''params'' v))
          else None)"

definition signal_request :: "u64 \<Rightarrow> string \<Rightarrow> outbound \<Rightarrow> json" where
  "signal_request i recipient out =
     (case out_react_to out of
        Some ts \<Rightarrow>
          JObj [(''jsonrpc'', JStr ''2.0''), (''id'', JInt (uint i)), (''method'', JStr ''sendReaction''),
            (''params'', JObj [(''recipient'', JArr [JStr recipient]), (''targetAuthor'', JStr recipient),
              (''targetTimestamp'', JInt (case parse_i64 ts of Some t \<Rightarrow> t | None \<Rightarrow> 0)), (''emoji'', JStr (out_content out))])]
      | None \<Rightarrow>
          JObj [(''jsonrpc'', JStr ''2.0''), (''id'', JInt (uint i)), (''method'', JStr ''send''),
            (''params'', JObj ([(''recipient'', JArr [JStr recipient]), (''message'', JStr (out_content out))] @
              (if out_attachments out = [] then [] else [(''attachments'', JArr (map JStr (out_attachments out)))])))])"

text \<open>The writer: the requests written, until a write fails.\<close>

fun signal_writer :: "(json list \<Rightarrow> bool) \<Rightarrow> u64 \<Rightarrow> outbound list \<Rightarrow> json list \<Rightarrow> json list" where
  "signal_writer wr i [] written = written"
| "signal_writer wr i (out # outs) written =
     (case strip_prefix ''signal:'' (out_chat_id out) of
        None \<Rightarrow> signal_writer wr i outs written
      | Some recipient \<Rightarrow>
          let written' = written @ [signal_request i recipient out]
          in if wr written' then signal_writer wr (i + 1) outs written' else written)"

text \<open>The watcher of signal-cli's standard error.\<close>

definition alert_interval :: time where
  "alert_interval = 600 * 10 ^ 9"

record signal_health =
  sh_errors :: nat
  sh_last_alert :: "time option"

definition alert_body :: "string option \<Rightarrow> string \<Rightarrow> string \<Rightarrow> nat \<Rightarrow> string \<Rightarrow> json" where
  "alert_body agent account l errors hint =
     JObj [(''source'', JStr ''signal-bridge''), (''type'', JStr ''receive_degraded''), (''priority'', JInt 7), (''agent'', opt_str agent),
       (''data'', JObj [(''account'', JStr account), (''error_line'', JStr l), (''errors_since_bridge_start'', JInt (int errors)), (''hint'', JStr hint)])]"

definition stderr_line :: "time \<Rightarrow> string \<Rightarrow> signal_health \<Rightarrow> signal_health \<times> nat option" where
  "stderr_line now l h =
     (if \<not> str_contains ''Exception'' l then (h, None)
      else
        (let h = h\<lparr>sh_errors := sh_errors h + 1\<rparr>;
             is_due = (case sh_last_alert h of None \<Rightarrow> True | Some t \<Rightarrow> now - t \<ge> alert_interval)
         in if is_due then (h\<lparr>sh_last_alert := Some now\<rparr>, Some (sh_errors h)) else (h, None)))"

text \<open>The alerts: when, for which line, with which count.\<close>

fun stderr_watcher :: "(time \<times> string) list \<Rightarrow> signal_health \<Rightarrow> (time \<times> string \<times> nat) list" where
  "stderr_watcher [] h = []"
| "stderr_watcher ((now, l) # ls) h =
     (case stderr_line now l h of
        (h, Some n) \<Rightarrow> (now, l, n) # stderr_watcher ls h
      | (h, None) \<Rightarrow> stderr_watcher ls h)"

section \<open>Lemmas\<close>

definition slack_handled :: "(string \<Rightarrow> json option) \<Rightarrow> ws_msg list \<Rightarrow> json list" where
  "slack_handled parse = List.map_filter (\<lambda>m. case m of
     Ws_Text t \<Rightarrow> Option.bind (parse t) (\<lambda>v. if as_str (json_at ''type'' v) = Some ''events_api'' then Some v else None)
   | _ \<Rightarrow> None)"

definition acks :: "ws_sent list \<Rightarrow> string list" where
  "acks = List.map_filter (\<lambda>x. case x of Sent_Text j \<Rightarrow> as_str (json_at ''envelope_id'' j) | Sent_Pong _ \<Rightarrow> None)"

definition envelope_ids :: "json list \<Rightarrow> string list" where
  "envelope_ids = List.map_filter (\<lambda>v. as_str (json_at ''envelope_id'' v))"

definition slack_messages :: "string list \<Rightarrow> json list \<Rightarrow> inbound list" where
  "slack_messages allow = List.map_filter (\<lambda>v. slack_message allow (slack_event v))"

lemma acks_simps [simp]:
  "acks [] = []" "acks (xs @ ys) = acks xs @ acks ys" "acks [Sent_Pong p] = []"
  "acks [Sent_Text (JObj [(''envelope_id'', JStr i)])] = [i]"
  by (simp_all add: acks_def map_filter_simps map_filter_append json_at_def)

text \<open>What a read adds when the loop goes on, and when it ends there.\<close>

lemma slack_step_handled:
  assumes "slack_step parse wr allow m sent = (sent', msgs, r)"
  shows "acks sent' = acks sent @ (if r = None then envelope_ids (slack_handled parse [m]) else []) \<and>
     msgs = (if r = None then slack_messages allow (slack_handled parse [m]) else [])"
  using assms
  by (cases m)
     (auto simp: slack_handled_def envelope_ids_def slack_messages_def slack_envelope_def ws_write_def map_filter_simps
        split: option.splits if_splits prod.splits)

lemma handled_Cons: "slack_handled parse (m # ms) = slack_handled parse [m] @ slack_handled parse ms"
  using map_filter_append [of _ "[m]" ms] by (simp add: slack_handled_def)

lemma ids_append [simp]:
  "envelope_ids (vs @ ws) = envelope_ids vs @ envelope_ids ws"
  "slack_messages allow (vs @ ws) = slack_messages allow vs @ slack_messages allow ws"
  by (simp_all add: envelope_ids_def slack_messages_def map_filter_append)

lemma ids_Nil [simp]: "envelope_ids [] = []" "slack_messages allow [] = []" "slack_handled parse [] = []"
  by (simp_all add: envelope_ids_def slack_messages_def slack_handled_def map_filter_simps)

lemma socket_mode_handled:
  assumes "socket_mode_loop parse wr allow reads sent = (sent', msgs, r)"
  shows "\<exists>n \<le> length reads. acks sent' = acks sent @ envelope_ids (slack_handled parse (take n reads)) \<and>
     msgs = slack_messages allow (slack_handled parse (take n reads)) \<and> (if r = None then n = length reads else n < length reads)"
  using assms
proof (induction reads arbitrary: sent sent' msgs)
  case (Cons m ms)
  obtain sent1 msgs1 r1 where st: "slack_step parse wr allow m sent = (sent1, msgs1, r1)" by (cases "slack_step parse wr allow m sent") auto
  note one = slack_step_handled [OF st]
  show ?case
  proof (cases r1)
    case (Some e)
    with Cons.prems st one show ?thesis by (intro exI [of _ 0]) auto
  next
    case None
    obtain sent2 msgs2 r2 where l: "socket_mode_loop parse wr allow ms sent1 = (sent2, msgs2, r2)"
      by (cases "socket_mode_loop parse wr allow ms sent1") auto
    have eq: "sent' = sent2" "msgs = msgs1 @ msgs2" "r = r2" using Cons.prems st None l by simp_all
    from Cons.IH [of sent1 sent2 msgs2] l eq obtain n where "n \<le> length ms"
      "acks sent2 = acks sent1 @ envelope_ids (slack_handled parse (take n ms))"
      "msgs2 = slack_messages allow (slack_handled parse (take n ms))" "if r = None then n = length ms else n < length ms"
      by blast
    with one None eq show ?thesis
      by (intro exI [of _ "Suc n"]) (auto simp: handled_Cons [of parse m "take n ms"])
  qed
qed auto

text \<open>The requests of Signal.\<close>

definition signal_targets :: "outbound list \<Rightarrow> (string \<times> outbound) list" where
  "signal_targets = List.map_filter (\<lambda>out. map_option (\<lambda>r. (r, out)) (strip_prefix ''signal:'' (out_chat_id out)))"

fun numbered :: "u64 \<Rightarrow> (string \<times> outbound) list \<Rightarrow> json list" where
  "numbered i [] = []"
| "numbered i ((r, out) # ts) = signal_request i r out # numbered (i + 1) ts"

lemma writer_prefix: "\<exists>n. signal_writer wr i outs written = written @ take n (numbered i (signal_targets outs))"
proof (induction outs arbitrary: i written)
  case (Cons out outs)
  show ?case
  proof (cases "strip_prefix ''signal:'' (out_chat_id out)")
    case None
    with Cons show ?thesis by (simp add: signal_targets_def map_filter_simps)
  next
    case (Some r)
    let ?w = "written @ [signal_request i r out]"
    from Cons [of "i + 1" ?w] obtain n where "signal_writer wr (i + 1) outs ?w = ?w @ take n (numbered (i + 1) (signal_targets outs))"
      by blast
    with Some show ?thesis
      by (cases "wr ?w") (auto simp: signal_targets_def map_filter_simps Let_def intro: exI [of _ "Suc n"] exI [of _ 0])
  qed
qed simp

lemma writer_all: "(\<And>w. wr w) \<Longrightarrow> signal_writer wr i outs written = written @ numbered i (signal_targets outs)"
  by (induction outs arbitrary: i written)
     (auto simp: signal_targets_def map_filter_simps split: option.split)

lemma numbered_nth:
  "k < length ts \<Longrightarrow> numbered i ts ! k = signal_request (i + of_nat k) (fst (ts ! k)) (snd (ts ! k))"
  by (induction i ts arbitrary: k rule: numbered.induct) (auto simp: nth_Cons algebra_simps split: nat.split)

lemma length_numbered [simp]: "length (numbered i ts) = length ts"
  by (induction i ts rule: numbered.induct) auto

text \<open>The alerts: relative to the last one and the errors so far.\<close>

definition exceptional :: "string \<Rightarrow> bool" where
  "exceptional l \<longleftrightarrow> str_contains ''Exception'' l"

definition recent :: "time option \<Rightarrow> time \<Rightarrow> bool" where
  "recent t now \<longleftrightarrow> (case t of None \<Rightarrow> False | Some t \<Rightarrow> t \<le> now \<and> now - t < alert_interval)"

lemma stderr_line_cases:
  "stderr_line now l h =
     (if \<not> exceptional l then (h, None)
      else if (case sh_last_alert h of None \<Rightarrow> True | Some t \<Rightarrow> now - t \<ge> alert_interval)
        then (\<lparr>sh_errors = Suc (sh_errors h), sh_last_alert = Some now\<rparr>, Some (Suc (sh_errors h)))
      else (h\<lparr>sh_errors := Suc (sh_errors h)\<rparr>, None))"
  by (cases h) (simp add: stderr_line_def exceptional_def Let_def)

lemma watcher_sound:
  assumes "sorted (map fst ls)" "\<forall>t. sh_last_alert h = Some t \<longrightarrow> (\<forall>x \<in> set ls. t \<le> fst x)"
  shows "sorted_wrt (\<lambda>a b. fst b - fst a \<ge> alert_interval) (stderr_watcher ls h)
     \<and> (\<forall>a \<in> set (stderr_watcher ls h). \<forall>t. sh_last_alert h = Some t \<longrightarrow> fst a - t \<ge> alert_interval)
     \<and> (\<forall>(now, l) \<in> set ls. exceptional l \<longrightarrow> recent (sh_last_alert h) now \<or> (\<exists>a \<in> set (stderr_watcher ls h). recent (Some (fst a)) now))
     \<and> (\<forall>(t, l, n) \<in> set (stderr_watcher ls h). \<exists>pre post. ls = pre @ (t, l) # post \<and> exceptional l \<and>
          n = Suc (sh_errors h + length (filter (exceptional \<circ> snd) pre)))"
  using assms
proof (induction ls arbitrary: h)
  case (Cons x ls)
  obtain now l where x: "x = (now, l)" by (cases x)
  have le: "\<forall>y \<in> set ls. now \<le> fst y" using Cons.prems(1) x by simp
  have old: "\<forall>t. sh_last_alert h = Some t \<longrightarrow> t \<le> now \<and> (\<forall>y \<in> set ls. t \<le> fst y)" using Cons.prems(2) x by auto
  obtain h' a where st: "stderr_line now l h = (h', a)" by (cases "stderr_line now l h")
  have cnt: "sh_errors h' = sh_errors h + (if exceptional l then 1 else 0)"
    using st by (auto simp: stderr_line_cases split: if_splits)
  have "\<forall>t. sh_last_alert h' = Some t \<longrightarrow> (\<forall>y \<in> set ls. t \<le> fst y)"
    using st le old by (auto simp: stderr_line_cases split: if_splits)
  note IH = Cons.IH [OF _ this]
  have sorted: "sorted (map fst ls)" using Cons.prems(1) by simp
  have places: "\<exists>pre post. x # ls = pre @ (t, k) # post \<and> exceptional k \<and> n = Suc (sh_errors h + length (filter (exceptional \<circ> snd) pre))"
    if "(t, k, n) \<in> set (stderr_watcher ls h')" for t k n
  proof -
    from IH [OF sorted] that obtain pre post where "ls = pre @ (t, k) # post" "exceptional k"
      "n = Suc (sh_errors h' + length (filter (exceptional \<circ> snd) pre))" by fast
    with cnt x show ?thesis by (intro exI [of _ "x # pre"] exI [of _ post]) auto
  qed
  show ?case
  proof (cases a)
    case None
    then have keep: "sh_last_alert h' = sh_last_alert h" "exceptional l \<longrightarrow> recent (sh_last_alert h) now"
      using st old by (auto simp: stderr_line_cases recent_def split: if_splits option.splits)
    have "stderr_watcher (x # ls) h = stderr_watcher ls h'" using x st None by simp
    with IH [OF sorted] keep places x show ?thesis by fastforce
  next
    case (Some n)
    then have new: "sh_last_alert h' = Some now" "exceptional l" "n = Suc (sh_errors h)"
      "\<forall>t. sh_last_alert h = Some t \<longrightarrow> now - t \<ge> alert_interval"
      using st by (auto simp: stderr_line_cases split: if_splits option.splits)
    have w: "stderr_watcher (x # ls) h = (now, l, n) # stderr_watcher ls h'" using x st Some by simp
    have far: "\<forall>b \<in> set (stderr_watcher ls h'). fst b - now \<ge> alert_interval" using IH [OF sorted] new(1) by blast
    have pos: "0 < alert_interval" by (simp add: alert_interval_def)
    have "sorted_wrt (\<lambda>a b. fst b - fst a \<ge> alert_interval) (stderr_watcher (x # ls) h)" using IH [OF sorted] far w by simp
    moreover have "\<forall>b \<in> set (stderr_watcher (x # ls) h). \<forall>t. sh_last_alert h = Some t \<longrightarrow> fst b - t \<ge> alert_interval"
      using far new(4) w pos by fastforce
    moreover have "\<forall>(t, k) \<in> set (x # ls). exceptional k \<longrightarrow> recent (sh_last_alert h) t \<or> (\<exists>b \<in> set (stderr_watcher (x # ls) h). recent (Some (fst b)) t)"
      using IH [OF sorted] new(1) w x pos by (auto simp: recent_def)
    moreover have "\<forall>a \<in> set (stderr_watcher (x # ls) h). case a of (t, l, n) \<Rightarrow>
        \<exists>pre post. x # ls = pre @ (t, l) # post \<and> exceptional l \<and> n = Suc (sh_errors h + length (filter (exceptional \<circ> snd) pre))"
    proof
      fix a assume "a \<in> set (stderr_watcher (x # ls) h)"
      then have "a = (now, l, n) \<or> a \<in> set (stderr_watcher ls h')" using w by simp
      then show "case a of (t, l, n) \<Rightarrow>
        \<exists>pre post. x # ls = pre @ (t, l) # post \<and> exceptional l \<and> n = Suc (sh_errors h + length (filter (exceptional \<circ> snd) pre))"
      proof
        assume "a = (now, l, n)"
        moreover have "x # ls = [] @ (now, l) # ls \<and> exceptional l \<and> n = Suc (sh_errors h + length (filter (exceptional \<circ> snd) []))"
          using new x by simp
        ultimately show ?thesis by blast
      qed (use places in blast)
    qed
    ultimately show ?thesis by blast
  qed
qed simp

section \<open>The contracts\<close>

fun slack_goes_to :: "slack_call \<Rightarrow> string \<Rightarrow> bool" where
  "slack_goes_to (Post_Message ch text) c = (ch = c)"
| "slack_goes_to (Complete_Upload ch file name) c = (ch = c)"
| "slack_goes_to _ c = True"

lemma slack_upload_goes_to:
  "\<lbrakk>slack_upload_file api read ch p calls = (res, calls'); \<forall>x \<in> set calls. slack_goes_to x ch\<rbrakk> \<Longrightarrow> \<forall>x \<in> set calls'. slack_goes_to x ch"
  by (auto simp: slack_upload_file_def slack_api_def Let_def split: option.splits if_splits sum.splits)

lemma slack_uploads_goes_to:
  "\<lbrakk>slack_uploads api read ch ps calls = (res, calls'); \<forall>x \<in> set calls. slack_goes_to x ch\<rbrakk> \<Longrightarrow> \<forall>x \<in> set calls'. slack_goes_to x ch"
proof (induction ps arbitrary: calls)
  case (Cons p ps)
  obtain r calls1 where u: "slack_upload_file api read ch p calls = (r, calls1)" by (cases "slack_upload_file api read ch p calls")
  from slack_upload_goes_to [OF u Cons.prems(2)] Cons u show ?case by (cases r) auto
qed simp

interpretation slack_bridge: chat_bridge "''slack:''" "\<lambda>out. snd (slack_outbound api read out)" slack_goes_to for api read
proof
  fix out :: outbound and c call
  show "strip_prefix ''slack:'' (out_chat_id out) = None \<Longrightarrow> snd (slack_outbound api read out) = []" by (simp add: slack_outbound_def)
  assume c: "strip_prefix ''slack:'' (out_chat_id out) = Some c" "call \<in> set (snd (slack_outbound api read out))"
  obtain res calls where p: "(if out_content out = [] then (Inr JNull, []) else slack_api api ''chat.postMessage'' (Post_Message c (out_content out)) []) = (res, calls)"
    by fastforce
  then have all: "\<forall>x \<in> set calls. slack_goes_to x c" by (auto simp: slack_api_def split: if_splits)
  obtain res' calls' where f: "slack_uploads api read c (out_attachments out) calls = (res', calls')"
    by (cases "slack_uploads api read c (out_attachments out) calls")
  from slack_uploads_goes_to [OF f all] all c p f show "slack_goes_to call c"
    by (cases res) (auto simp: slack_outbound_def)
qed

interpretation discord_bridge: chat_bridge "''discord:''" "\<lambda>out. snd (discord_outbound read post out)" "\<lambda>r c. dr_channel r = c" for read post
  by unfold_locales (auto simp: discord_outbound_def Let_def split: sum.splits)

definition signal_goes_to :: "json \<Rightarrow> string \<Rightarrow> bool" where
  "signal_goes_to req c \<longleftrightarrow> json_at ''recipient'' (json_at ''params'' req) = JArr [JStr c]"

interpretation signal_bridge: chat_bridge "''signal:''" "\<lambda>out. signal_writer wr i [out] []" signal_goes_to for wr i
  by unfold_locales (auto simp: signal_goes_to_def signal_request_def json_at_def Let_def split: option.splits if_splits)

section \<open>Properties\<close>

text \<open>C40: What Slack's socket hands on is what it acknowledged: over any frames, with writes failing at any
  point, the acknowledged envelopes are exactly those of the events read before the loop ended, in order, and the
  messages passed on are the ones of just these events; in particular the event whose acknowledgement
  failed is not passed on and can be delivered again.\<close>

theorem slack_acked_exactly:
  assumes "socket_mode_loop parse wr allow reads [] = (sent, msgs, r)"
  shows "\<exists>n \<le> length reads. acks sent = envelope_ids (slack_handled parse (take n reads)) \<and>
     msgs = slack_messages allow (slack_handled parse (take n reads)) \<and> (if r = None then n = length reads else n < length reads)"
  using socket_mode_handled [OF assms] by simp

definition sample_envelope :: "string \<Rightarrow> json" where
  "sample_envelope i = JObj [(''type'', JStr ''events_api''), (''envelope_id'', JStr i), (''payload'', JObj [(''event'',
     JObj [(''type'', JStr ''message''), (''channel'', JStr ''C1''), (''text'', JStr ''hi'')])])]"

theorem slack_acked_exactly_witness:
  "\<exists>sent msgs. socket_mode_loop (Some \<circ> sample_envelope) (\<lambda>sent. length sent < 2) [] [Ws_Text ''a'', Ws_Text ''b''] [] =
       (sent, msgs, Some (Inl ''websocket write'')) \<and> acks sent = [''a''] \<and>
     (\<exists>n. msgs = slack_messages [] (slack_handled (Some \<circ> sample_envelope) (take n [Ws_Text ''a'', Ws_Text ''b''])))"
proof -
  have run: "socket_mode_loop (Some \<circ> sample_envelope) (\<lambda>sent. length sent < 2) [] [Ws_Text ''a'', Ws_Text ''b''] [] =
     ([Sent_Text (JObj [(''envelope_id'', JStr ''a'')])],
      [\<lparr>in_chat_id = ''slack:C1'', in_text = ''hi'', in_attachments = [], in_message_ref = None\<rparr>], Some (Inl ''websocket write''))"
    by (simp add: sample_envelope_def json_at_def slack_envelope_def ws_write_def slack_message_def slack_event_def)
  from slack_acked_exactly [OF run] run show ?thesis by auto
qed

text \<open>Alerts of the Signal bridge: for log lines at times that do not go back, alerts are at least ten minutes
  apart, each exception is reported by an alert less than ten minutes old, and the count of an
  alert is the number of exceptions up to and including its line.\<close>

theorem signal_alerts_spaced:
  assumes "sorted (map fst ls)"
  shows "sorted_wrt (\<lambda>a b. fst b - fst a \<ge> alert_interval) (stderr_watcher ls \<lparr>sh_errors = 0, sh_last_alert = None\<rparr>)
     \<and> (\<forall>(now, l) \<in> set ls. exceptional l \<longrightarrow>
          (\<exists>a \<in> set (stderr_watcher ls \<lparr>sh_errors = 0, sh_last_alert = None\<rparr>). fst a \<le> now \<and> now - fst a < alert_interval))
     \<and> (\<forall>(t, l, n) \<in> set (stderr_watcher ls \<lparr>sh_errors = 0, sh_last_alert = None\<rparr>). \<exists>pre post.
          ls = pre @ (t, l) # post \<and> exceptional l \<and> n = Suc (length (filter (exceptional \<circ> snd) pre)))"
  using watcher_sound [OF assms, of "\<lparr>sh_errors = 0, sh_last_alert = None\<rparr>"] by (simp add: recent_def)

definition sample_log :: "(time \<times> string) list" where
  "sample_log = [(0, ''Exception''), (5, ''NullPointerException''), (6, ''ok''), (600 * 10 ^ 9, ''an Exception'')]"

lemma sample_alerts:
  "stderr_watcher sample_log \<lparr>sh_errors = 0, sh_last_alert = None\<rparr> = [(0, ''Exception'', 1), (600 * 10 ^ 9, ''an Exception'', 3)]"
  by (simp add: sample_log_def stderr_line_def str_contains_def starts_with_def alert_interval_def)

theorem signal_alerts_spaced_witness:
  "sorted (map fst sample_log) \<and> (\<exists>a \<in> set (stderr_watcher sample_log \<lparr>sh_errors = 0, sh_last_alert = None\<rparr>). fst a \<le> 5)"
proof -
  have "sorted (map fst sample_log)" by (simp add: sample_log_def)
  moreover have "(5, ''NullPointerException'') \<in> set sample_log" "exceptional ''NullPointerException''"
    by (simp_all add: sample_log_def exceptional_def str_contains_def starts_with_def)
  ultimately show ?thesis using signal_alerts_spaced [of sample_log] by blast
qed

text \<open>Messages to Signal: the requests written are, in order, those of a prefix of the messages with a Signal
  address, and of all of them when every write succeeds; they are numbered consecutively and, up to
  the width of the counter, no two have the same number.\<close>

theorem signal_requests_in_order:
  assumes "length (signal_targets outs) \<le> 2 ^ 64"
  shows "(\<exists>n. signal_writer wr i outs [] = take n (numbered i (signal_targets outs)) \<and> ((\<forall>w. wr w) \<longrightarrow> n = length (signal_targets outs)))
     \<and> distinct (map (json_at ''id'') (numbered i (signal_targets outs)))"
proof (intro conjI)
  obtain n where "signal_writer wr i outs [] = take n (numbered i (signal_targets outs))" using writer_prefix [of wr i outs "[]"] by auto
  then show "\<exists>n. signal_writer wr i outs [] = take n (numbered i (signal_targets outs)) \<and> ((\<forall>w. wr w) \<longrightarrow> n = length (signal_targets outs))"
    using writer_all [of wr i outs "[]"] by (cases "\<forall>w. wr w") (auto intro: exI [of _ "length (signal_targets outs)"])
  show "distinct (map (json_at ''id'') (numbered i (signal_targets outs)))"
    unfolding distinct_conv_nth
  proof (intro allI impI)
    fix j k assume a: "j < length (map (json_at ''id'') (numbered i (signal_targets outs)))"
      "k < length (map (json_at ''id'') (numbered i (signal_targets outs)))" "j \<noteq> k"
    have "(of_nat j :: u64) \<noteq> of_nat k"
    proof
      assume "(of_nat j :: u64) = of_nat k"
      then have "unat (of_nat j :: u64) = unat (of_nat k :: u64)" by simp
      with a assms show False by (simp add: unat_of_nat)
    qed
    then have "uint (i + of_nat j) \<noteq> uint (i + of_nat k)" by (simp add: word_uint_eq_iff [symmetric])
    with a show "map (json_at ''id'') (numbered i (signal_targets outs)) ! j \<noteq> map (json_at ''id'') (numbered i (signal_targets outs)) ! k"
      by (simp add: numbered_nth signal_request_def json_at_def split: option.split)
  qed
qed

theorem signal_requests_in_order_witness:
  "distinct (map (json_at ''id'') (numbered 1 (signal_targets [\<lparr>out_chat_id = ''signal:+1'', out_content = ''hi'', out_attachments = [], out_react_to = None\<rparr>])))"
  by (rule signal_requests_in_order [THEN conjunct2]) (simp add: signal_targets_def map_filter_simps strip_prefix_def starts_with_def)

text \<open>A Hello with a zero interval makes the gateway task panic.\<close>

lemma gateway_zero_heartbeat:
  "gateway_loop (\<lambda>t. Some (JObj [(''op'', JInt 10), (''d'', JObj [(''heartbeat_interval'', JInt 0)])])) wr token allow
     (Gateway_Read (Ws_Text t) # bs) gs = None"
  by (cases gs) (simp add: gateway_event_def json_at_def Let_def)

text \<open>A reaction drops the attachments, and a reference that is no number becomes 0.\<close>

lemma reaction_request:
  "out_react_to out = Some ts \<Longrightarrow> signal_request i r out = signal_request i r (out\<lparr>out_attachments := atts\<rparr>)"
  by (cases out) (simp add: signal_request_def)

end
