(* ===== verification/Feedback_Server.thy ===== *)
theory Feedback_Server
  imports Webhook_Proxy
begin

text \<open>
  The feedback server (src/src/feedback.rs): reports with a limit per address, the
  administrator's routes, and the chat between agents of different deployments. SHA-256, the
  JSON library and the random salt are parameters; the sessions of the chat interleave, each
  branch of a session's \<open>select!\<close> is one action. That SQLite fails is an input.
\<close>

section \<open>State\<close>

record feedback_req =
  fq_summary :: string
  fq_details :: "string option"
  fq_repro :: "string option"
  fq_harness_version :: "string option"
  fq_agent_name :: "string option"
  fq_agent_personal_name :: "string option"
  fq_api_trace :: "json option"

record feedback_row =
  fr_id :: nat
  fr_timestamp :: string
  fr_req :: feedback_req
  fr_remote_addr :: string
  fr_trace_json :: "string option"

record feedback_db =
  fd_rows :: "feedback_row list"
  fd_last_rowid :: nat
  fd_users :: "(string, string \<times> string) hmap" \<comment> \<open>name, salt, hash\<close>

record feedback_server =
  fs_db :: feedback_db
  fs_admin_token :: "string option"
  fs_rate_limiter :: "(string, time \<times> nat) hmap"

record feedback_env =
  fe_sha256_hex :: "string \<Rightarrow> string"
  fe_parse :: "string \<Rightarrow> json option"
  fe_print :: "json \<Rightarrow> string"

definition rate_limit_per_min :: nat where
  "rate_limit_per_min = 10"

abbreviation minute :: time where "minute \<equiv> 60 * 1000000000"

section \<open>Reports\<close>

text \<open>The entry of an address: the start of its window and the requests in it.\<close>

definition rate_check :: "time \<Rightarrow> string \<Rightarrow> (string, time \<times> nat) hmap \<Rightarrow> bool \<times> (string, time \<times> nat) hmap" where
  "rate_check now ip rl =
     (let entry = (case map_of rl ip of Some e \<Rightarrow> e | None \<Rightarrow> (now, 0));
          (start, n) = (if now - fst entry > minute then (now, 0) else entry)
      in if n \<ge> rate_limit_per_min then (False, AList.update ip (start, n) rl)
         else (True, AList.update ip (start, n + 1) rl))"

definition handle_post ::
  "feedback_env \<Rightarrow> time \<Rightarrow> string \<Rightarrow> bool \<Rightarrow> string \<Rightarrow> feedback_req \<Rightarrow> feedback_server \<Rightarrow> (nat + json) \<times> feedback_server" where
  "handle_post e now ts db_ok ip req s =
     (let (ok, rl) = rate_check now ip (fs_rate_limiter s); s = s\<lparr>fs_rate_limiter := rl\<rparr>
      in if \<not> ok then (Inl 429, s)
      else if \<not> db_ok then (Inl 500, s)
      else let d = fs_db s; i = fd_last_rowid d + 1;
               row = \<lparr>fr_id = i, fr_timestamp = ts, fr_req = req, fr_remote_addr = ip,
                      fr_trace_json = map_option (fe_print e) (fq_api_trace req)\<rparr>
           in (Inr (JObj [(''status'', JStr ''ok''), (''id'', JInt (int i))]),
               s\<lparr>fs_db := d\<lparr>fd_rows := fd_rows d @ [row], fd_last_rowid := i\<rparr>\<rparr>))"

definition check_admin :: "feedback_server \<Rightarrow> headers \<Rightarrow> nat option" where
  "check_admin s hs =
     (case fs_admin_token s of
        None \<Rightarrow> Some 403
      | Some token \<Rightarrow>
          if Option.bind (header_str ''authorization'' hs) (strip_prefix ''Bearer '') \<noteq> Some token then Some 401 else None)"

definition handle_get_trace :: "feedback_env \<Rightarrow> headers \<Rightarrow> int \<Rightarrow> feedback_server \<Rightarrow> nat + json" where
  "handle_get_trace e hs i s =
     (case check_admin s hs of
        Some c \<Rightarrow> Inl c
      | None \<Rightarrow>
     (case find (\<lambda>r. int (fr_id r) = i) (fd_rows (fs_db s)) of
        None \<Rightarrow> Inl 404
      | Some r \<Rightarrow>
     (case fr_trace_json r of
        None \<Rightarrow> Inl 404
      | Some t \<Rightarrow> (case fe_parse e t of Some j \<Rightarrow> Inr j | None \<Rightarrow> Inl 500))))"

definition handle_delete :: "headers \<Rightarrow> int \<Rightarrow> feedback_server \<Rightarrow> (nat + json) \<times> feedback_server" where
  "handle_delete hs i s =
     (case check_admin s hs of
        Some c \<Rightarrow> (Inl c, s)
      | None \<Rightarrow>
          let d = fs_db s; rows = filter (\<lambda>r. int (fr_id r) \<noteq> i) (fd_rows d)
          in if length rows = length (fd_rows d) then (Inl 404, s)
             else (Inr (JObj [(''status'', JStr ''deleted''), (''id'', JInt i)]), s\<lparr>fs_db := d\<lparr>fd_rows := rows\<rparr>\<rparr>))"

text \<open>The newest rows first; a row is listed without its trace.\<close>

definition handle_get :: "headers \<Rightarrow> nat option \<Rightarrow> int option \<Rightarrow> feedback_server \<Rightarrow> nat + (feedback_row \<times> bool) list" where
  "handle_get hs limit since s =
     (case check_admin s hs of
        Some c \<Rightarrow> Inl c
      | None \<Rightarrow>
          let limit = min (case limit of Some n \<Rightarrow> n | None \<Rightarrow> 100) 1000;
              since = (case since of Some i \<Rightarrow> i | None \<Rightarrow> 0);
              rows = filter (\<lambda>r. int (fr_id r) > since) (fd_rows (fs_db s))
          in Inr (map (\<lambda>r. (r, fr_trace_json r \<noteq> None)) (take limit (rev (sort_key fr_id rows)))))"

section \<open>Accounts of the chat\<close>

definition pwhash :: "feedback_env \<Rightarrow> string \<Rightarrow> string \<Rightarrow> string" where
  "pwhash e salt pass = fe_sha256_hex e (salt @ pass)"

definition chat_auth :: "feedback_env \<Rightarrow> string \<Rightarrow> string \<Rightarrow> string \<Rightarrow> feedback_db \<Rightarrow> (string + unit) \<times> feedback_db" where
  "chat_auth e salt user pass d =
     (if user = [] \<or> length user > 64 \<or> pass = [] then (Inl ''invalid credentials'', d)
      else case map_of (fd_users d) user of
        Some (salt', stored) \<Rightarrow> (if pwhash e salt' pass = stored then Inr () else Inl ''wrong password'', d)
      | None \<Rightarrow> (Inr (), d\<lparr>fd_users := AList.update user (salt, pwhash e salt pass) (fd_users d)\<rparr>))"

section \<open>Sessions of the chat\<close>

definition chat_max_msg_bytes :: nat where "chat_max_msg_bytes = 10 * 1024"
definition chat_queue_cap :: nat where "chat_queue_cap = 32"
definition chat_rate_per_min :: nat where "chat_rate_per_min = 10"

datatype chat_phase = Active | Ending | Gone

record chat_session =
  cs_user :: string
  cs_queue :: "json list"
  cs_rate :: "time \<times> nat"
  cs_phase :: chat_phase
  cs_frames :: "json list" \<comment> \<open>sent to the client\<close>

text \<open>A session is known by its number; the map holds the sender of the session it names.\<close>

record chat =
  ch_connections :: "(string, nat) hmap"
  ch_sessions :: "chat_session list"

definition chat_new :: chat where
  "chat_new = \<lparr>ch_connections = [], ch_sessions = []\<rparr>"

definition upd_session :: "nat \<Rightarrow> (chat_session \<Rightarrow> chat_session) \<Rightarrow> chat \<Rightarrow> chat" where
  "upd_session i f c = c\<lparr>ch_sessions := (ch_sessions c)[i := f (ch_sessions c ! i)]\<rparr>"

definition error_frame :: "string \<Rightarrow> json" where
  "error_frame err = JObj [(''error'', JStr err)]"

text \<open>The first frame: the answer, and the session when the credentials are good.\<close>

definition chat_open ::
  "feedback_env \<Rightarrow> time \<Rightarrow> string \<Rightarrow> string option \<Rightarrow> feedback_db \<times> chat \<Rightarrow> json \<times> feedback_db \<times> chat" where
  "chat_open e now salt first dc =
     (let (d, c) = dc; auth = Option.bind first (fe_parse e) in
      case (Option.bind auth (\<lambda>v. as_str (json_at ''user'' v)), Option.bind auth (\<lambda>v. as_str (json_at ''pass'' v))) of
        (Some user, Some pass) \<Rightarrow>
          (case chat_auth e salt user pass d of
             (Inl err, d) \<Rightarrow> (error_frame err, d, c)
           | (Inr _, d) \<Rightarrow>
               let my_session = length (ch_sessions c);
                   kicked = (map_of (ch_connections c) user \<noteq> None);
                   answer = JObj [(''ok'', JBool True), (''kicked_prior_session'', JBool kicked)]
               in (answer, d, \<lparr>ch_connections = AList.update user my_session (ch_connections c),
                   ch_sessions = ch_sessions c @ [\<lparr>cs_user = user, cs_queue = [], cs_rate = (now, 0), cs_phase = Active, cs_frames = [answer]\<rparr>]\<rparr>))
      | _ \<Rightarrow> (error_frame ''expected auth frame'', d, c))"

definition reply :: "nat \<Rightarrow> json \<Rightarrow> chat \<Rightarrow> chat" where
  "reply i frame = upd_session i (\<lambda>s. s\<lparr>cs_frames := cs_frames s @ [frame]\<rparr>)"

text \<open>\<open>try_send\<close> fails when the queue is full or its receiver is dropped, which is at the very end of a session.\<close>

definition try_send :: "nat \<Rightarrow> json \<Rightarrow> chat \<Rightarrow> chat option" where
  "try_send i frame c =
     (if cs_phase (ch_sessions c ! i) \<noteq> Gone \<and> length (cs_queue (ch_sessions c ! i)) < chat_queue_cap
      then Some (upd_session i (\<lambda>s. s\<lparr>cs_queue := cs_queue s @ [frame]\<rparr>) c) else None)"

definition route :: "nat \<Rightarrow> string \<Rightarrow> json \<Rightarrow> chat \<Rightarrow> chat" where
  "route i to frame c =
     (let failed = (\<lambda>err. reply i (JObj [(''error'', JStr err), (''to'', JStr to)]) c) in
      case map_of (ch_connections c) to of
        None \<Rightarrow> failed ''recipient offline''
      | Some j \<Rightarrow> (case try_send j frame c of Some c' \<Rightarrow> c' | None \<Rightarrow> failed ''recipient overloaded''))"

definition chat_inbound :: "feedback_env \<Rightarrow> time \<Rightarrow> nat \<Rightarrow> string \<Rightarrow> chat \<Rightarrow> chat" where
  "chat_inbound e now i t c =
     (if length t > chat_max_msg_bytes then reply i (error_frame ''message too large'') c
      else
        let s = ch_sessions c ! i;
            bucket = (if now - fst (cs_rate s) > minute then (now, 0) else cs_rate s)
        in if snd bucket \<ge> chat_rate_per_min
           then reply i (error_frame ''rate limited'') (upd_session i (\<lambda>s. s\<lparr>cs_rate := bucket\<rparr>) c)
           else
             let c = upd_session i (\<lambda>s. s\<lparr>cs_rate := (fst bucket, snd bucket + 1)\<rparr>) c in
             case fe_parse e t of
               None \<Rightarrow> c
             | Some v \<Rightarrow>
                 (case (as_str (json_at ''to'' v), as_str (json_at ''body'' v)) of
                    (Some to, Some body) \<Rightarrow> route i to (JObj [(''from'', JStr (cs_user s)), (''body'', JStr body)]) c
                  | _ \<Rightarrow> c))"

datatype chat_action =
    Open time string "string option" \<comment> \<open>a connection: salt and first frame\<close>
  | Inbound_Text nat time string
  | Flush nat \<comment> \<open>\<open>rx.recv()\<close> returns\<close>
  | Hang_Up nat \<comment> \<open>the client closes, or a write fails\<close>
  | Cleanup nat

text \<open>\<open>recv\<close> gives the next frame, or nothing once the queue is empty and its sender dropped.\<close>

definition chat_flush :: "nat \<Rightarrow> chat \<Rightarrow> chat option" where
  "chat_flush i c =
     (let s = ch_sessions c ! i in
      case cs_queue s of
        frame # rest \<Rightarrow> Some (reply i frame (upd_session i (\<lambda>s. s\<lparr>cs_queue := rest\<rparr>) c))
      | [] \<Rightarrow> if map_of (ch_connections c) (cs_user s) = Some i then None
              else Some (upd_session i (\<lambda>s. s\<lparr>cs_phase := Ending\<rparr>) c))"

definition chat_cleanup :: "nat \<Rightarrow> chat \<Rightarrow> chat" where
  "chat_cleanup i c =
     (let user = cs_user (ch_sessions c ! i);
          c = (if map_of (ch_connections c) user = Some i then c\<lparr>ch_connections := AList.delete user (ch_connections c)\<rparr> else c)
      in upd_session i (\<lambda>s. s\<lparr>cs_phase := Gone\<rparr>) c)"

definition phase_of :: "nat \<Rightarrow> chat \<Rightarrow> chat_phase option" where
  "phase_of i c = (if i < length (ch_sessions c) then Some (cs_phase (ch_sessions c ! i)) else None)"

fun chat_step :: "feedback_env \<Rightarrow> chat_action \<Rightarrow> feedback_db \<times> chat \<Rightarrow> (feedback_db \<times> chat) option" where
  "chat_step e (Open now salt first) (d, c) = Some (snd (chat_open e now salt first (d, c)))"
| "chat_step e (Inbound_Text i now t) (d, c) =
     (if phase_of i c = Some Active then Some (d, chat_inbound e now i t c) else None)"
| "chat_step e (Flush i) (d, c) = (if phase_of i c = Some Active then map_option (Pair d) (chat_flush i c) else None)"
| "chat_step e (Hang_Up i) (d, c) =
     (if phase_of i c = Some Active then Some (d, upd_session i (\<lambda>s. s\<lparr>cs_phase := Ending\<rparr>) c) else None)"
| "chat_step e (Cleanup i) (d, c) = (if phase_of i c = Some Ending then Some (d, chat_cleanup i c) else None)"

fun chat_run :: "feedback_env \<Rightarrow> chat_action list \<Rightarrow> feedback_db \<times> chat \<Rightarrow> (feedback_db \<times> chat) option" where
  "chat_run e [] dc = Some dc"
| "chat_run e (a # acts) dc = (case chat_step e a dc of None \<Rightarrow> None | Some dc \<Rightarrow> chat_run e acts dc)"

section \<open>The invariant of the sessions\<close>

definition authentic :: "chat_session list \<Rightarrow> json \<Rightarrow> bool" where
  "authentic ss frame \<longleftrightarrow> (\<exists>s \<in> set ss. \<exists>b. frame = JObj [(''from'', JStr (cs_user s)), (''body'', JStr b)])"

definition session_ok :: "chat_session list \<Rightarrow> chat_session \<Rightarrow> bool" where
  "session_ok ss s \<longleftrightarrow> length (cs_queue s) \<le> chat_queue_cap \<and> snd (cs_rate s) \<le> chat_rate_per_min \<and> (\<forall>f \<in> set (cs_queue s). authentic ss f)"

definition latest :: "nat \<Rightarrow> chat \<Rightarrow> bool" where
  "latest i c \<longleftrightarrow> (\<forall>j. i < j \<and> j < length (ch_sessions c) \<longrightarrow> cs_user (ch_sessions c ! j) \<noteq> cs_user (ch_sessions c ! i))"

text \<open>A name leads to a live session of that user, the latest session of a user is found under
  its name until it is gone, and queues and buckets keep their bounds.\<close>

definition chat_inv :: "chat \<Rightarrow> bool" where
  "chat_inv c \<longleftrightarrow>
     (\<forall>u i. map_of (ch_connections c) u = Some i \<longrightarrow>
        i < length (ch_sessions c) \<and> cs_user (ch_sessions c ! i) = u \<and> cs_phase (ch_sessions c ! i) \<noteq> Gone) \<and>
     (\<forall>i < length (ch_sessions c). cs_phase (ch_sessions c ! i) \<noteq> Gone \<and> latest i c \<longrightarrow>
        map_of (ch_connections c) (cs_user (ch_sessions c ! i)) = Some i) \<and>
     list_all (session_ok (ch_sessions c)) (ch_sessions c)"

lemma chat_inv_new: "chat_inv chat_new"
  by (simp add: chat_inv_def chat_new_def)

lemma authentic_upd:
  "i < length ss \<Longrightarrow> cs_user (f (ss ! i)) = cs_user (ss ! i) \<Longrightarrow> authentic (ss[i := f (ss ! i)]) fr = authentic ss fr"
  unfolding authentic_def by (simp add: Bex_set list_ex_length) (metis nth_list_update)

text \<open>An update that leaves the user, does not revive and keeps the bounds.\<close>

lemma chat_inv_upd:
  assumes "chat_inv c" "i < length (ch_sessions c)"
    and "cs_user (f (ch_sessions c ! i)) = cs_user (ch_sessions c ! i)"
    and "cs_phase (f (ch_sessions c ! i)) = Gone \<longleftrightarrow> cs_phase (ch_sessions c ! i) = Gone"
    and "session_ok (ch_sessions c) (ch_sessions c ! i) \<Longrightarrow> session_ok (ch_sessions c) (f (ch_sessions c ! i))"
  shows "chat_inv (upd_session i f c)"
proof -
  let ?ss = "ch_sessions c" let ?ss' = "?ss[i := f (?ss ! i)]"
  have u: "cs_user (?ss' ! j) = cs_user (?ss ! j)" "cs_phase (?ss' ! j) = Gone \<longleftrightarrow> cs_phase (?ss ! j) = Gone" if "j < length ?ss" for j
    using assms that by (auto simp: nth_list_update)
  have ok: "session_ok ?ss' s \<longleftrightarrow> session_ok ?ss s" for s
    using authentic_upd [OF assms(2), of f] assms(3) by (simp add: session_ok_def)
  have "list_all (session_ok ?ss') ?ss'"
    using assms(1,2,5) by (auto simp: list_all_length ok chat_inv_def nth_list_update)
  moreover have "latest j (upd_session i f c) \<longleftrightarrow> latest j c" if "j < length ?ss" for j
    using u that by (auto simp: latest_def upd_session_def)
  ultimately show ?thesis
    using assms(1,2) u by (auto simp: chat_inv_def upd_session_def)
qed

lemma chat_inv_reply: "chat_inv c \<Longrightarrow> i < length (ch_sessions c) \<Longrightarrow> chat_inv (reply i frame c)"
  unfolding reply_def by (rule chat_inv_upd) (auto simp: session_ok_def)

lemma ch_upd_session [simp]: "length (ch_sessions (upd_session i f c)) = length (ch_sessions c)"
  "ch_connections (upd_session i f c) = ch_connections c"
  by (simp_all add: upd_session_def)

lemma upd_session_nth: "i < length (ch_sessions c) \<Longrightarrow> ch_sessions (upd_session i f c) ! i = f (ch_sessions c ! i)"
  by (simp add: upd_session_def)

lemma length_reply [simp]: "length (ch_sessions (reply i frame c)) = length (ch_sessions c)"
  by (simp add: reply_def)

lemma chat_inv_session: "chat_inv c \<Longrightarrow> i < length (ch_sessions c) \<Longrightarrow> session_ok (ch_sessions c) (ch_sessions c ! i)"
  by (simp add: chat_inv_def list_all_length)

lemma chat_inv_route:
  assumes "chat_inv c" "i < length (ch_sessions c)" "authentic (ch_sessions c) frame"
  shows "chat_inv (route i to frame c)"
proof (cases "map_of (ch_connections c) to")
  case None
  with assms show ?thesis by (simp add: route_def Let_def chat_inv_reply)
next
  case (Some j)
  with assms(1) have j: "j < length (ch_sessions c)" by (simp add: chat_inv_def)
  show ?thesis
  proof (cases "try_send j frame c")
    case None
    with Some assms show ?thesis by (simp add: route_def Let_def chat_inv_reply)
  next
    case t: (Some c')
    have "chat_inv c'"
      using t assms j by (auto simp: try_send_def split: if_splits intro!: chat_inv_upd simp: session_ok_def)
    with t Some show ?thesis by (simp add: route_def Let_def)
  qed
qed

lemma chat_inv_inbound:
  assumes "chat_inv c" "i < length (ch_sessions c)"
  shows "chat_inv (chat_inbound e now i t c)"
proof (cases "length t > chat_max_msg_bytes")
  case True
  with assms show ?thesis by (simp add: chat_inbound_def chat_inv_reply)
next
  case False
  define s where "s = ch_sessions c ! i"
  define b where "b = (if now - fst (cs_rate s) > minute then (now, 0) else cs_rate s)"
  have b: "snd b \<le> chat_rate_per_min"
    using chat_inv_session [OF assms] by (simp add: b_def s_def session_ok_def)
  have r: "chat_inv (upd_session i (\<lambda>s. s\<lparr>cs_rate := x\<rparr>) c)" if "snd x \<le> chat_rate_per_min" for x
    using assms that by (intro chat_inv_upd) (auto simp: session_ok_def)
  show ?thesis
  proof (cases "snd b \<ge> chat_rate_per_min")
    case True
    have "chat_inbound e now i t c = reply i (error_frame ''rate limited'') (upd_session i (\<lambda>s. s\<lparr>cs_rate := b\<rparr>) c)"
      using False True unfolding chat_inbound_def Let_def s_def [symmetric] b_def [symmetric] by simp
    then show ?thesis using assms r [OF b] by (simp add: chat_inv_reply)
  next
    case rate: False
    define c1 where "c1 = upd_session i (\<lambda>s. s\<lparr>cs_rate := (fst b, snd b + 1)\<rparr>) c"
    have c1: "chat_inv c1" using r [of "(fst b, snd b + 1)"] rate by (simp add: c1_def)
    have len: "i < length (ch_sessions c1)" using assms(2) by (simp add: c1_def)
    have s1: "ch_sessions c1 ! i \<in> set (ch_sessions c1)" "cs_user (ch_sessions c1 ! i) = cs_user s"
      using nth_mem [OF len] assms(2) by (simp_all add: c1_def upd_session_nth s_def)
    have a: "authentic (ch_sessions c1) (JObj [(''from'', JStr (cs_user s)), (''body'', JStr body)])" for body
      unfolding authentic_def s1(2) [symmetric] using s1(1) by blast
    have "chat_inbound e now i t c = (case fe_parse e t of
               None \<Rightarrow> c1
             | Some v \<Rightarrow>
                 (case (as_str (json_at ''to'' v), as_str (json_at ''body'' v)) of
                    (Some to, Some body) \<Rightarrow> route i to (JObj [(''from'', JStr (cs_user s)), (''body'', JStr body)]) c1
                  | _ \<Rightarrow> c1))"
      using False rate unfolding chat_inbound_def Let_def s_def [symmetric] b_def [symmetric] c1_def by (simp add: prod.case_eq_if)
    then show ?thesis
      using c1 chat_inv_route [OF c1 len a] by (auto split: option.split)
  qed
qed

lemma chat_inv_flush: "chat_inv c \<Longrightarrow> i < length (ch_sessions c) \<Longrightarrow> cs_phase (ch_sessions c ! i) = Active \<Longrightarrow>
    chat_flush i c = Some c' \<Longrightarrow> chat_inv c'"
  by (auto simp: chat_flush_def Let_def session_ok_def intro!: chat_inv_reply chat_inv_upd split: list.splits if_splits)

lemma cleanup_connections:
  assumes "chat_inv c" "i < length (ch_sessions c)"
  obtains m where "chat_cleanup i c = \<lparr>ch_connections = m, ch_sessions = (ch_sessions c)[i := (ch_sessions c ! i)\<lparr>cs_phase := Gone\<rparr>]\<rparr>"
    "\<And>u j. map_of m u = Some j \<longleftrightarrow> map_of (ch_connections c) u = Some j \<and> j \<noteq> i"
proof -
have own: "u = cs_user (ch_sessions c ! i)" if "map_of (ch_connections c) u = Some i" for u
  using assms(1) that by (auto simp: chat_inv_def)
show thesis
proof (cases "map_of (ch_connections c) (cs_user (ch_sessions c ! i)) = Some i")
  case True
  let ?m = "AList.delete (cs_user (ch_sessions c ! i)) (ch_connections c)"
  have "map_of ?m u = Some j \<longleftrightarrow> map_of (ch_connections c) u = Some j \<and> j \<noteq> i" for u j
  proof -
    have "map_of ?m u = (if u = cs_user (ch_sessions c ! i) then None else map_of (ch_connections c) u)"
      by (simp add: delete_conv')
    moreover have "u \<noteq> cs_user (ch_sessions c ! i) \<Longrightarrow> map_of (ch_connections c) u \<noteq> Some i" using own by blast
    ultimately show ?thesis using True by (cases "u = cs_user (ch_sessions c ! i)"; cases "j = i") simp_all
  qed
  then show thesis using True by (intro that [of ?m]) (simp_all add: chat_cleanup_def upd_session_def Let_def)
next
  case False
  then have "map_of (ch_connections c) u = Some j \<longleftrightarrow> map_of (ch_connections c) u = Some j \<and> j \<noteq> i" for u j
    using own False by auto
  then show thesis using False by (intro that [of "ch_connections c"]) (simp_all add: chat_cleanup_def upd_session_def Let_def)
qed
qed

lemma chat_inv_cleanup:
  assumes "chat_inv c" "i < length (ch_sessions c)"
  shows "chat_inv (chat_cleanup i c)"
proof -
  let ?ss = "ch_sessions c" let ?f = "\<lambda>s. s\<lparr>cs_phase := Gone\<rparr>"
  obtain m where c': "chat_cleanup i c = \<lparr>ch_connections = m, ch_sessions = ?ss[i := ?f (?ss ! i)]\<rparr>"
    and m: "\<And>u j. map_of m u = Some j \<longleftrightarrow> map_of (ch_connections c) u = Some j \<and> j \<noteq> i"
    using cleanup_connections [OF assms] by blast
  have u: "cs_user (?ss[i := ?f (?ss ! i)] ! j) = cs_user (?ss ! j)" if "j < length ?ss" for j
    using assms that by (auto simp: nth_list_update)
  have "list_all (session_ok (?ss[i := ?f (?ss ! i)])) (?ss[i := ?f (?ss ! i)])"
    using assms authentic_upd [OF assms(2), of ?f] chat_inv_session [OF assms]
    by (auto simp: list_all_length chat_inv_def nth_list_update session_ok_def)
  moreover have l: "latest j (chat_cleanup i c) \<longleftrightarrow> latest j c" if "j < length ?ss" for j
    using u that by (auto simp: latest_def c')
  moreover have "j < length ?ss \<and> cs_user (?ss[i := ?f (?ss ! i)] ! j) = v \<and> cs_phase (?ss[i := ?f (?ss ! i)] ! j) \<noteq> Gone" if "map_of m v = Some j" for v j
    using that m assms(1) by (auto simp: chat_inv_def)
  moreover have "map_of m (cs_user (?ss ! j)) = Some j"
    if "j < length ?ss" "cs_phase (?ss[i := ?f (?ss ! i)] ! j) \<noteq> Gone" "latest j c" for j
    using that assms m by (cases "j = i") (auto simp: chat_inv_def)
  ultimately show ?thesis
    using u unfolding chat_inv_def by (simp add: c')
qed

lemma authentic_append: "authentic ss f \<Longrightarrow> authentic (ss @ xs) f"
  by (auto simp: authentic_def)

lemma chat_inv_add:
  assumes "chat_inv c" "cs_phase s = Active" "cs_queue s = []" "snd (cs_rate s) = 0"
  shows "chat_inv \<lparr>ch_connections = AList.update (cs_user s) (length (ch_sessions c)) (ch_connections c), ch_sessions = ch_sessions c @ [s]\<rparr>"
    (is "chat_inv ?c")
proof -
  let ?n = "length (ch_sessions c)"
  have "list_all (session_ok (ch_sessions c @ [s])) (ch_sessions c @ [s])"
    using assms authentic_append [of "ch_sessions c" _ "[s]"]
    by (auto simp: chat_inv_def list_all_iff session_ok_def)
  moreover have l: "latest j c \<and> cs_user s \<noteq> cs_user (ch_sessions c ! j)" if "latest j ?c" "j < ?n" for j
    using that by (auto simp: latest_def nth_append)
  moreover have m: "map_of (AList.update (cs_user s) ?n (ch_connections c)) u = (if u = cs_user s then Some ?n else map_of (ch_connections c) u)" for u
    by (simp add: update_conv')
  moreover have "j < Suc ?n \<and> cs_user ((ch_sessions c @ [s]) ! j) = u \<and> cs_phase ((ch_sessions c @ [s]) ! j) \<noteq> Gone"
    if "(if u = cs_user s then Some ?n else map_of (ch_connections c) u) = Some j" for u j
  proof (cases "u = cs_user s")
    case False
    with that assms(1) have "j < ?n" "cs_user (ch_sessions c ! j) = u" "cs_phase (ch_sessions c ! j) \<noteq> Gone"
      by (simp_all add: chat_inv_def)
    then show ?thesis by (simp add: nth_append)
  next
    case True
    with that have "j = ?n" by simp
    with True assms(2) show ?thesis by simp
  qed
  moreover have "(if cs_user ((ch_sessions c @ [s]) ! j) = cs_user s then Some ?n else map_of (ch_connections c) (cs_user ((ch_sessions c @ [s]) ! j))) = Some j"
    if "j < Suc ?n" "cs_phase ((ch_sessions c @ [s]) ! j) \<noteq> Gone" "latest j ?c" for j
  proof (cases "j = ?n")
    case False
    with that l [of j] assms(1) show ?thesis by (auto simp: nth_append chat_inv_def)
  qed simp
  ultimately show ?thesis
    unfolding chat_inv_def by simp
qed

lemma chat_inv_open: "chat_inv c \<Longrightarrow> chat_inv (snd (snd (chat_open e now salt first (d, c))))"
  by (auto simp: chat_open_def Let_def intro: chat_inv_add [of c "\<lparr>cs_user = _, cs_queue = [], cs_rate = (now, 0), cs_phase = Active, cs_frames = _\<rparr>", simplified]
      split: option.split sum.split prod.split)

lemma phase_of_Some: "phase_of i c = Some p \<longleftrightarrow> i < length (ch_sessions c) \<and> cs_phase (ch_sessions c ! i) = p"
  by (simp add: phase_of_def)

lemma chat_step_inv: "chat_step e a (d, c) = Some (d', c') \<Longrightarrow> chat_inv c \<Longrightarrow> chat_inv c'"
proof (cases a)
  case (Open now salt first)
  assume "chat_step e a (d, c) = Some (d', c')" "chat_inv c"
  with Open chat_inv_open [of c e now salt first d] show ?thesis by simp
qed (auto simp: phase_of_Some session_ok_def intro: chat_inv_inbound chat_inv_flush chat_inv_cleanup intro!: chat_inv_upd split: if_splits)

lemma chat_run_inv: "chat_run e acts dc = Some dc' \<Longrightarrow> chat_inv (snd dc) \<Longrightarrow> chat_inv (snd dc')"
proof (induction acts arbitrary: dc)
  case (Cons a acts)
  then obtain x where x: "chat_step e a dc = Some x" by (auto split: option.splits)
  with Cons.prems(2) have "chat_inv (snd x)"
    using chat_step_inv [of e a "fst dc" "snd dc" "fst x" "snd x"] by simp
  with Cons x show ?case by simp
qed simp

section \<open>The limit of reports\<close>

text \<open>The requests of one address as its entry sees them.\<close>

fun limiter_run :: "(string \<times> time) list \<Rightarrow> (string, time \<times> nat) hmap \<Rightarrow> (string \<times> time) list" where
  "limiter_run [] rl = []"
| "limiter_run ((ip, now) # reqs) rl =
     (let (ok, rl) = rate_check now ip rl in if ok then (ip, now) # limiter_run reqs rl else limiter_run reqs rl)"

definition count_in :: "string \<Rightarrow> time \<Rightarrow> time \<Rightarrow> (string \<times> time) list \<Rightarrow> nat" where
  "count_in ip a b acc = length (filter (\<lambda>(i, t). i = ip \<and> a \<le> t \<and> t \<le> b) acc)"

lemma count_in_simps [simp]:
  "count_in ip a b [] = 0"
  "count_in ip a b (acc @ [(i, t)]) = count_in ip a b acc + (if i = ip \<and> a \<le> t \<and> t \<le> b then 1 else 0)"
  by (simp_all add: count_in_def)

text \<open>What an entry says of the requests accepted up to \<open>now\<close>: at most ten in its window, at
  most ten in the minute before its window, none later than now.\<close>

definition entry_ok :: "time \<Rightarrow> string \<Rightarrow> (string \<times> time) list \<Rightarrow> (time \<times> nat) option \<Rightarrow> bool" where
  "entry_ok now ip acc entry \<longleftrightarrow>
     (\<forall>x \<in> set acc. snd x \<le> now) \<and>
     (case entry of
        None \<Rightarrow> \<forall>a b. count_in ip a b acc = 0
      | Some (w, n) \<Rightarrow> w \<le> now \<and> n \<le> rate_limit_per_min \<and>
          (\<forall>a b. w \<le> a \<longrightarrow> count_in ip a b acc \<le> n) \<and>
          (\<forall>a b. w + minute < a \<longrightarrow> count_in ip a b acc = 0) \<and>
          (\<forall>a b. w - minute \<le> a \<and> b < w \<longrightarrow> count_in ip a b acc \<le> rate_limit_per_min)) \<and>
     (\<forall>a. count_in ip a (a + minute) acc \<le> 2 * rate_limit_per_min)"

lemma count_in_split: "a \<le> w \<Longrightarrow> w \<le> b + 1 \<Longrightarrow> count_in ip a b acc = count_in ip a (w - 1) acc + count_in ip w b acc"
  by (induction acc) (auto simp: count_in_def)

lemma count_in_mono: "a' \<le> a \<Longrightarrow> b \<le> b' \<Longrightarrow> count_in ip a b acc \<le> count_in ip a' b' acc"
  by (induction acc) (auto simp: count_in_def)

lemma entry_ok_other:
  "\<lbrakk>entry_ok now ip acc entry; now \<le> now'; ip' \<noteq> ip\<rbrakk> \<Longrightarrow> entry_ok now' ip (if ok then acc @ [(ip', now')] else acc) entry"
  by (fastforce simp: entry_ok_def split: option.splits)

lemma entry_ok_refused: "\<lbrakk>entry_ok now ip acc entry; now \<le> now'\<rbrakk> \<Longrightarrow> entry_ok now' ip acc entry"
  by (fastforce simp: entry_ok_def split: option.splits)

lemma entry_ok_first: "\<lbrakk>entry_ok now ip acc None; now \<le> now'\<rbrakk> \<Longrightarrow> entry_ok now' ip (acc @ [(ip, now')]) (Some (now', 1))"
  by (fastforce simp: entry_ok_def rate_limit_per_min_def)

lemma entry_ok_new_window:
  assumes "entry_ok now ip acc (Some (w, n))" "now \<le> now'" "now' - w > minute"
  shows "entry_ok now' ip (acc @ [(ip, now')]) (Some (now', 1))"
proof -
  have n: "n \<le> rate_limit_per_min" and a: "\<And>a b. w \<le> a \<Longrightarrow> count_in ip a b acc \<le> n"
    and z: "\<And>a b. w + minute < a \<Longrightarrow> count_in ip a b acc = 0"
    and t: "\<And>a. count_in ip a (a + minute) acc \<le> 2 * rate_limit_per_min"
    and s: "\<forall>x \<in> set acc. snd x \<le> now"
    using assms(1) by (auto simp: entry_ok_def)
  have "count_in ip a b acc \<le> rate_limit_per_min" if "w \<le> a" for a b using a [OF that, of b] n by simp
  moreover have "1 \<le> rate_limit_per_min" by (simp add: rate_limit_per_min_def)
  moreover have "count_in ip a (a + minute) (acc @ [(ip, now')]) \<le> 2 * rate_limit_per_min" for a
  proof (cases "a \<le> now' \<and> now' \<le> a + minute")
    case True
    then have "w \<le> a" using assms(3) by simp
    from a [OF this, of "a + minute"] n True show ?thesis by (simp add: rate_limit_per_min_def)
  next
    case False
    then show ?thesis using t [of a] by auto
  qed
  moreover have "count_in ip a b acc = 0" if "now' \<le> a" for a b using z [of a b] that assms(3) by simp
  ultimately show ?thesis
    using s assms(2,3) unfolding entry_ok_def by (auto simp: z)
qed

lemma entry_ok_same_window:
  assumes "entry_ok now ip acc (Some (w, n))" "now \<le> now'" "now' - w \<le> minute" "n < rate_limit_per_min"
  shows "entry_ok now' ip (acc @ [(ip, now')]) (Some (w, n + 1))"
proof -
  have w: "w \<le> now" and a: "\<And>a b. w \<le> a \<Longrightarrow> count_in ip a b acc \<le> n"
    and b: "\<And>a b. w - minute \<le> a \<Longrightarrow> b < w \<Longrightarrow> count_in ip a b acc \<le> rate_limit_per_min"
    and z: "\<And>a b. w + minute < a \<Longrightarrow> count_in ip a b acc = 0"
    and t: "\<And>a. count_in ip a (a + minute) acc \<le> 2 * rate_limit_per_min"
    and s: "\<forall>x \<in> set acc. snd x \<le> now"
    using assms(1) by (auto simp: entry_ok_def)
  have "count_in ip a (a + minute) (acc @ [(ip, now')]) \<le> 2 * rate_limit_per_min" for a
  proof (cases "a \<le> now' \<and> now' \<le> a + minute")
    case True
    show ?thesis
    proof (cases "w \<le> a")
      case True
      from a [OF this, of "a + minute"] assms(4) show ?thesis by simp
    next
      case False
      then have "count_in ip a (a + minute) acc = count_in ip a (w - 1) acc + count_in ip w (a + minute) acc"
        using True w assms(2) by (intro count_in_split) auto
      also have "\<dots> \<le> rate_limit_per_min + n"
        using b [of a "w - 1"] a [of w "a + minute"] True w assms(2) by simp
      finally show ?thesis using assms(4) by simp
    qed
  next
    case False
    then show ?thesis using t [of a] by auto
  qed
  moreover have "count_in ip a b (acc @ [(ip, now')]) \<le> n + 1" if "w \<le> a" for a b
    using a [OF that, of b] by simp
  moreover have "count_in ip c d (acc @ [(ip, now')]) \<le> rate_limit_per_min" if "w - minute \<le> c" "d < w" for c d
    using b [OF that] that w assms(2) by simp
  moreover have "count_in ip c d (acc @ [(ip, now')]) = 0" if "w + minute < c" for c d
    using z [OF that, of d] that assms(3) by simp
  ultimately show ?thesis
    using s w assms(2,4) unfolding entry_ok_def option.case prod.case by auto
qed

lemma rate_check_entry:
  assumes "entry_ok now ip acc (map_of rl ip)" "now \<le> now'" "rate_check now' ip' rl = (ok, rl')"
  shows "entry_ok now' ip (if ok then acc @ [(ip', now')] else acc) (map_of rl' ip)"
proof (cases "ip' = ip")
  case False
  then have "map_of rl' ip = map_of rl ip"
    using assms(3) by (auto simp: rate_check_def Let_def update_conv' split: prod.splits if_splits)
  then show ?thesis using entry_ok_other [OF assms(1,2) False] by simp
next
  case same: True
  show ?thesis
  proof (cases "map_of rl ip")
    case None
    with assms same have "ok" "map_of rl' ip = Some (now', 1)"
      by (auto simp: rate_check_def Let_def update_conv' rate_limit_per_min_def split: if_splits)
    with assms(1,2) None same entry_ok_first show ?thesis by simp
  next
    case (Some x)
    obtain w n where x: "map_of rl ip = Some (w, n)" using Some by (cases x) simp
    note e = assms(1) [unfolded x]
    show ?thesis
    proof (cases "now' - w > minute")
      case True
      with x assms(3) same have "ok" "map_of rl' ip = Some (now', 1)"
        by (auto simp: rate_check_def Let_def update_conv' rate_limit_per_min_def split: if_splits)
      with entry_ok_new_window [OF e assms(2) True] same show ?thesis by simp
    next
      case False
      show ?thesis
      proof (cases "n < rate_limit_per_min")
        case True
        with x assms(3) same False have "ok" "map_of rl' ip = Some (w, n + 1)"
          by (auto simp: rate_check_def Let_def update_conv' split: if_splits)
        with entry_ok_same_window [OF e assms(2) _ True] same False show ?thesis by simp
      next
        case full: False
        with x assms(3) same False have "\<not> ok" "map_of rl' ip = Some (w, n)"
          by (auto simp: rate_check_def Let_def update_conv' split: if_splits)
        with entry_ok_refused [OF e assms(2)] show ?thesis by simp
      qed
    qed
  qed
qed

lemma limiter_run_bound:
  assumes "sorted (map snd reqs)" "\<forall>t \<in> set (map snd reqs). now \<le> t" "entry_ok now ip acc (map_of rl ip)"
  shows "count_in ip a (a + minute) (acc @ limiter_run reqs rl) \<le> 2 * rate_limit_per_min"
  using assms
proof (induction reqs arbitrary: now acc rl)
  case Nil
  then show ?case by (auto simp: entry_ok_def)
next
  case (Cons r reqs)
  obtain ip' t where r: "r = (ip', t)" by fastforce
  obtain ok rl' where c: "rate_check t ip' rl = (ok, rl')" by fastforce
  from Cons.prems r have "entry_ok t ip (if ok then acc @ [(ip', t)] else acc) (map_of rl' ip)"
    using rate_check_entry [OF Cons.prems(3) _ c] by simp
  from Cons.IH [OF _ _ this] Cons.prems r c show ?case by (cases ok) auto
qed

section \<open>Properties\<close>

text \<open>The limit of reports: whatever addresses post in whatever order, of the reports of one
  address at most twenty are let through in any span of a minute (ten in each of the two windows the
  span can touch).\<close>

theorem reports_limited:
  assumes "sorted (map snd reqs)"
  shows "count_in ip a (a + minute) (limiter_run reqs []) \<le> 2 * rate_limit_per_min"
proof (cases reqs)
  case (Cons r rs)
  have "entry_ok (snd r) ip [] (map_of [] ip)" by (simp add: entry_ok_def)
  moreover have "\<forall>t \<in> set (map snd reqs). snd r \<le> t" using assms Cons by auto
  ultimately show ?thesis using limiter_run_bound [OF assms, of "snd r" ip "[]" "[]" a] by simp
qed simp

theorem reports_limited_witness:
  "count_in ''10.0.0.1'' 0 (0 + minute) (limiter_run [(''10.0.0.1'', 0), (''10.0.0.2'', 1), (''10.0.0.1'', 5)] [])
     \<le> 2 * rate_limit_per_min"
  by (rule reports_limited) simp

text \<open>C37: The sessions of the chat, over every interleaving of connections, messages, writes,
  hang-ups and clean-ups: the name of a user leads to a session of that user that is not over; a
  user's latest session is the one found under the name until it has ended itself, so a session that was
  replaced never removes its successor; queues and message budgets keep their bounds; and
  every queued frame names as its sender a user who logged in.\<close>

theorem chat_sessions_sound:
  assumes "chat_run e acts (d, chat_new) = Some (d', c)"
  shows "(\<forall>u i. map_of (ch_connections c) u = Some i \<longrightarrow>
        i < length (ch_sessions c) \<and> cs_user (ch_sessions c ! i) = u \<and> cs_phase (ch_sessions c ! i) \<noteq> Gone) \<and>
     (\<forall>i < length (ch_sessions c). cs_phase (ch_sessions c ! i) \<noteq> Gone \<and> latest i c \<longrightarrow>
        map_of (ch_connections c) (cs_user (ch_sessions c ! i)) = Some i) \<and>
     (\<forall>s \<in> set (ch_sessions c). length (cs_queue s) \<le> chat_queue_cap \<and> snd (cs_rate s) \<le> chat_rate_per_min \<and>
        (\<forall>f \<in> set (cs_queue s). authentic (ch_sessions c) f))"
  using chat_run_inv [OF assms, unfolded snd_conv, OF chat_inv_new]
  unfolding chat_inv_def list_all_iff session_ok_def .

definition sample_feedback_env :: feedback_env where
  "sample_feedback_env = \<lparr>fe_sha256_hex = (\<lambda>s. s),
     fe_parse = (\<lambda>s. if s = ''in'' then Some (JObj [(''user'', JStr ''ann''), (''pass'', JStr ''x'')])
                     else if s = ''hi'' then Some (JObj [(''to'', JStr ''ann''), (''body'', JStr ''hello'')]) else None),
     fe_print = (\<lambda>j. [])\<rparr>"

definition sample_chat_actions :: "chat_action list" where
  "sample_chat_actions = [Open 0 ''s'' (Some ''in''), Inbound_Text 0 1 ''hi'', Open 2 ''t'' (Some ''in''), Flush 0, Flush 0, Cleanup 0,
     Inbound_Text 1 3 ''hi'']"

definition empty_feedback_db :: feedback_db where
  "empty_feedback_db = \<lparr>fd_rows = [], fd_last_rowid = 0, fd_users = []\<rparr>"

text \<open>The second session replaces the first, which still delivers what it has and then ends; the
  name stays with the second.\<close>

theorem chat_sessions_sound_witness:
  "\<exists>d c. chat_run sample_feedback_env sample_chat_actions (empty_feedback_db, chat_new) = Some (d, c) \<and>
     map_of (ch_connections c) ''ann'' = Some 1 \<and> cs_user (ch_sessions c ! 1) = ''ann'' \<and> cs_phase (ch_sessions c ! 1) \<noteq> Gone"
proof -
  have "\<exists>d c. chat_run sample_feedback_env sample_chat_actions (empty_feedback_db, chat_new) = Some (d, c) \<and>
      map_of (ch_connections c) ''ann'' = Some 1"
    by (simp add: sample_chat_actions_def sample_feedback_env_def empty_feedback_db_def chat_new_def chat_open_def chat_auth_def
        pwhash_def json_at_def chat_inbound_def chat_max_msg_bytes_def chat_rate_per_min_def upd_session_def route_def try_send_def
        chat_queue_cap_def chat_flush_def chat_cleanup_def reply_def phase_of_def Let_def)
  then obtain d c where r: "chat_run sample_feedback_env sample_chat_actions (empty_feedback_db, chat_new) = Some (d, c)"
    "map_of (ch_connections c) ''ann'' = Some 1" by blast
  from chat_sessions_sound [OF r(1)] r show ?thesis by blast
qed

fun auth_run :: "feedback_env \<Rightarrow> (string \<times> string \<times> string) list \<Rightarrow> feedback_db \<Rightarrow> feedback_db" where
  "auth_run e [] d = d"
| "auth_run e ((salt, user, pass) # xs) d = auth_run e xs (snd (chat_auth e salt user pass d))"

lemma chat_auth_keeps: "map_of (fd_users d) user = Some x \<Longrightarrow> map_of (fd_users (snd (chat_auth e salt u p d))) user = Some x"
  by (auto simp: chat_auth_def update_conv' split: option.split)

lemma auth_run_keeps: "map_of (fd_users d) user = Some x \<Longrightarrow> map_of (fd_users (auth_run e xs d)) user = Some x"
  by (induction xs arbitrary: d) (auto simp: chat_auth_keeps)

text \<open>A name belongs to whoever logs in with it first. Once a password was accepted for a name,
  through any further log-ins and attempts of anyone, a password is accepted for it exactly
  when it is not empty and hashes, with the salt stored for the name, to the same value as that password.\<close>

theorem chat_password_fixed:
  assumes "chat_auth e salt user pass d = (Inr (), d1)"
  shows "\<exists>s0. map_of (fd_users d1) user = Some (s0, pwhash e s0 pass) \<and>
     (fst (chat_auth e salt' user pass' (auth_run e xs d1)) = Inr () \<longleftrightarrow> pass' \<noteq> [] \<and> pwhash e s0 pass' = pwhash e s0 pass)"
proof -
  obtain s0 where s0: "map_of (fd_users d1) user = Some (s0, pwhash e s0 pass)"
    using assms by (auto simp: chat_auth_def update_conv' split: if_splits option.splits)
  have "user \<noteq> []" "length user \<le> 64" using assms by (auto simp: chat_auth_def split: if_splits)
  with s0 auth_run_keeps [OF s0, of e xs] show ?thesis by (auto simp: chat_auth_def)
qed

theorem chat_password_fixed_witness:
  "fst (chat_auth sample_feedback_env ''t'' ''ann'' ''y'' (auth_run sample_feedback_env [(''q'', ''bob'', ''z'')]
      (snd (chat_auth sample_feedback_env ''s'' ''ann'' ''x'' empty_feedback_db)))) \<noteq> Inr ()"
proof -
  obtain d1 where a: "chat_auth sample_feedback_env ''s'' ''ann'' ''x'' empty_feedback_db = (Inr (), d1)"
    and m: "map_of (fd_users d1) ''ann'' = Some (''s'', ''sx'')"
    by (simp add: chat_auth_def empty_feedback_db_def sample_feedback_env_def pwhash_def)
  from chat_password_fixed [OF a, of "''t''" "''y''" "[(''q'', ''bob'', ''z'')]"] m a show ?thesis
    by (auto simp: pwhash_def sample_feedback_env_def)
qed

text \<open>Ids of reports are given in ascending order and never again.\<close>

definition reports_ok :: "feedback_db \<Rightarrow> bool" where
  "reports_ok d \<longleftrightarrow> sorted_wrt (<) (map fr_id (fd_rows d)) \<and> (\<forall>r \<in> set (fd_rows d). fr_id r \<le> fd_last_rowid d)"

lemma reports_ok_post: "reports_ok (fs_db s) \<Longrightarrow> reports_ok (fs_db (snd (handle_post e now ts ok ip req s)))"
  by (auto simp: reports_ok_def handle_post_def Let_def sorted_wrt_append le_imp_less_Suc split: prod.split)

lemma reports_ok_delete: "reports_ok (fs_db s) \<Longrightarrow> reports_ok (fs_db (snd (handle_delete hs i s)))"
  by (auto simp: reports_ok_def handle_delete_def Let_def sorted_wrt_map intro: sorted_wrt_filter split: option.split)

text \<open>A report that was answered with an id is the first one an administrator lists.\<close>

theorem posted_report_listed:
  assumes "handle_post e now ts ok ip req s = (Inr j, s')" "reports_ok (fs_db s)" "check_admin s' hs = None"
  shows "\<exists>r rest. handle_get hs None None s' = Inr (r # rest) \<and> fr_req (fst r) = req \<and> fr_remote_addr (fst r) = ip \<and>
     j = JObj [(''status'', JStr ''ok''), (''id'', JInt (int (fr_id (fst r))))]"
proof -
  let ?i = "fd_last_rowid (fs_db s) + 1"
  obtain row where row: "fs_db s' = (fs_db s)\<lparr>fd_rows := fd_rows (fs_db s) @ [row], fd_last_rowid := ?i\<rparr>"
    "fr_id row = ?i" "fr_req row = req" "fr_remote_addr row = ip" "j = JObj [(''status'', JStr ''ok''), (''id'', JInt (int ?i))]"
    using assms(1) by (auto simp: handle_post_def Let_def split: prod.splits if_splits)
  let ?rows = "filter (\<lambda>r. int (fr_id r) > 0) (fd_rows (fs_db s))"
  have "sorted_wrt (<) (map fr_id (?rows @ [row]))"
    using assms(2) row(2) by (auto simp: reports_ok_def sorted_wrt_append sorted_wrt_map le_imp_less_Suc intro: sorted_wrt_filter)
  then have "sort_key fr_id (?rows @ [row]) = ?rows @ [row]"
    by (intro sort_key_id_if_sorted strict_sorted_imp_sorted)
  then show ?thesis
    using row assms(3) by (simp add: handle_get_def)
qed

end
