(* ===== verification/Agent_Chat.thy ===== *)
theory Agent_Chat
  imports Chat_Services Feedback_Server
begin

text \<open>
  The bridge to the chat between agents (src/src/bridges/agentchat.rs), a client of the server of
  \<open>Feedback\_Server\<close>: messages from the chat are collected and posted to the daemon in batches.
\<close>

section \<open>The bridge\<close>

definition agentchat_login :: "(string \<Rightarrow> json option) \<Rightarrow> ws_msg \<Rightarrow> string + unit" where
  "agentchat_login parse m =
     (case m of
        Ws_Text t \<Rightarrow>
          (case parse t of
             None \<Rightarrow> Inl ''invalid JSON''
           | Some v \<Rightarrow>
               if as_bool (json_at ''ok'' v) \<noteq> Some True
               then Inl (''auth failed: '' @ (case as_str (json_at ''error'' v) of Some e \<Rightarrow> e | None \<Rightarrow> ''?'')) else Inr ())
      | _ \<Rightarrow> Inl ''expected auth response'')"

text \<open>The stream of the daemon: recipients and texts.\<close>

definition agentchat_block :: "relay_env \<Rightarrow> string \<Rightarrow> (string \<times> string) option" where
  "agentchat_block e block =
     (let data = trim (case List.map_filter (strip_prefix ''data:'') (lines block) of d # _ \<Rightarrow> d | [] \<Rightarrow> []) in
      Option.bind (re_parse e data) (\<lambda>v.
        (case (as_str (json_at ''chat_id'' v), as_str (json_at ''content'' v)) of
           (Some cid, Some content) \<Rightarrow> map_option (\<lambda>to. (to, content)) (strip_prefix ''agentchat:'' cid)
         | _ \<Rightarrow> None)))"

fun agentchat_sse :: "relay_env \<Rightarrow> string \<Rightarrow> string list \<Rightarrow> (string \<times> string) list" where
  "agentchat_sse e buf [] = []"
| "agentchat_sse e buf (bytes # chunks) =
     (let (blocks, rest) = sse_blocks (buf @ re_lossy e bytes)
      in List.map_filter (agentchat_block e) blocks @ agentchat_sse e rest chunks)"

record agent_chat =
  ac_batch :: "json list"
  ac_flush_at :: "time option"

definition agent_chat_new :: agent_chat where
  "agent_chat_new = \<lparr>ac_batch = [], ac_flush_at = None\<rparr>"

definition batch_event :: "string \<Rightarrow> json list \<Rightarrow> json" where
  "batch_event agent msgs =
     JObj [(''source'', JStr ''agentchat''), (''type'', JStr ''batch''), (''data'', JObj [(''messages'', JArr msgs)]),
       (''agent'', JStr agent), (''priority'', JInt 7)]"

datatype agentchat_branch =
    To_Chat "(string \<times> string) option" \<comment> \<open>\<open>out\_rx\<close>; \<open>None\<close>: the daemon's stream is over\<close>
  | From_Chat ws_msg
  | Batch_Timer

definition takes :: "json \<Rightarrow> bool" where
  "takes v \<longleftrightarrow> json_get ''from'' v \<noteq> None \<or> json_get ''error'' v \<noteq> None"

text \<open>A round of the loop at time \<open>now\<close>: the state and the frames written, the events posted, and
  whether the loop ended. The branch of the timer is only there when its time has come.\<close>

fun agentchat_round ::
  "(string \<Rightarrow> json option) \<Rightarrow> (ws_sent list \<Rightarrow> bool) \<Rightarrow> string \<Rightarrow> time \<Rightarrow> time \<Rightarrow> agentchat_branch \<Rightarrow> agent_chat \<times> ws_sent list
     \<Rightarrow> (agent_chat \<times> ws_sent list) \<times> json list \<times> loop_end" where
  "agentchat_round parse wr agent debounce now (To_Chat None) (s, sent) = ((s, sent), [], Some (Inr ()))"
| "agentchat_round parse wr agent debounce now (To_Chat (Some (to, body))) (s, sent) =
     (let (sent, r) = ws_write wr (Sent_Text (JObj [(''to'', JStr to), (''body'', JStr body)])) sent in ((s, sent), [], r))"
| "agentchat_round parse wr agent debounce now (From_Chat (Ws_Text t)) (s, sent) =
     (let v = (case parse t of Some v \<Rightarrow> v | None \<Rightarrow> JNull) in
      if takes v
      then ((\<lparr>ac_batch = ac_batch s @ [v], ac_flush_at = (case ac_flush_at s of None \<Rightarrow> Some (now + debounce) | Some t \<Rightarrow> Some t)\<rparr>, sent), [], None)
      else ((s, sent), [], None))"
| "agentchat_round parse wr agent debounce now (From_Chat (Ws_Ping p)) (s, sent) =
     (let (sent, r) = ws_write wr (Sent_Pong p) sent in ((s, sent), [], r))"
| "agentchat_round parse wr agent debounce now (From_Chat Ws_Close) (s, sent) = ((s, sent), [], Some (Inr ()))"
| "agentchat_round parse wr agent debounce now (From_Chat Ws_End) (s, sent) = ((s, sent), [], Some (Inr ()))"
| "agentchat_round parse wr agent debounce now (From_Chat _) (s, sent) = ((s, sent), [], None)"
| "agentchat_round parse wr agent debounce now Batch_Timer (s, sent) =
     (case ac_flush_at s of
        Some t \<Rightarrow> if t \<le> now then ((agent_chat_new, sent), [batch_event agent (ac_batch s)], None) else ((s, sent), [], None)
      | None \<Rightarrow> ((s, sent), [], None))"

fun agentchat_loop ::
  "(string \<Rightarrow> json option) \<Rightarrow> (ws_sent list \<Rightarrow> bool) \<Rightarrow> string \<Rightarrow> time \<Rightarrow> (time \<times> agentchat_branch) list \<Rightarrow> agent_chat \<times> ws_sent list
     \<Rightarrow> (agent_chat \<times> ws_sent list) \<times> json list \<times> loop_end" where
  "agentchat_loop parse wr agent debounce [] s = (s, [], None)"
| "agentchat_loop parse wr agent debounce ((now, b) # rounds) s =
     (case agentchat_round parse wr agent debounce now b s of
        (s, posted, Some r) \<Rightarrow> (s, posted, Some r)
      | (s, posted, None) \<Rightarrow>
          (let (s, others, r) = agentchat_loop parse wr agent debounce rounds s in (s, posted @ others, r)))"

section \<open>Lemmas\<close>

text \<open>The messages among the rounds.\<close>

fun taken :: "(string \<Rightarrow> json option) \<Rightarrow> time \<times> agentchat_branch \<Rightarrow> json list" where
  "taken parse (now, From_Chat (Ws_Text t)) = (case parse t of Some v \<Rightarrow> if takes v then [v] else [] | None \<Rightarrow> [])"
| "taken parse (now, _) = []"

lemma takes_null [simp]: "\<not> takes JNull"
  by (simp add: takes_def)

text \<open>Pending messages wait for the timer, at most \<open>debounce\<close> from now.\<close>

definition batch_ok :: "time \<Rightarrow> time \<Rightarrow> agent_chat \<Rightarrow> bool" where
  "batch_ok debounce now s \<longleftrightarrow> (case ac_flush_at s of None \<Rightarrow> ac_batch s = [] | Some t \<Rightarrow> ac_batch s \<noteq> [] \<and> t \<le> now + debounce)"

lemma round_batches:
  assumes "agentchat_round parse wr agent debounce now b (s, sent) = ((s', sent'), posted, r)" "batch_ok debounce now s"
  shows "batch_ok debounce now s' \<and>
     (\<exists>bs. posted = map (batch_event agent) bs \<and> [] \<notin> set bs \<and> concat bs @ ac_batch s' = ac_batch s @ taken parse (now, b)) \<and>
     (r \<noteq> None \<longrightarrow> posted = [] \<and> taken parse (now, b) = [])"
  using assms
  by (cases "(parse, wr, agent, debounce, now, b, s, sent)" rule: agentchat_round.cases)
     (auto simp: batch_ok_def agent_chat_new_def ws_write_def split: option.splits if_splits prod.splits
        intro: exI [of _ "[]"] exI [of _ "[ac_batch s]"])

lemma loop_batches:
  assumes "agentchat_loop parse wr agent debounce rounds (s, sent) = ((s', sent'), posted, r)"
    "sorted (now # map fst rounds)" "batch_ok debounce now s"
  shows "batch_ok debounce (last (now # map fst rounds)) s' \<and>
     (\<exists>n \<le> length rounds. \<exists>bs. posted = map (batch_event agent) bs \<and> [] \<notin> set bs \<and>
        concat bs @ ac_batch s' = ac_batch s @ concat (map (taken parse) (take n rounds)) \<and>
        (if r = None then n = length rounds else n < length rounds))"
  using assms
proof (induction rounds arbitrary: s sent now posted)
  case (Cons x rounds)
  obtain t b where x: "x = (t, b)" by (cases x)
  obtain s1 sent1 posts1 r1 where rd: "agentchat_round parse wr agent debounce t b (s, sent) = ((s1, sent1), posts1, r1)"
    by (cases "agentchat_round parse wr agent debounce t b (s, sent)") auto
  have mono: "batch_ok debounce u c \<Longrightarrow> u \<le> v \<Longrightarrow> batch_ok debounce v c" for u v c
    by (auto simp: batch_ok_def split: option.splits)
  have "now \<le> t" using Cons.prems(2) x by simp
  then have ok: "batch_ok debounce t s" using Cons.prems(3) mono by blast
  note one = round_batches [OF rd ok]
  have "t \<le> last (now # map fst (x # rounds))"
    using Cons.prems(2) x last_in_set [of "t # map fst rounds"] by (auto simp del: last_in_set)
  show ?case
  proof (cases r1)
    case (Some e)
    with Cons.prems(1) rd x have "s' = s1" "posted = posts1" "r = r1" by simp_all
    with one Some mono [OF _ \<open>t \<le> last (now # map fst (x # rounds))\<close>] show ?thesis
      by (intro conjI exI [of _ 0]) auto
  next
    case None
    obtain s2 sent2 posts2 r2 where l: "agentchat_loop parse wr agent debounce rounds (s1, sent1) = ((s2, sent2), posts2, r2)"
      by (cases "agentchat_loop parse wr agent debounce rounds (s1, sent1)") auto
    have eq: "s' = s2" "sent' = sent2" "posted = posts1 @ posts2" "r = r2" using Cons.prems(1) rd x None l by simp_all
    have "sorted (t # map fst rounds)" using Cons.prems(2) x by simp
    moreover have "agentchat_loop parse wr agent debounce rounds (s1, sent1) = ((s', sent'), posts2, r)" using l eq by simp
    ultimately obtain n bs2 where i: "batch_ok debounce (last (t # map fst rounds)) s'" "n \<le> length rounds"
      "posts2 = map (batch_event agent) bs2" "[] \<notin> set bs2"
      "concat bs2 @ ac_batch s' = ac_batch s1 @ concat (map (taken parse) (take n rounds))"
      "if r = None then n = length rounds else n < length rounds" using Cons.IH [of s1 sent1 posts2 t] one by blast
    obtain bs1 where o: "posts1 = map (batch_event agent) bs1" "[] \<notin> set bs1" "concat bs1 @ ac_batch s1 = ac_batch s @ taken parse (t, b)"
      using one by blast
    have "concat (bs1 @ bs2) @ ac_batch s' = ac_batch s @ concat (map (taken parse) (take (Suc n) (x # rounds)))"
      using i(5) o(3) x by (metis append.assoc concat.simps(2) concat_append list.simps(9) take_Suc_Cons)
    then have "\<exists>n \<le> length (x # rounds). \<exists>bs. posted = map (batch_event agent) bs \<and> [] \<notin> set bs \<and>
        concat bs @ ac_batch s' = ac_batch s @ concat (map (taken parse) (take n (x # rounds))) \<and>
        (if r = None then n = length (x # rounds) else n < length (x # rounds))"
      using i o eq by (intro exI [of _ "Suc n"] conjI exI [of _ "bs1 @ bs2"]) auto
    with i(1) x show ?thesis by simp
  qed
qed (auto intro: exI [of _ "[]"])

text \<open>What the server sends to a session: the answer to the log-in, and then only what the bridge takes.\<close>

definition served :: "chat_session \<Rightarrow> bool" where
  "served s \<longleftrightarrow> (\<exists>kicked fs. cs_frames s = JObj [(''ok'', JBool True), (''kicked_prior_session'', JBool kicked)] # fs \<and> list_all takes fs)
     \<and> list_all takes (cs_queue s)"

definition all_served :: "chat \<Rightarrow> bool" where
  "all_served c \<longleftrightarrow> list_all served (ch_sessions c)"

lemma takes_frames [simp]:
  "takes (JObj [(''error'', v)])" "takes (JObj [(''error'', v), (''to'', w)])" "takes (JObj [(''from'', v), (''body'', w)])" "takes (error_frame err)"
  by (simp_all add: takes_def error_frame_def)

lemma served_reply: "served s \<Longrightarrow> takes f \<Longrightarrow> served (s\<lparr>cs_frames := cs_frames s @ [f]\<rparr>)"
  by (auto simp: served_def)

lemma all_served_upd:
  assumes "all_served c" "\<And>s. served s \<Longrightarrow> served (f s)"
  shows "all_served (upd_session i f c)"
proof (cases "i < length (ch_sessions c)")
  case True
  with assms show ?thesis by (auto simp: all_served_def upd_session_def list_all_length nth_list_update)
qed (use assms in \<open>simp add: all_served_def upd_session_def list_update_beyond\<close>)

lemma all_served_reply: "all_served c \<Longrightarrow> takes f \<Longrightarrow> all_served (reply i f c)"
  unfolding reply_def by (rule all_served_upd) (auto intro: served_reply)

lemma all_served_route: "all_served c \<Longrightarrow> takes f \<Longrightarrow> all_served (route i to f c)"
  by (auto simp: route_def try_send_def Let_def served_def intro!: all_served_reply all_served_upd split: option.split)

lemma all_served_inbound: "all_served c \<Longrightarrow> all_served (chat_inbound e now i t c)"
  by (auto simp: chat_inbound_def Let_def served_def intro!: all_served_reply all_served_route all_served_upd split: option.split)

lemma all_served_flush: "all_served c \<Longrightarrow> i < length (ch_sessions c) \<Longrightarrow> chat_flush i c = Some c' \<Longrightarrow> all_served c'"
proof -
  assume a: "all_served c" "i < length (ch_sessions c)" "chat_flush i c = Some c'"
  have s: "served (ch_sessions c ! i)" using a(1,2) by (simp add: all_served_def list_all_length)
  show ?thesis
  proof (cases "cs_queue (ch_sessions c ! i)")
    case Nil
    with a(1,3) show ?thesis by (auto simp: chat_flush_def served_def split: if_splits intro!: all_served_upd)
  next
    case (Cons f rest)
    with s have "takes f" "list_all takes rest" by (simp_all add: served_def)
    with Cons a(1,3) show ?thesis
      by (auto simp: chat_flush_def served_def intro!: all_served_reply all_served_upd)
  qed
qed

lemma all_served_cleanup: "all_served c \<Longrightarrow> all_served (chat_cleanup i c)"
  by (auto simp: chat_cleanup_def Let_def all_served_def [of "_\<lparr>ch_connections := _\<rparr>"] served_def
      simp flip: all_served_def intro!: all_served_upd)

lemma all_served_step:
  assumes "chat_step e a (d, c) = Some (d', c')" "all_served c"
  shows "all_served c'"
proof (cases a)
  case (Open now salt first)
  with assms show ?thesis
    by (auto simp: chat_open_def Let_def all_served_def served_def split: option.splits prod.splits sum.splits)
next
  case (Flush i)
  with assms show ?thesis by (auto simp: phase_of_def split: if_splits intro: all_served_flush)
next
  case (Hang_Up i)
  with assms show ?thesis by (auto simp: served_def split: if_splits intro!: all_served_upd)
qed (use assms in \<open>auto split: if_splits intro: all_served_inbound all_served_cleanup\<close>)

lemma all_served_run: "chat_run e acts (d, c) = Some (d', c') \<Longrightarrow> all_served c \<Longrightarrow> all_served c'"
proof (induction acts arbitrary: d c)
  case (Cons a acts)
  then obtain d1 c1 where "chat_step e a (d, c) = Some (d1, c1)" "chat_run e acts (d1, c1) = Some (d', c')"
    by (auto split: option.splits)
  with Cons all_served_step show ?case by blast
qed simp

section \<open>Properties\<close>

text \<open>Batches: over any rounds at times that do not go back, every message of the chat that was read before the loop
  ended is in exactly one posted batch or pending, in the order of arrival; no batch is empty; and what is
  pending has its timer set, at most one debounce window ahead, so that the next timer posted it.\<close>

theorem agentchat_batches:
  assumes "agentchat_loop parse wr agent debounce rounds (agent_chat_new, []) = ((s, sent), posted, r)"
    "sorted (0 # map fst rounds)"
  shows "(\<exists>n \<le> length rounds. \<exists>bs. posted = map (batch_event agent) bs \<and> [] \<notin> set bs \<and>
        concat bs @ ac_batch s = concat (map (taken parse) (take n rounds)) \<and> (if r = None then n = length rounds else n < length rounds))
     \<and> (case ac_flush_at s of None \<Rightarrow> ac_batch s = [] | Some t \<Rightarrow> ac_batch s \<noteq> [] \<and> t \<le> last (0 # map fst rounds) + debounce)"
proof -
  have new: "batch_ok debounce 0 agent_chat_new" "ac_batch agent_chat_new = []" by (simp_all add: batch_ok_def agent_chat_new_def)
  from loop_batches [OF assms new(1)] show ?thesis unfolding new(2) append_Nil batch_ok_def by blast
qed

definition sample_frame :: "string \<Rightarrow> json" where
  "sample_frame t = JObj [(''from'', JStr ''ann''), (''body'', JStr t)]"

lemma sample_batches:
  "agentchat_loop (Some \<circ> sample_frame) (\<lambda>sent. True) ''root'' 5
     [(1, From_Chat (Ws_Text ''a'')), (3, From_Chat (Ws_Text ''b'')), (6, Batch_Timer), (7, From_Chat (Ws_Text ''c''))] (agent_chat_new, []) =
     ((\<lparr>ac_batch = [sample_frame ''c''], ac_flush_at = Some 12\<rparr>, []), [batch_event ''root'' [sample_frame ''a'', sample_frame ''b'']], None)"
  by (simp add: agent_chat_new_def sample_frame_def)

theorem agentchat_batches_witness:
  "\<exists>bs. [batch_event ''root'' [sample_frame ''a'', sample_frame ''b'']] = map (batch_event ''root'') bs \<and> [] \<notin> set bs"
proof -
  have "sorted (0 # map fst [(1, From_Chat (Ws_Text ''a'')), (3, From_Chat (Ws_Text ''b'')), (6, Batch_Timer), (7 :: time, From_Chat (Ws_Text ''c''))])"
    by simp
  from agentchat_batches [OF sample_batches this] show ?thesis by (elim conjE exE) (rule exI, rule conjI)
qed

text \<open>The bridge and the server agree: whatever connections and messages the chat server has handled, a bridge that
  reads the frames the server sent to a session passes the log-in with the first and takes every other one; none is
  dropped for its form.\<close>

theorem agentchat_takes_server_frames:
  assumes "chat_run e acts (d, chat_new) = Some (d', c)" "s \<in> set (ch_sessions c)" "\<forall>f \<in> set (cs_frames s). parse (print f) = Some f"
  shows "\<exists>login rest. cs_frames s = login # rest \<and> agentchat_login parse (Ws_Text (print login)) = Inr () \<and>
     concat (map (taken parse) (map (\<lambda>f. (now, From_Chat (Ws_Text (print f)))) rest)) = rest"
proof -
  have "all_served chat_new" by (simp add: all_served_def chat_new_def)
  with all_served_run [OF assms(1)] assms(2) have "served s" by (auto simp: all_served_def list_all_iff)
  then obtain kicked fs where fs: "cs_frames s = JObj [(''ok'', JBool True), (''kicked_prior_session'', JBool kicked)] # fs" "list_all takes fs"
    by (auto simp: served_def)
  have "concat (map (taken parse) (map (\<lambda>f. (now, From_Chat (Ws_Text (print f)))) fs)) = fs"
    using fs(2) assms(3) unfolding fs(1) by (induction fs) simp_all
  with fs(1) assms(3) show ?thesis by (simp add: agentchat_login_def json_at_def)
qed

theorem agentchat_takes_server_frames_witness:
  "\<exists>d c login rest. chat_run sample_feedback_env [Open 0 ''s'' (Some ''in''), Inbound_Text 0 1 ''hi'', Flush 0] (empty_feedback_db, chat_new) = Some (d, c) \<and>
     cs_frames (ch_sessions c ! 0) = login # rest \<and> rest \<noteq> []"
proof -
  let ?login = "JObj [(''ok'', JBool True), (''kicked_prior_session'', JBool False)]"
  let ?msg = "JObj [(''from'', JStr ''ann''), (''body'', JStr ''hello'')]"
  obtain d c where r: "chat_run sample_feedback_env [Open 0 ''s'' (Some ''in''), Inbound_Text 0 1 ''hi'', Flush 0] (empty_feedback_db, chat_new) = Some (d, c)"
    "map cs_frames (ch_sessions c) = [[?login, ?msg]]"
    by (simp add: sample_feedback_env_def empty_feedback_db_def chat_new_def chat_open_def chat_auth_def
        pwhash_def json_at_def chat_inbound_def chat_max_msg_bytes_def chat_rate_per_min_def upd_session_def route_def try_send_def
        chat_queue_cap_def chat_flush_def reply_def phase_of_def Let_def)
  then obtain s where s: "ch_sessions c = [s]" "cs_frames s = [?login, ?msg]" by auto
  let ?parse = "\<lambda>t. if t = ''l'' then Some ?login else Some ?msg"
  let ?print = "\<lambda>f. if f = ?login then ''l'' else ''m''"
  have "s \<in> set (ch_sessions c)" "\<forall>f \<in> set (cs_frames s). ?parse (?print f) = Some f" using s by simp_all
  from agentchat_takes_server_frames [OF r(1) this] r(1) s show ?thesis by auto
qed

text \<open>What is pending when the connection closes is lost.\<close>

lemma close_drops_batch:
  "agentchat_loop (Some \<circ> sample_frame) wr agent 5 [(1, From_Chat (Ws_Text ''a'')), (2, From_Chat Ws_Close)] (agent_chat_new, []) =
     ((\<lparr>ac_batch = [sample_frame ''a''], ac_flush_at = Some 6\<rparr>, []), [], Some (Inr ()))"
  by (simp add: agent_chat_new_def sample_frame_def)

end
