(* ===== verification/Watchers.thy ===== *)
theory Watchers
  imports Api_Client
begin

text \<open>
  The event watchers (src/src/watchers): the debouncer they share, what the MQTT watcher makes of
  a message and keeps on disk, how the IMAP watcher finds new mail, and the events of the file
  watcher. The clock is read once per round of the debouncer; base64, JSON, lossy
  decoding, Unicode's table of letters and digits and the random directory names are parameters.
\<close>

section \<open>Debouncing (watchers/mod.rs)\<close>

record watch_common =
  wc_priority :: u8
  wc_debounce :: time
  wc_force :: time

record debounce =
  db_pending :: "json list"
  db_debounce_at :: "time option"
  db_force_at :: "time option"

definition debounce_new :: debounce where
  "debounce_new = \<lparr>db_pending = [], db_debounce_at = None, db_force_at = None\<rparr>"

text \<open>The branch of the \<open>select!\<close> that is ready: an event, the closed channel, one of the timers.\<close>

datatype watch_branch = Event json | Closed | Debounce_Timer | Force_Timer

definition due :: "time option \<Rightarrow> time \<Rightarrow> bool" where
  "due at now \<longleftrightarrow> (case at of Some t \<Rightarrow> now \<ge> t | None \<Rightarrow> False)"

definition batch_body :: "watch_common \<Rightarrow> string \<Rightarrow> string option \<Rightarrow> json list \<Rightarrow> json" where
  "batch_body c source agent events =
     JObj [(''source'', JStr source), (''type'', JStr ''batch''),
           (''data'', JObj [(''count'', JInt (int (length events))), (''events'', JArr events)]),
           (''priority'', JInt (uint (wc_priority c))), (''agent'', case agent of Some a \<Rightarrow> JStr a | None \<Rightarrow> JNull)]"

text \<open>A round, \<open>None\<close> when it leaves the loop; with the batch it posts. A timer's branch is
  only ready when the timer is due.\<close>

definition flush :: "time \<Rightarrow> debounce \<Rightarrow> debounce \<times> json list option" where
  "flush now d =
     (if db_pending d \<noteq> [] \<and> (due (db_debounce_at d) now \<or> due (db_force_at d) now)
      then (debounce_new, Some (db_pending d)) else (d, None))"

fun debounce_round :: "watch_common \<Rightarrow> time \<Rightarrow> watch_branch \<Rightarrow> debounce \<Rightarrow> (debounce \<times> json list option) option" where
  "debounce_round c now (Event ev) d =
     Some (flush now (d\<lparr>db_force_at := (if db_pending d = [] then Some (now + wc_force c) else db_force_at d),
       db_pending := db_pending d @ [ev], db_debounce_at := Some (now + wc_debounce c)\<rparr>))"
| "debounce_round c now Closed d = None"
| "debounce_round c now Debounce_Timer d = Some (flush now d)"
| "debounce_round c now Force_Timer d = Some (flush now d)"

fun debounce_loop :: "watch_common \<Rightarrow> (time \<times> watch_branch) list \<Rightarrow> debounce \<Rightarrow> debounce \<times> json list list" where
  "debounce_loop c [] d = (d, [])"
| "debounce_loop c ((now, b) # rounds) d =
     (case debounce_round c now b d of
        None \<Rightarrow> (d, [])
      | Some (d, None) \<Rightarrow> debounce_loop c rounds d
      | Some (d, Some batch) \<Rightarrow> (let (d, batches) = debounce_loop c rounds d in (d, batch # batches)))"

section \<open>MQTT messages (watchers/mqtt.rs)\<close>

datatype payload_mode = Text_Mode | Raw | Structured

record mqtt_env =
  mq_lossy :: "string \<Rightarrow> string"
  mq_json :: "string \<Rightarrow> json option"
  mq_base64 :: "string \<Rightarrow> string option"
  mq_alnum :: "string \<Rightarrow> bool" \<comment> \<open>\<open>char::is_alphanumeric\<close>\<close>

text \<open>The directories of messages, oldest first as in \<open>retained\<close>, and the files on disk.\<close>

record attach_store =
  at_retained :: "string list"
  at_dirs :: "string list"
  at_files :: "(string, string) hmap"

definition one_char :: "string \<Rightarrow> char list \<Rightarrow> bool" where
  "one_char c cs \<longleftrightarrow> (\<exists>x \<in> set cs. c = [x])"

definition slug :: "(string \<Rightarrow> bool) \<Rightarrow> string \<Rightarrow> string" where
  "slug alnum topic = concat (map (\<lambda>c. if alnum c then c else ''-'') (utf8_chars topic))"

definition sanitize_name :: "(string \<Rightarrow> bool) \<Rightarrow> string \<Rightarrow> string" where
  "sanitize_name alnum name =
     (let cleaned = concat (map (\<lambda>c. if alnum c \<or> one_char c ''.-_'' then c else ''_'') (utf8_chars name));
          cleaned = dropWhile (\<lambda>c. c = CHR ''.'') cleaned
      in if cleaned = [] then ''attachment.bin'' else cleaned)"

text \<open>\<open>Path::join\<close> with a relative component.\<close>

definition path_join :: "string \<Rightarrow> string \<Rightarrow> string" where
  "path_join dir name = (if dir = [] \<or> last dir = CHR ''/'' then dir @ name else dir @ ''/'' @ name)"

definition remove_dir_all :: "string \<Rightarrow> attach_store \<Rightarrow> attach_store" where
  "remove_dir_all d st =
     st\<lparr>at_dirs := filter (\<lambda>x. x \<noteq> d) (at_dirs st), at_files := filter (\<lambda>(p, c). \<not> starts_with (d @ ''/'') p) (at_files st)\<rparr>"

text \<open>\<open>while retained.len() > cap\<close>\<close>

fun drop_oldest :: "nat \<Rightarrow> string list \<Rightarrow> attach_store \<Rightarrow> attach_store" where
  "drop_oldest cap [] st = st\<lparr>at_retained := []\<rparr>"
| "drop_oldest cap (d # ds) st =
     (if length (d # ds) > cap then drop_oldest cap ds (remove_dir_all d st) else st\<lparr>at_retained := d # ds\<rparr>)"

definition new_msg_dir :: "string \<Rightarrow> string \<Rightarrow> nat \<Rightarrow> attach_store \<Rightarrow> string \<times> attach_store" where
  "new_msg_dir base name cap st =
     (let dir = path_join base name; st = st\<lparr>at_dirs := List.insert dir (at_dirs st)\<rparr>
      in (dir, drop_oldest cap (at_retained st @ [dir]) st))"

text \<open>\<open>fs::write\<close> needs the directory.\<close>

definition write_attachment :: "string \<Rightarrow> string \<Rightarrow> string \<Rightarrow> attach_store \<Rightarrow> (string + string) \<times> attach_store" where
  "write_attachment dir name bytes st =
     (if dir \<in> set (at_dirs st)
      then (Inr (path_join dir name), st\<lparr>at_files := AList.update (path_join dir name) bytes (at_files st)\<rparr>)
      else (Inl ''No such file or directory'', st))"

fun write_attachments ::
  "mqtt_env \<Rightarrow> string \<Rightarrow> nat \<Rightarrow> json list \<Rightarrow> attach_store \<Rightarrow> (string + string list) \<times> attach_store" where
  "write_attachments e dir i [] st = (Inr [], st)"
| "write_attachments e dir i (a # atts) st =
     (let name = (case Option.bind (json_get ''name'' a) as_str of
                    Some n \<Rightarrow> sanitize_name (mq_alnum e) n
                  | None \<Rightarrow> ''attachment-'' @ show_nat i @ ''.bin'')
      in case Option.bind (json_get ''base64'' a) as_str of
        None \<Rightarrow> (Inl ''structured attachment missing base64'', st)
      | Some b64 \<Rightarrow>
     (case mq_base64 e b64 of
        None \<Rightarrow> (Inl ''structured attachment: invalid base64'', st)
      | Some bytes \<Rightarrow>
     (case write_attachment dir name bytes st of
        (Inl err, st) \<Rightarrow> (Inl err, st)
      | (Inr path, st) \<Rightarrow>
     (case write_attachments e dir (Suc i) atts st of
        (Inl err, st) \<Rightarrow> (Inl err, st)
      | (Inr paths, st) \<Rightarrow> (Inr (path # paths), st)))))"

definition handle_publish ::
  "mqtt_env \<Rightarrow> payload_mode \<Rightarrow> string \<Rightarrow> string \<Rightarrow> string \<Rightarrow> string \<Rightarrow> bool \<Rightarrow> nat \<Rightarrow> attach_store \<Rightarrow> (string + json) \<times> attach_store" where
  "handle_publish e mode attach_dir name topic payload retain cap st =
     (case mode of
        Text_Mode \<Rightarrow>
          (Inr (JObj [(''topic'', JStr topic), (''payload'', JStr (mq_lossy e payload)), (''retain'', JBool retain)]), st)
      | Raw \<Rightarrow>
          let (dir, st) = new_msg_dir attach_dir name cap st
          in (case write_attachment dir (slug (mq_alnum e) topic @ ''.bin'') payload st of
                (Inl err, st) \<Rightarrow> (Inl err, st)
              | (Inr path, st) \<Rightarrow>
                  (Inr (JObj [(''topic'', JStr topic), (''attachments'', JArr [JStr path]),
                     (''size'', JInt (int (length payload))), (''retain'', JBool retain)]), st))
      | Structured \<Rightarrow>
          (case mq_json e payload of
             None \<Rightarrow> (Inl ''structured mode: payload is not valid JSON'', st)
           | Some parsed \<Rightarrow>
               let event = (\<lambda>paths. JObj [(''topic'', JStr topic),
                     (''data'', case json_get ''data'' parsed of Some d \<Rightarrow> d | None \<Rightarrow> JNull),
                     (''attachments'', JArr (map JStr paths)), (''retain'', JBool retain)])
               in (case Option.bind (json_get ''attachments'' parsed) as_arr of
                     Some (a # atts) \<Rightarrow>
                       (let (dir, st) = new_msg_dir attach_dir name cap st
                        in case write_attachments e dir 0 (a # atts) st of
                          (Inl err, st) \<Rightarrow> (Inl err, st)
                        | (Inr paths, st) \<Rightarrow> (Inr (event paths), st))
                   | _ \<Rightarrow> (Inr (event []), st))))"

text \<open>\<open>host:port\<close>, with the default port where there is none or it is not a number.\<close>

definition parse_broker :: "bool \<Rightarrow> string \<Rightarrow> string \<times> nat" where
  "parse_broker tls broker =
     (let default_port = (if tls then 8883 else 1883) in
      if CHR '':'' \<in> set broker
      then (let p = rev (takeWhile (\<lambda>c. c \<noteq> CHR '':'') (rev broker)); h = take (length broker - length p - 1) broker
            in (h, case parse_uint 16 p of Some n \<Rightarrow> n | None \<Rightarrow> default_port))
      else (broker, default_port))"

text \<open>One certificate of the system store in PEM; its base64 text is given.\<close>

fun wrap_64 :: "string \<Rightarrow> string" where
  "wrap_64 [] = []"
| "wrap_64 (c # b64) = take 64 (c # b64) @ nl # wrap_64 (drop 64 (c # b64))"

definition pem_of :: "string \<Rightarrow> string" where
  "pem_of b64 = ''-----BEGIN CERTIFICATE-----'' @ nl # wrap_64 b64 @ ''-----END CERTIFICATE-----'' @ [nl]"

section \<open>New mail (watchers/imap.rs)\<close>

text \<open>What a wake-up fetches: the messages \<open>last_seen + 1 : exists\<close>, and the next \<open>last_seen\<close>.\<close>

definition imap_wake :: "'m list \<Rightarrow> nat \<Rightarrow> 'm list \<times> nat" where
  "imap_wake mbox last_seen =
     (if length mbox \<le> last_seen then ([], length mbox) else (drop last_seen mbox, length mbox))"

fun imap_session :: "'m list list \<Rightarrow> nat \<Rightarrow> 'm list" where
  "imap_session [] last_seen = []"
| "imap_session (mbox # mboxes) last_seen =
     (let (new, last_seen) = imap_wake mbox last_seen in new @ imap_session mboxes last_seen)"

record mail_address =
  ma_mailbox :: "string option"
  ma_host :: "string option"

definition mail_event :: "(string \<Rightarrow> string) \<Rightarrow> string \<Rightarrow> mail_address option \<Rightarrow> string option \<Rightarrow> nat option \<Rightarrow> json" where
  "mail_event lossy folder from subject uid =
     JObj [(''from'', JStr (case from of
              Some a \<Rightarrow> (case ma_mailbox a of Some b \<Rightarrow> lossy b | None \<Rightarrow> []) @ ''@'' @ (case ma_host a of Some b \<Rightarrow> lossy b | None \<Rightarrow> [])
            | None \<Rightarrow> [])),
           (''subject'', JStr (case subject of Some s \<Rightarrow> lossy s | None \<Rightarrow> [])),
           (''uid'', JInt (case uid of Some u \<Rightarrow> int u | None \<Rightarrow> 0)), (''folder'', JStr folder)]"

section \<open>File events (watchers/fs.rs)\<close>

definition fs_events :: "(string \<Rightarrow> string) \<Rightarrow> string \<Rightarrow> string list \<Rightarrow> json list" where
  "fs_events lossy kind paths = map (\<lambda>p. JObj [(''path'', JStr (lossy p)), (''kind'', JStr kind)]) paths"

section \<open>Lemmas\<close>

subsection \<open>The debouncer\<close>

fun arrival :: "time \<times> watch_branch \<Rightarrow> (time \<times> json) list" where
  "arrival (now, Event ev) = [(now, ev)]"
| "arrival (now, b) = []"

text \<open>What the debouncer holds at \<open>now\<close>: the events \<open>rest\<close> with their times, none of them due.\<close>

definition holds :: "watch_common \<Rightarrow> time \<Rightarrow> (time \<times> json) list \<Rightarrow> debounce \<Rightarrow> bool" where
  "holds c now rest d \<longleftrightarrow>
     db_pending d = map snd rest \<and>
     (if rest = [] then db_debounce_at d = None \<and> db_force_at d = None
      else db_debounce_at d = Some (fst (last rest) + wc_debounce c) \<and> db_force_at d = Some (fst (hd rest) + wc_force c) \<and>
        now < fst (last rest) + wc_debounce c \<and> now < fst (hd rest) + wc_force c) \<and>
     sorted (map fst rest) \<and> (\<forall>x \<in> set rest. fst x \<le> now)"

lemma holds_new: "holds c now [] debounce_new"
  by (simp add: holds_def debounce_new_def)

lemma round_holds:
  assumes "debounce_round c now' b d = Some (d', out)" "holds c now rest d" "now \<le> now'"
  shows "case out of
     None \<Rightarrow> holds c now' (rest @ arrival (now', b)) d'
   | Some batch \<Rightarrow> batch = map snd (rest @ arrival (now', b)) \<and> batch \<noteq> [] \<and> holds c now' [] d'"
proof (cases "\<exists>ev. b = Event ev")
  case True
  then obtain ev where b: "b = Event ev" by blast
  from assms b show ?thesis
    by (cases "rest = []")
      (auto simp: flush_def holds_def due_def debounce_new_def sorted_append split: if_splits option.splits)
next
  case False
  then have "flush now' d = (d', out)" "arrival (now', b) = []" using assms(1) by (cases b; simp)+
  with assms(2,3) show ?thesis
    by (auto simp: flush_def holds_def due_def debounce_new_def split: if_splits option.splits)
qed

lemma loop_holds:
  assumes "debounce_loop c rounds d = (d', batches)" "holds c now rest d" "\<forall>r \<in> set rounds. now \<le> fst r \<and> snd r \<noteq> Closed"
    and "sorted (map fst rounds)"
  shows "\<exists>sent held. rest @ concat (map arrival rounds) = sent @ held \<and> concat batches = map snd sent \<and> [] \<notin> set batches \<and>
     holds c (if rounds = [] then now else fst (last rounds)) held d'"
  using assms
proof (induction c rounds d arbitrary: now rest d' batches rule: debounce_loop.induct)
  case (1 c d)
  then show ?case by (intro exI [of _ "[]"] exI [of _ rest]) auto
next
  case (2 c t b rounds d)
  have "debounce_round c t b d \<noteq> None" using 2(5) by (cases b) auto
  then obtain d1 out where r: "debounce_round c t b d = Some (d1, out)" by fastforce
  have le: "now \<le> t" "sorted (map fst rounds)" "\<forall>r \<in> set rounds. t \<le> fst r \<and> snd r \<noteq> Closed" using 2(5,6) by auto
  have l: "(if rounds = [] then t else fst (last rounds)) = fst (last ((t, b) # rounds))" by simp
  note h = round_holds [OF r 2(4) le(1)]
  show ?case
  proof (cases out)
    case None
    with 2(3) r have e: "debounce_loop c rounds d1 = (d', batches)" by simp
    from h None have "holds c t (rest @ arrival (t, b)) d1" by simp
    from "2.IH"(1) [OF r refl None e this le(3,2)] l show ?thesis by (simp add: append_assoc)
  next
    case (Some batch)
    obtain d2 batches' where e: "debounce_loop c rounds d1 = (d2, batches')" by fastforce
    with 2(3) r Some have b: "batches = batch # batches'" "d' = d2" by auto
    from h Some have h0: "holds c t [] d1" by simp
    from "2.IH"(2) [OF r refl Some e h0 le(3,2)]
    obtain sent held where "concat (map arrival rounds) = sent @ held" "concat batches' = map snd sent" "[] \<notin> set batches'"
      "holds c (if rounds = [] then t else fst (last rounds)) held d2" by auto
    with h Some b l show ?thesis by (intro exI [of _ "rest @ arrival (t, b) @ sent"] exI [of _ held]) auto
  qed
qed

subsection \<open>Names and directories\<close>

text \<open>Unicode's table puts neither the separators nor the dot among letters and digits.\<close>

definition alnum_table :: "(string \<Rightarrow> bool) \<Rightarrow> bool" where
  "alnum_table alnum \<longleftrightarrow> (\<forall>c. alnum c \<longrightarrow> CHR ''/'' \<notin> set c \<and> CHR ''.'' \<notin> set c \<and> CHR 0x00 \<notin> set c)"

lemma sanitize_name_chars:
  assumes "alnum_table alnum"
  shows "CHR ''/'' \<notin> set (sanitize_name alnum name) \<and> CHR 0x00 \<notin> set (sanitize_name alnum name) \<and>
     sanitize_name alnum name \<noteq> [] \<and> hd (sanitize_name alnum name) \<noteq> CHR ''.''"
proof -
  define s where "s = concat (map (\<lambda>c. if alnum c \<or> one_char c ''.-_'' then c else ''_'') (utf8_chars name))"
  have "CHR ''/'' \<notin> set s \<and> CHR 0x00 \<notin> set s"
    using assms by (auto simp: s_def alnum_table_def one_char_def split: if_splits)
  then have "CHR ''/'' \<notin> set (dropWhile (\<lambda>c. c = CHR ''.'') s) \<and> CHR 0x00 \<notin> set (dropWhile (\<lambda>c. c = CHR ''.'') s)"
    by (blast dest: set_dropWhileD)
  moreover have "dropWhile (\<lambda>c. c = CHR ''.'') s \<noteq> [] \<Longrightarrow> hd (dropWhile (\<lambda>c. c = CHR ''.'') s) \<noteq> CHR ''.''"
    by (rule hd_dropWhile)
  ultimately show ?thesis by (simp add: sanitize_name_def s_def [symmetric] Let_def)
qed

lemma slug_chars: "alnum_table alnum \<Longrightarrow> CHR ''/'' \<notin> set (slug alnum topic) \<and> CHR ''.'' \<notin> set (slug alnum topic)"
  by (auto simp: slug_def alnum_table_def split: if_splits)

subsection \<open>Retention\<close>

definition file_dir :: "string \<Rightarrow> string \<Rightarrow> bool" where
  "file_dir d p \<longleftrightarrow> starts_with (d @ ''/'') p"

text \<open>The directories on disk are the retained ones, each once, and every file is in one of them.\<close>

definition store_ok :: "attach_store \<Rightarrow> bool" where
  "store_ok st \<longleftrightarrow> distinct (at_retained st) \<and> set (at_dirs st) = set (at_retained st) \<and>
     (\<forall>p \<in> fst ` set (at_files st). \<exists>d \<in> set (at_retained st). file_dir d p)"

lemma remove_dir_files: "p \<in> fst ` set (at_files (remove_dir_all d st)) \<longleftrightarrow> p \<in> fst ` set (at_files st) \<and> \<not> file_dir d p"
  by (force simp: remove_dir_all_def file_dir_def)

text \<open>What is retained while the oldest go: the newest \<open>cap\<close> of the list.\<close>

lemma drop_oldest_store:
  assumes "distinct ds" "set (at_dirs st) = set ds" "\<forall>p \<in> fst ` set (at_files st). \<exists>d \<in> set ds. file_dir d p"
  shows "store_ok (drop_oldest cap ds st) \<and> at_retained (drop_oldest cap ds st) = drop (length ds - cap) ds"
  using assms
proof (induction cap ds st rule: drop_oldest.induct)
  case (2 cap d ds st)
  show ?case
  proof (cases "length (d # ds) > cap")
    case True
    have "set (at_dirs (remove_dir_all d st)) = set ds" using 2(2,3) by (auto simp: remove_dir_all_def)
    moreover have "\<forall>p \<in> fst ` set (at_files (remove_dir_all d st)). \<exists>x \<in> set ds. file_dir x p"
    proof
      fix p assume "p \<in> fst ` set (at_files (remove_dir_all d st))"
      then have "p \<in> fst ` set (at_files st)" "\<not> file_dir d p" using remove_dir_files [of p d st] by blast+
      with 2(4) show "\<exists>x \<in> set ds. file_dir x p" by auto
    qed
    moreover have "length (d # ds) - cap = Suc (length ds - cap)" using True by auto
    ultimately show ?thesis using 2(1) [OF True] 2(2) True by simp
  next
    case False
    with 2 show ?thesis by (auto simp: store_ok_def)
  qed
qed (simp add: store_ok_def)

lemma new_msg_dir_store:
  assumes "store_ok st" "path_join base name \<notin> set (at_retained st)" "new_msg_dir base name cap st = (dir, st')"
  shows "store_ok st' \<and> at_retained st' = drop (Suc (length (at_retained st)) - cap) (at_retained st @ [dir]) \<and> dir = path_join base name"
proof -
  let ?st = "st\<lparr>at_dirs := List.insert dir (at_dirs st)\<rparr>"
  have d: "dir = path_join base name" "st' = drop_oldest cap (at_retained st @ [dir]) ?st"
    using assms(3) by (auto simp: new_msg_dir_def Let_def)
  have "store_ok st' \<and> at_retained st' = drop (length (at_retained st @ [dir]) - cap) (at_retained st @ [dir])"
    unfolding d(2) by (rule drop_oldest_store) (use assms(1,2) d(1) in \<open>auto simp: store_ok_def\<close>)
  with d(1) show ?thesis by simp
qed

lemma write_store:
  assumes "store_ok st" "write_attachment dir name bytes st = (r, st')" "dir \<noteq> []" "last dir \<noteq> CHR ''/''"
  shows "store_ok st' \<and> at_retained st' = at_retained st \<and> at_dirs st' = at_dirs st \<and>
     fst ` set (at_files st) \<subseteq> fst ` set (at_files st') \<and> (\<forall>path. r = Inr path \<longrightarrow> path \<in> fst ` set (at_files st') \<and> path = dir @ ''/'' @ name)"
proof -
  let ?p = "path_join dir name"
  have p: "?p = dir @ ''/'' @ name" using assms(3,4) by (simp add: path_join_def)
  have fd: "file_dir dir ?p" unfolding p by (simp add: file_dir_def starts_with_iff)
  have u: "fst ` set (AList.update ?p bytes (at_files st)) = insert ?p (fst ` set (at_files st))"
    by (simp add: dom_update)
  show ?thesis
  proof (cases "dir \<in> set (at_dirs st)")
    case True
    with assms(2) have w: "r = Inr ?p" "st' = st\<lparr>at_files := AList.update ?p bytes (at_files st)\<rparr>"
      by (simp_all add: write_attachment_def)
    have "dir \<in> set (at_retained st)" using True assms(1) by (simp add: store_ok_def)
    with fd assms(1) have "store_ok st'" unfolding store_ok_def w(2) by (simp add: u) blast
    then show ?thesis using p u [unfolded p] by (simp add: w subset_insertI)
  next
    case False
    with assms(1,2) show ?thesis by (auto simp: write_attachment_def)
  qed
qed

lemma writes_store:
  assumes "write_attachments e dir i atts st = (r, st')" "store_ok st" "dir \<noteq> []" "last dir \<noteq> CHR ''/''"
  shows "store_ok st' \<and> at_retained st' = at_retained st \<and> fst ` set (at_files st) \<subseteq> fst ` set (at_files st') \<and>
     (\<forall>paths. r = Inr paths \<longrightarrow> length paths = length atts \<and> set paths \<subseteq> fst ` set (at_files st') \<and>
        (\<forall>p \<in> set paths. \<exists>n. p = dir @ ''/'' @ n))"
  using assms
proof (induction e dir i atts st arbitrary: r st' rule: write_attachments.induct)
  case (2 e dir i a atts st)
  define name where "name = (case Option.bind (json_get ''name'' a) as_str of
                    Some n \<Rightarrow> sanitize_name (mq_alnum e) n
                  | None \<Rightarrow> ''attachment-'' @ show_nat i @ ''.bin'')"
  show ?case
  proof (cases "Option.bind (Option.bind (json_get ''base64'' a) as_str) (mq_base64 e)")
    case None
    then consider "Option.bind (json_get ''base64'' a) as_str = None"
      | b64 where "Option.bind (json_get ''base64'' a) as_str = Some b64" "mq_base64 e b64 = None"
      by (cases "Option.bind (json_get ''base64'' a) as_str") auto
    then have "\<exists>err. r = Inl err" "st' = st" using 2(2) by (cases; auto simp: Let_def)+
    with 2(3) show ?thesis by auto
  next
    case (Some bytes)
    then obtain b64 where b: "Option.bind (json_get ''base64'' a) as_str = Some b64" "mq_base64 e b64 = Some bytes"
      by (auto simp: bind_eq_Some_conv)
    obtain r1 st1 where w: "write_attachment dir name bytes st = (r1, st1)" by fastforce
    note s1 = write_store [OF 2(3) w 2(4,5)]
    show ?thesis
    proof (cases r1)
      case (Inl err)
      with 2(2) b w s1 show ?thesis by (auto simp: Let_def name_def [symmetric])
    next
      case (Inr path)
      obtain r2 st2 where ws: "write_attachments e dir (Suc i) atts st1 = (r2, st2)" by fastforce
      have ih: "store_ok st2 \<and> at_retained st2 = at_retained st1 \<and> fst ` set (at_files st1) \<subseteq> fst ` set (at_files st2) \<and>
         (\<forall>paths. r2 = Inr paths \<longrightarrow> length paths = length atts \<and> set paths \<subseteq> fst ` set (at_files st2) \<and>
            (\<forall>p \<in> set paths. \<exists>n. p = dir @ ''/'' @ n))"
        using 2(1) [OF name_def b(1) b(2) w [unfolded Inr, symmetric] refl ws] s1 2(4,5) by simp
      have "r = (case r2 of Inl err \<Rightarrow> Inl err | Inr paths \<Rightarrow> Inr (path # paths)) \<and> st' = st2"
        using 2(2) b w ws Inr by (auto simp: Let_def name_def [symmetric] split: sum.splits)
      moreover have "fst ` set (at_files st) \<subseteq> fst ` set (at_files st2)" using ih s1 by blast
      moreover have "path \<in> fst ` set (at_files st2)" "path = dir @ ''/'' @ name" using ih s1 Inr by blast+
      ultimately show ?thesis using ih s1 by (cases r2) simp_all
    qed
  qed
qed auto

section \<open>Properties\<close>


definition sample_watch :: watch_common where
  "sample_watch = \<lparr>wc_priority = 5, wc_debounce = 3, wc_force = 10\<rparr>"

definition sample_rounds :: "(time \<times> watch_branch) list" where
  "sample_rounds = [(0, Event (JInt 1)), (2, Event (JInt 2)), (5, Debounce_Timer), (6, Event (JInt 3))]"

lemma sample_debounce:
  "debounce_loop sample_watch sample_rounds debounce_new =
     (\<lparr>db_pending = [JInt 3], db_debounce_at = Some 9, db_force_at = Some 16\<rparr>, [[JInt 1, JInt 2]])"
  by (simp add: sample_watch_def sample_rounds_def debounce_new_def flush_def due_def)


text \<open>What is pending when the channel closes is not posted.\<close>

lemma close_drops_pending:
  "debounce_loop c [(0, Event ev), (1, Closed)] debounce_new = (d, []) \<or> wc_debounce c \<le> 0 \<or> wc_force c \<le> 0"
  if "d = \<lparr>db_pending = [ev], db_debounce_at = Some (wc_debounce c), db_force_at = Some (wc_force c)\<rparr>"
  using that by (auto simp: debounce_new_def flush_def due_def)

text \<open>A publisher cannot choose where its attachments go: whatever names and payload a structured or raw
  message has, when it is accepted, every path it reports is a file directly in the message's own new
  directory, whose name has no separator and no leading dot; the directories on disk are exactly the
  retained ones, at most the configured number.\<close>

theorem attachments_contained:
  assumes "handle_publish e mode base name topic payload retain cap st = (Inr event, st')"
    and "alnum_table (mq_alnum e)" "store_ok st" "path_join base name \<notin> set (at_retained st)"
    and "name \<noteq> []" "CHR ''/'' \<notin> set name" "length (at_retained st) \<le> cap"
  shows "store_ok st' \<and> length (at_retained st') \<le> cap \<and>
     (\<exists>paths. (mode \<noteq> Text_Mode \<longrightarrow> json_get ''attachments'' event = Some (JArr (map JStr paths))) \<and>
        (\<forall>p \<in> set paths. p \<in> fst ` set (at_files st') \<and> (\<exists>n. p = path_join base name @ ''/'' @ n)))"
proof -
  obtain dir st1 where d: "new_msg_dir base name cap st = (dir, st1)" by fastforce
  note s1 = new_msg_dir_store [OF assms(3,4) d]
  have nsep: "last name \<noteq> CHR ''/''" using assms(5,6) last_in_set by metis
  have dir: "dir = path_join base name" "dir \<noteq> []" "last dir \<noteq> CHR ''/''"
    using s1 assms(5) nsep by (auto simp: path_join_def)
  have cap: "length (at_retained st1) \<le> cap" using s1 assms(7) by auto
  show ?thesis
  proof (cases mode)
    case Text_Mode
    with assms(1,3,7) show ?thesis by (auto simp: handle_publish_def intro: exI [of _ "[]"])
  next
    case Raw
    obtain r st2 where w: "write_attachment dir (slug (mq_alnum e) topic @ ''.bin'') payload st1 = (r, st2)" by fastforce
    from write_store [OF conjunct1 [OF s1] w dir(2,3)] assms(1) Raw d w cap dir(1) show ?thesis
      by (cases r) (auto simp: handle_publish_def intro!: exI [of _ "[dir @ ''/'' @ slug (mq_alnum e) topic @ ''.bin'']"] intro: rev_image_eqI)
  next
    case Structured
    obtain parsed where p: "mq_json e payload = Some parsed"
      using assms(1) Structured by (auto simp: handle_publish_def split: option.splits)
    show ?thesis
    proof (cases "\<exists>a atts. Option.bind (json_get ''attachments'' parsed) as_arr = Some (a # atts)")
      case False
      then have "st' = st" "json_get ''attachments'' event = Some (JArr [])"
        using assms(1) Structured p by (auto simp: handle_publish_def Let_def split: option.splits list.splits)
      with assms(3,7) show ?thesis by (auto intro: exI [of _ "[]"])
    next
      case True
      then obtain a atts where a: "Option.bind (json_get ''attachments'' parsed) as_arr = Some (a # atts)" by blast
      obtain r st2 where w: "write_attachments e dir 0 (a # atts) st1 = (r, st2)" by fastforce
      from assms(1) Structured p a d w obtain paths where r: "r = Inr paths" "st' = st2"
        "json_get ''attachments'' event = Some (JArr (map JStr paths))"
        by (cases r) (auto simp: handle_publish_def Let_def)
      from writes_store [OF w conjunct1 [OF s1] dir(2,3)] r cap dir(1) show ?thesis
        by (intro conjI exI [of _ paths]) auto
    qed
  qed
qed

definition sample_mqtt :: mqtt_env where
  "sample_mqtt = \<lparr>mq_lossy = (\<lambda>s. s),
     mq_json = (\<lambda>s. Some (JObj [(''attachments'', JArr [JObj [(''name'', JStr ''../a b''), (''base64'', JStr ''x'')],
       JObj [(''name'', JStr ''_a_b''), (''base64'', JStr ''y'')]])])),
     mq_base64 = Some,
     mq_alnum = (\<lambda>c. c \<in> {''a'', ''b'', ''c''})\<rparr>"

definition empty_store :: attach_store where
  "empty_store = \<lparr>at_retained = [], at_dirs = [], at_files = []\<rparr>"

lemma sample_publish:
  "handle_publish sample_mqtt Structured ''/d'' ''01'' ''t'' [] False 2 empty_store =
     (Inr (JObj [(''topic'', JStr ''t''), (''data'', JNull), (''attachments'', JArr [JStr ''/d/01/_a_b'', JStr ''/d/01/_a_b'']),
        (''retain'', JBool False)]),
      \<lparr>at_retained = [''/d/01''], at_dirs = [''/d/01''], at_files = [(''/d/01/_a_b'', ''y'')]\<rparr>)"
  by code_simp

theorem attachments_contained_witness:
  "store_ok (snd (handle_publish sample_mqtt Structured ''/d'' ''01'' ''t'' [] False 2 empty_store))"
proof -
  have "alnum_table (mq_alnum sample_mqtt)" "store_ok empty_store" "path_join ''/d'' ''01'' \<notin> set (at_retained empty_store)"
    by (auto simp: alnum_table_def sample_mqtt_def store_ok_def empty_store_def)
  from attachments_contained [OF sample_publish this] show ?thesis
    unfolding sample_publish by (simp add: empty_store_def)
qed

text \<open>In the example both attachments get the same sanitized name: the event reports two paths, but the second file
  has overwritten the first. With \<open>--attach-retain 0\<close> the new directory is removed before the
  file is written.\<close>

theorem names_collide:
  "\<exists>event st. handle_publish sample_mqtt Structured ''/d'' ''01'' ''t'' [] False 2 empty_store = (Inr event, st) \<and>
     json_get ''attachments'' event = Some (JArr [JStr ''/d/01/_a_b'', JStr ''/d/01/_a_b'']) \<and> length (at_files st) = 1"
  unfolding sample_publish by simp

lemma retain_zero_fails:
  "fst (handle_publish sample_mqtt Raw ''/d'' ''01'' ''t'' ''x'' False 0 empty_store) = Inl ''No such file or directory''"
  by code_simp

text \<open>New mail is reported once and in order while nothing is expunged: over any wake-ups at which the mailbox only
  grew, the watcher has fetched exactly the messages beyond those it started with.\<close>

theorem new_mail_reported_once:
  assumes "sorted_wrt (\<lambda>m n. \<exists>new. n = m @ new) (mbox # mboxes)"
  shows "imap_session mboxes (length mbox) = drop (length mbox) (last (mbox # mboxes))"
  using assms
proof (induction mboxes arbitrary: mbox)
  case (Cons m mboxes)
  then obtain new where m: "m = mbox @ new" by auto
  have ih: "imap_session mboxes (length m) = drop (length m) (last (m # mboxes))" using Cons by simp
  have "\<exists>x. last (m # mboxes) = m @ x"
  proof (cases "mboxes = []")
    case False
    then have "last mboxes \<in> set mboxes" by simp
    with Cons.prems False show ?thesis by auto
  qed simp
  with ih m show ?case by (auto simp: imap_wake_def)
qed simp

theorem new_mail_reported_once_witness:
  "imap_session [[1, 2, 3], [1, 2, 3], [1, 2, 3, 4, 5 :: nat]] (length [1 :: nat]) = [2, 3, 4, 5]"
  using new_mail_reported_once [of "[1]" "[[1, 2, 3], [1, 2, 3], [1, 2, 3, 4, 5 :: nat]]"] by simp

text \<open>The count is all it looks at: a message that arrives while another is expunged is never reported.\<close>

lemma mail_lost_with_expunge: "imap_session [[2, 3], [2, 3, 4 :: nat]] (length [1, 2 :: nat]) = [4]"
  by (simp add: imap_wake_def)

end
