(* ===== verification/Mail_Bridge.thy ===== *)
theory Mail_Bridge
  imports Telegram Watchers
begin

text \<open>
  The email bridge (src/src/bridges/email.rs): mails become inbound messages, outbound messages
  mails. The MIME parser gives a tree of parts; the file system, the address parser and the mailer are
  parameters.
\<close>

section \<open>Parts of a mail\<close>

datatype disposition = Attachment_Part | Other_Disposition

record mail_leaf =
  ml_mimetype :: string
  ml_disposition :: disposition
  ml_filename :: "string option"
  ml_raw :: "string option" \<comment> \<open>\<open>get\_body\_raw\<close>; \<open>None\<close>: an error\<close>
  ml_text :: "string option" \<comment> \<open>\<open>get\_body\<close>\<close>

datatype mail_part = Leaf mail_leaf | Multipart mail_part "mail_part list" \<comment> \<open>at least one subpart\<close>

record mail_env =
  me_lower :: "string \<Rightarrow> string" \<comment> \<open>\<open>to\_lowercase\<close>\<close>
  me_write :: "string \<Rightarrow> bool" \<comment> \<open>whether a file can be written at a path\<close>
  me_strip_tags :: "string \<Rightarrow> string" \<comment> \<open>the regular expression \<open><[^>]+>\<close>, every match removed\<close>

record walk =
  wk_body :: string
  wk_attachments :: "string list"
  wk_idx :: nat
  wk_files :: "(string \<times> string) list" \<comment> \<open>written, the newest last\<close>

definition next_part :: "walk \<Rightarrow> walk" where
  "next_part w = w\<lparr>wk_idx := wk_idx w + 1\<rparr>"

definition walk_leaf :: "mail_env \<Rightarrow> string \<Rightarrow> nat \<Rightarrow> mail_leaf \<Rightarrow> walk \<Rightarrow> (string + unit) \<times> walk" where
  "walk_leaf e attach_dir uid l w =
     (let ct = me_lower e (ml_mimetype l) in
      if ml_disposition l = Attachment_Part then
        (let name = (case ml_filename l of Some n \<Rightarrow> n | None \<Rightarrow> ''part'' @ show_nat (wk_idx w));
             path = attach_dir @ ''/uid'' @ show_nat uid @ ''-'' @ name
         in (case ml_raw l of
               None \<Rightarrow> (Inl ''body'', w)
             | Some bytes \<Rightarrow>
                 if me_write e path
                 then (Inr (), next_part (w\<lparr>wk_attachments := wk_attachments w @ [path], wk_files := wk_files w @ [(path, bytes)]\<rparr>))
                 else (Inl ''write'', w)))
      else if starts_with ''text/plain'' ct \<and> wk_body w = [] then
        (case ml_text l of
           None \<Rightarrow> (Inl ''body'', w)
         | Some text \<Rightarrow> (Inr (), next_part (w\<lparr>wk_body := text\<rparr>)))
      else if starts_with ''text/html'' ct \<and> wk_body w = [] then
        (case ml_text l of
           None \<Rightarrow> (Inl ''body'', w)
         | Some html \<Rightarrow>
             (Inr (), next_part (w\<lparr>wk_body := me_strip_tags e (replace_sub ''</p>'' [nl, nl] (replace_sub ''<br>'' [nl] html))\<rparr>)))
      else (Inr (), next_part w))"

fun walk_parts :: "mail_env \<Rightarrow> string \<Rightarrow> nat \<Rightarrow> mail_part \<Rightarrow> walk \<Rightarrow> (string + unit) \<times> walk"
and walk_list :: "mail_env \<Rightarrow> string \<Rightarrow> nat \<Rightarrow> mail_part list \<Rightarrow> walk \<Rightarrow> (string + unit) \<times> walk" where
  "walk_parts e attach_dir uid (Leaf l) w = walk_leaf e attach_dir uid l w"
| "walk_parts e attach_dir uid (Multipart p ps) w =
     (case walk_parts e attach_dir uid p w of
        (Inl err, w) \<Rightarrow> (Inl err, w)
      | (Inr _, w) \<Rightarrow> walk_list e attach_dir uid ps w)"
| "walk_list e attach_dir uid [] w = (Inr (), w)"
| "walk_list e attach_dir uid (p # ps) w =
     (case walk_parts e attach_dir uid p w of
        (Inl err, w) \<Rightarrow> (Inl err, w)
      | (Inr _, w) \<Rightarrow> walk_list e attach_dir uid ps w)"

definition walk_new :: walk where
  "walk_new = \<lparr>wk_body = [], wk_attachments = [], wk_idx = 0, wk_files = []\<rparr>"

text \<open>The body and the attachments, and the files written, also after an error.\<close>

definition extract_parts :: "mail_env \<Rightarrow> string \<Rightarrow> nat \<Rightarrow> mail_part \<Rightarrow> (string + string \<times> string list) \<times> (string \<times> string) list" where
  "extract_parts e attach_dir uid mail =
     (case walk_parts e attach_dir uid mail walk_new of
        (Inl err, w) \<Rightarrow> (Inl err, wk_files w)
      | (Inr _, w) \<Rightarrow> (Inr (trim (wk_body w), wk_attachments w), wk_files w))"

section \<open>Inbound mail\<close>

fun find_char :: "char \<Rightarrow> string \<Rightarrow> nat option" where
  "find_char c [] = None"
| "find_char c (x # xs) = (if x = c then Some 0 else map_option Suc (find_char c xs))"

fun rfind_char :: "char \<Rightarrow> string \<Rightarrow> nat option" where
  "rfind_char c [] = None"
| "rfind_char c (x # xs) = (case rfind_char c xs of Some i \<Rightarrow> Some (Suc i) | None \<Rightarrow> if x = c then Some 0 else None)"

text \<open>The address in a \<open>From\<close> header.\<close>

definition sender_of :: "string \<Rightarrow> string" where
  "sender_of from =
     (case rfind_char (CHR ''<'') from of
        None \<Rightarrow> trim from
      | Some i \<Rightarrow>
          (case find_char (CHR ''>'') (drop (i + 1) from) of
             None \<Rightarrow> trim from
           | Some j \<Rightarrow> take j (drop (i + 1) from)))"

definition from_header :: "(string \<times> string) list \<Rightarrow> string" where
  "from_header headers =
     (case find (\<lambda>h. to_ascii_lowercase (fst h) = ''from'') headers of Some h \<Rightarrow> snd h | None \<Rightarrow> [])"

record mail =
  mail_fault :: "string option" \<comment> \<open>an error of the stream in its place\<close>
  mail_uid :: "nat option"
  mail_body :: "string option"

definition peer_allowed :: "string list \<Rightarrow> string \<Rightarrow> bool" where
  "peer_allowed peers sender \<longleftrightarrow> peers = [] \<or> (\<exists>p \<in> set peers. str_contains p sender)"

type_synonym mime = "string \<Rightarrow> ((string \<times> string) list \<times> mail_part) option"

text \<open>One fetched mail: an error ends the session, \<open>Inr None\<close> passes over it; and the files written.\<close>

definition fetched_mail ::
  "mail_env \<Rightarrow> mime \<Rightarrow> string list \<Rightarrow> string \<Rightarrow> mail \<Rightarrow> (string + inbound option) \<times> (string \<times> string) list" where
  "fetched_mail e mime peers attach_dir m =
     (case mail_fault m of
        Some err \<Rightarrow> (Inl err, [])
      | None \<Rightarrow>
     (case mail_body m of
        None \<Rightarrow> (Inr None, [])
      | Some raw \<Rightarrow>
     (case mime raw of
        None \<Rightarrow> (Inl ''parse MIME'', [])
      | Some (headers, part) \<Rightarrow>
          let sender = sender_of (from_header headers) in
          if \<not> peer_allowed peers sender then (Inr None, [])
          else (case extract_parts e attach_dir (case mail_uid m of Some u \<Rightarrow> u | None \<Rightarrow> 0) part of
              (Inl err, files) \<Rightarrow> (Inl err, files)
            | (Inr (body, attachments), files) \<Rightarrow>
                (Inr (Some \<lparr>in_chat_id = ''email:'' @ sender, in_text = body, in_attachments = attachments, in_message_ref = None\<rparr>), files)))))"

text \<open>The messages passed on, the files written, and the error that ended it.\<close>

type_synonym mail_result = "inbound list \<times> (string \<times> string) list \<times> string option"

definition mail_before :: "inbound list \<Rightarrow> (string \<times> string) list \<Rightarrow> mail_result \<Rightarrow> mail_result" where
  "mail_before msgs files r = (case r of (others, fs, err) \<Rightarrow> (msgs @ others, files @ fs, err))"

fun fetch_stream :: "mail_env \<Rightarrow> mime \<Rightarrow> string list \<Rightarrow> string \<Rightarrow> mail list \<Rightarrow> mail_result" where
  "fetch_stream e mime peers attach_dir [] = ([], [], None)"
| "fetch_stream e mime peers attach_dir (m # ms) =
     (case fetched_mail e mime peers attach_dir m of
        (Inl err, files) \<Rightarrow> ([], files, Some err)
      | (Inr new, files) \<Rightarrow> mail_before (case new of Some i \<Rightarrow> [i] | None \<Rightarrow> []) files (fetch_stream e mime peers attach_dir ms))"

text \<open>A session over the mailbox at each wake-up; an error of the stream ends it.\<close>

fun imap_loop :: "mail_env \<Rightarrow> mime \<Rightarrow> string list \<Rightarrow> string \<Rightarrow> mail list list \<Rightarrow> nat \<Rightarrow> mail_result" where
  "imap_loop e mime peers attach_dir [] last_seen = ([], [], None)"
| "imap_loop e mime peers attach_dir (mbox # mboxes) last_seen =
     (let (new, last_seen) = imap_wake mbox last_seen in
      (case fetch_stream e mime peers attach_dir new of
         (msgs, files, Some err) \<Rightarrow> (msgs, files, Some err)
       | (msgs, files, None) \<Rightarrow> mail_before msgs files (imap_loop e mime peers attach_dir mboxes last_seen)))"

text \<open>The reconnect loop: of each connection the mailbox it selects and those of its wake-ups.\<close>

fun mail_sessions :: "mail_env \<Rightarrow> mime \<Rightarrow> string list \<Rightarrow> string \<Rightarrow> (mail list \<times> mail list list) list \<Rightarrow> inbound list" where
  "mail_sessions e mime peers attach_dir [] = []"
| "mail_sessions e mime peers attach_dir ((selected, mboxes) # ss) =
     fst (imap_loop e mime peers attach_dir mboxes (length selected)) @ mail_sessions e mime peers attach_dir ss"

section \<open>Outbound mail\<close>

definition guess_content_type :: "string \<Rightarrow> string" where
  "guess_content_type path =
     (case extension path of
        None \<Rightarrow> ''application/octet-stream''
      | Some x \<Rightarrow>
          if x = ''jpg'' \<or> x = ''jpeg'' then ''image/jpeg''
          else if x = ''png'' then ''image/png''
          else if x = ''gif'' then ''image/gif''
          else if x = ''pdf'' then ''application/pdf''
          else if x = ''txt'' then ''text/plain''
          else ''application/octet-stream'')"

record outgoing =
  og_from :: string
  og_to :: string
  og_subject :: string
  og_text :: string
  og_files :: "(string \<times> string \<times> string) list" \<comment> \<open>name, content type, bytes\<close>

fun mail_files :: "(string \<Rightarrow> string option) \<Rightarrow> string list \<Rightarrow> string + (string \<times> string \<times> string) list" where
  "mail_files read [] = Inr []"
| "mail_files read (path # paths) =
     (case read path of
        None \<Rightarrow> Inl (''reading '' @ path)
      | Some bytes \<Rightarrow>
          (case mail_files read paths of
             Inl err \<Rightarrow> Inl err
           | Inr others \<Rightarrow> Inr (((case file_name path of Some n \<Rightarrow> n | None \<Rightarrow> ''file''), guess_content_type path, bytes) # others)))"

text \<open>\<open>addr\<close> tells which addresses parse.\<close>

definition email_outbound :: "(string \<Rightarrow> bool) \<Rightarrow> (string \<Rightarrow> string option) \<Rightarrow> string \<Rightarrow> outbound \<Rightarrow> string + outgoing" where
  "email_outbound addr read user out =
     (case strip_prefix ''email:'' (out_chat_id out) of
        None \<Rightarrow> Inl (''bad email chat_id: '' @ out_chat_id out)
      | Some to_addr \<Rightarrow>
          if \<not> addr user then Inl ''parse from address''
          else if \<not> addr to_addr then Inl (''parse to address: '' @ to_addr)
          else (case mail_files read (out_attachments out) of
              Inl err \<Rightarrow> Inl err
            | Inr files \<Rightarrow> Inr \<lparr>og_from = user, og_to = to_addr, og_subject = ''Message from Claude'', og_text = out_content out, og_files = files\<rparr>))"

section \<open>Lemmas\<close>

fun leaves :: "mail_part \<Rightarrow> mail_leaf list" where
  "leaves (Leaf l) = [l]"
| "leaves (Multipart p ps) = leaves p @ concat (map leaves ps)"

fun walk_leaves :: "mail_env \<Rightarrow> string \<Rightarrow> nat \<Rightarrow> mail_leaf list \<Rightarrow> walk \<Rightarrow> (string + unit) \<times> walk" where
  "walk_leaves e attach_dir uid [] w = (Inr (), w)"
| "walk_leaves e attach_dir uid (l # ls) w =
     (case walk_leaf e attach_dir uid l w of
        (Inl err, w) \<Rightarrow> (Inl err, w)
      | (Inr _, w) \<Rightarrow> walk_leaves e attach_dir uid ls w)"

lemma walk_leaves_append:
  "walk_leaves e d u (ls @ ks) w = (case walk_leaves e d u ls w of (Inl err, w) \<Rightarrow> (Inl err, w) | (Inr _, w) \<Rightarrow> walk_leaves e d u ks w)"
  by (induction ls arbitrary: w) (auto split: prod.split sum.split)

text \<open>The recursion over the tree is a loop over its leaves.\<close>

lemma walk_parts_leaves:
  "walk_parts e d u p w = walk_leaves e d u (leaves p) w"
  "walk_list e d u ps w = walk_leaves e d u (concat (map leaves ps)) w"
  by (induction e d u p w and e d u ps w rule: walk_parts_walk_list.induct)
     (auto simp: walk_leaves_append split: prod.split sum.split)

text \<open>What a leaf contributes.\<close>

definition is_attachment :: "mail_leaf \<Rightarrow> bool" where
  "is_attachment l \<longleftrightarrow> ml_disposition l = Attachment_Part"

definition attached :: "mail_leaf list \<Rightarrow> string list" where
  "attached ls = List.map_filter ml_raw (filter is_attachment ls)"

definition text_of :: "mail_env \<Rightarrow> mail_leaf \<Rightarrow> string option" where
  "text_of e l =
     (if is_attachment l then None
      else if starts_with ''text/plain'' (me_lower e (ml_mimetype l)) then ml_text l
      else if starts_with ''text/html'' (me_lower e (ml_mimetype l))
        then map_option (\<lambda>h. me_strip_tags e (replace_sub ''</p>'' [nl, nl] (replace_sub ''<br>'' [nl] h))) (ml_text l)
      else None)"

definition first_text :: "string list \<Rightarrow> string" where
  "first_text ts = (case find (\<lambda>t. t \<noteq> []) ts of Some t \<Rightarrow> t | None \<Rightarrow> [])"

lemma walk_leaf_ok:
  assumes "walk_leaf e d u l w = (Inr v, w')"
  shows "wk_body w' = (if wk_body w = [] then (case text_of e l of Some t \<Rightarrow> t | None \<Rightarrow> []) else wk_body w)
     \<and> map snd (wk_files w') = map snd (wk_files w) @ attached [l] \<and> wk_idx w' = Suc (wk_idx w)
     \<and> (map fst (wk_files w) = wk_attachments w \<longrightarrow> map fst (wk_files w') = wk_attachments w')
     \<and> (\<exists>names. wk_attachments w' = wk_attachments w @ map (\<lambda>n. d @ ''/uid'' @ show_nat u @ ''-'' @ n) names)"
  using assms
  by (auto simp: walk_leaf_def text_of_def attached_def is_attachment_def next_part_def map_filter_simps Let_def
        split: if_splits option.splits intro: exI [of _ "[]"] exI [of _ "[x]" for x])

lemma first_text_Cons: "first_text (t # ts) = (if t = [] then first_text ts else t)"
  by (simp add: first_text_def)

lemma attached_Cons: "attached (l # ls) = attached [l] @ attached ls"
  by (simp add: attached_def map_filter_simps split: option.split)

lemma walk_leaves_ok:
  assumes "walk_leaves e d u ls w = (Inr v, w')"
  shows "wk_body w' = (if wk_body w = [] then first_text (List.map_filter (text_of e) ls) else wk_body w)
     \<and> map snd (wk_files w') = map snd (wk_files w) @ attached ls
     \<and> (map fst (wk_files w) = wk_attachments w \<longrightarrow> map fst (wk_files w') = wk_attachments w')
     \<and> (\<exists>names. wk_attachments w' = wk_attachments w @ map (\<lambda>n. d @ ''/uid'' @ show_nat u @ ''-'' @ n) names)"
  using assms
proof (induction ls arbitrary: w)
  case (Cons l ls)
  then obtain v1 w1 where one: "walk_leaf e d u l w = (Inr v1, w1)" "walk_leaves e d u ls w1 = (Inr v, w')"
    by (auto split: prod.splits sum.splits)
  note a = walk_leaf_ok [OF one(1)] and b = Cons.IH [OF one(2)]
  have "wk_body w' = (if wk_body w = [] then first_text (List.map_filter (text_of e) (l # ls)) else wk_body w)"
    using a b by (auto simp: first_text_Cons map_filter_simps split: option.split)
  moreover have "map snd (wk_files w') = map snd (wk_files w) @ attached (l # ls)" using a b attached_Cons [of l ls] by simp
  moreover obtain ns ms where "wk_attachments w1 = wk_attachments w @ map (\<lambda>n. d @ ''/uid'' @ show_nat u @ ''-'' @ n) ns"
    "wk_attachments w' = wk_attachments w1 @ map (\<lambda>n. d @ ''/uid'' @ show_nat u @ ''-'' @ n) ms" using a b by blast
  then have "\<exists>names. wk_attachments w' = wk_attachments w @ map (\<lambda>n. d @ ''/uid'' @ show_nat u @ ''-'' @ n) names"
    by (intro exI [of _ "ns @ ms"]) simp
  ultimately show ?case using a b by blast
qed (auto simp: first_text_def attached_def map_filter_simps)

section \<open>The contract\<close>

definition email_handle :: "(string \<Rightarrow> bool) \<Rightarrow> (string \<Rightarrow> string option) \<Rightarrow> string \<Rightarrow> outbound \<Rightarrow> outgoing list" where
  "email_handle addr read user out = (case email_outbound addr read user out of Inr m \<Rightarrow> [m] | Inl _ \<Rightarrow> [])"

interpretation email_bridge: chat_bridge "''email:''" "email_handle addr read user" "\<lambda>m c. og_to m = c" for addr read user
  by unfold_locales (auto simp: email_handle_def email_outbound_def split: sum.splits if_splits)

section \<open>Properties\<close>

text \<open>What is taken from a mail, however its parts nest: the text is the first one that is not empty,
  trimmed, of the parts that are no attachments, in the order of the mail; the attachments are one file for
  each part that is one, with its content, in order, and what is reported are the paths of these files,
  all with the prefix of the mail's number in the directory.\<close>

theorem mail_extracted:
  assumes "extract_parts e attach_dir uid mail = (Inr (body, attachments), files)"
  shows "body = trim (first_text (List.map_filter (text_of e) (leaves mail)))
     \<and> map snd files = attached (leaves mail) \<and> map fst files = attachments
     \<and> (\<exists>names. attachments = map (\<lambda>n. attach_dir @ ''/uid'' @ show_nat uid @ ''-'' @ n) names)"
proof -
  obtain w where w: "walk_leaves e attach_dir uid (leaves mail) walk_new = (Inr (), w)"
    "body = trim (wk_body w)" "attachments = wk_attachments w" "files = wk_files w"
    using assms by (auto simp: extract_parts_def walk_parts_leaves split: prod.splits sum.splits)
  from walk_leaves_ok [OF w(1)] w(2,3,4) show ?thesis by (simp add: walk_new_def)
qed

definition sample_mail_env :: mail_env where
  "sample_mail_env = \<lparr>me_lower = id, me_write = (\<lambda>p. True), me_strip_tags = id\<rparr>"

definition sample_leaf :: "string \<Rightarrow> string option \<Rightarrow> mail_leaf" where
  "sample_leaf text name = \<lparr>ml_mimetype = ''text/plain'', ml_disposition = (if name = None then Other_Disposition else Attachment_Part),
     ml_filename = name, ml_raw = Some text, ml_text = Some text\<rparr>"

definition sample_mail :: mail_part where
  "sample_mail = Multipart (Multipart (Leaf (sample_leaf [] None)) [Leaf (sample_leaf ''hi'' None)])
     [Leaf (sample_leaf ''one'' (Some ''a'')), Leaf (sample_leaf ''two'' (Some ''a''))]"

lemma sample_extract:
  "extract_parts sample_mail_env ''/d'' 7 sample_mail =
     (Inr (trim ''hi'', [''/d/uid7-a'', ''/d/uid7-a'']), [(''/d/uid7-a'', ''one''), (''/d/uid7-a'', ''two'')])"
  by code_simp

theorem mail_extracted_witness:
  "trim ''hi'' = trim (first_text (List.map_filter (text_of sample_mail_env) (leaves sample_mail))) \<and>
   attached (leaves sample_mail) = [''one'', ''two'']"
  using mail_extracted [OF sample_extract] by simp

text \<open>In the example two attachments of one name are written to one file.\<close>

lemma mail_attachments_collide:
  "snd (extract_parts sample_mail_env ''/d'' 7 sample_mail) = [(''/d/uid7-a'', ''one''), (''/d/uid7-a'', ''two'')]"
  by (simp add: sample_extract)

text \<open>The list of peers is searched for parts of the sender's address.\<close>

lemma peer_substring: "peer_allowed [''bob@x.org''] (sender_of ''Bob <notbob@x.org.evil.com>'')"
  by (simp add: peer_allowed_def sender_of_def str_contains_def starts_with_def)

text \<open>A mail that fails takes the later ones of its fetch with it: the next connection starts after them.\<close>

lemma failing_mail_loses_rest:
  assumes "fetched_mail e mime peers d bad = (Inl err, files)"
  shows "mail_sessions e mime peers d [([], [bad # ms]), (bad # ms, [])] = []"
  using assms by (simp add: imap_wake_def)

text \<open>When no mail fails and nothing is expunged, every mail after those at the start is handled once.\<close>

definition mail_message :: "mail_env \<Rightarrow> mime \<Rightarrow> string list \<Rightarrow> string \<Rightarrow> mail \<Rightarrow> inbound option" where
  "mail_message e mime peers d m = (case fst (fetched_mail e mime peers d m) of Inr i \<Rightarrow> i | Inl _ \<Rightarrow> None)"

lemma fetch_stream_ok:
  assumes "\<forall>m \<in> set ms. \<not> isl (fst (fetched_mail e mime peers d m))"
  shows "\<exists>files. fetch_stream e mime peers d ms = (List.map_filter (mail_message e mime peers d) ms, files, None)"
  using assms
proof (induction ms)
  case (Cons m ms)
  obtain new files where "fetched_mail e mime peers d m = (Inr new, files)"
    using Cons.prems by (cases "fetched_mail e mime peers d m"; cases "fst (fetched_mail e mime peers d m)") auto
  with Cons show ?case by (auto simp: mail_before_def mail_message_def map_filter_simps split: option.split)
qed (simp add: map_filter_simps)

end
