(* ===== verification/Local_Clients.thy ===== *)
theory Local_Clients
  imports Bridge_Relay
begin

text \<open>
  The clients on the daemon's host: the chat in the daemon's own terminal (src/src/main.rs), the
  same chat over HTTP (src/src/bridges/stdio.rs), and the proxy of the web chat (src/src/chat.rs).
\<close>

section \<open>The chat in a terminal\<close>

datatype term_out = Prompt | Claude string "string list" \<comment> \<open>a text and its attachments\<close>

definition local_chat_id :: string where
  "local_chat_id = ''local''"

datatype received = Got broadcast_msg | Lagged | Closed_Channel

fun local_chat :: "received list \<Rightarrow> term_out list" where
  "local_chat [] = []"
| "local_chat (Got (BMessage chat content attachments i created_at react_to) # rs) =
     (if chat = local_chat_id then [Claude content []] else []) @ local_chat rs"
| "local_chat (Got (BStatus status) # rs) = (if status = ''idle'' then [Prompt] else []) @ local_chat rs"
| "local_chat (Lagged # rs) = local_chat rs"
| "local_chat (Closed_Channel # rs) = []"

text \<open>The other direction, line by line; \<open>open n\<close> tells whether the \<open>n\<close>th event is accepted. The result: the
  events, the prompts printed, and the shutdown at the end of the input.\<close>

record local_stdin =
  ls_events :: "harness_event list"
  ls_prompts :: nat
  ls_shutdown :: bool

fun local_chat_lines :: "(nat \<Rightarrow> bool) \<Rightarrow> string option list \<Rightarrow> local_stdin \<Rightarrow> local_stdin" where
  "local_chat_lines is_open [] s = s"
| "local_chat_lines is_open (None # ins) s = s\<lparr>ls_shutdown := True\<rparr>"
| "local_chat_lines is_open (Some l # ins) s =
     (if trim l = [] then local_chat_lines is_open ins (s\<lparr>ls_prompts := ls_prompts s + 1\<rparr>)
      else if is_open (length (ls_events s))
        then local_chat_lines is_open ins (s\<lparr>ls_events := ls_events s @ [HEUserMessage local_chat_id ''local'' (trim l) [] None]\<rparr>)
      else s\<lparr>ls_shutdown := True\<rparr>)"

section \<open>The stdio bridge\<close>

definition stdio_post :: "string \<Rightarrow> json option" where
  "stdio_post l =
     (if trim l = [] then None
      else Some (JObj [(''chat_id'', JStr local_chat_id), (''user'', JStr ''local''), (''content'', JStr (trim l))]))"

definition stdio_block :: "relay_env \<Rightarrow> string \<Rightarrow> term_out list" where
  "stdio_block e block =
     (case sse_fields block of
        (event, data) \<Rightarrow>
          (case re_parse e data of
             None \<Rightarrow> []
           | Some v \<Rightarrow>
               if event = ''message'' then
                 (case as_str (json_at ''content'' v) of
                    Some content \<Rightarrow>
                      [Claude content (case as_arr (json_at ''attachments'' v) of Some xs \<Rightarrow> List.map_filter as_str xs | None \<Rightarrow> [])]
                  | None \<Rightarrow> [])
               else if event = ''status'' \<and> as_str (json_at ''status'' v) = Some ''idle'' then [Prompt]
               else []))"

text \<open>The chunks of the stream, an error among them ends it.\<close>

fun stdio_stream :: "relay_env \<Rightarrow> string \<Rightarrow> (string + string) list \<Rightarrow> term_out list \<times> (string + unit)" where
  "stdio_stream e buf [] = ([], Inr ())"
| "stdio_stream e buf (Inl err # chunks) = ([], Inl err)"
| "stdio_stream e buf (Inr bytes # chunks) =
     (let (blocks, rest) = sse_blocks (buf @ re_lossy e bytes);
          (outs, r) = stdio_stream e rest chunks
      in (concat (map (stdio_block e) blocks) @ outs, r))"

section \<open>The proxy of the web chat\<close>

definition is_hop_by_hop :: "string \<Rightarrow> bool" where
  "is_hop_by_hop name \<longleftrightarrow>
     to_ascii_lowercase name \<in> set [''connection'', ''keep-alive'', ''proxy-authenticate'', ''proxy-authorization'', ''te'',
       ''trailers'', ''transfer-encoding'', ''upgrade'', ''host'', ''content-length'']"

record proxy_request =
  px_method :: string
  px_path :: string \<comment> \<open>decoded, as the router extracts it\<close>
  px_query :: "string option"
  px_headers :: "(string \<times> string) list" \<comment> \<open>names in lower case, one entry for each value\<close>
  px_body :: string

record backend_request =
  bk_method :: string
  bk_url :: string
  bk_headers :: "(string \<times> string) list"
  bk_body :: "string option"

record proxy_response =
  rs_status :: nat
  rs_headers :: "(string \<times> string) list"
  rs_body :: string

definition max_proxy_body :: nat where
  "max_proxy_body = 10 * 1024 * 1024"

definition proxy_url :: "string \<Rightarrow> proxy_request \<Rightarrow> string" where
  "proxy_url backend req =
     backend @ ''/'' @ px_path req @ (case px_query req of Some q \<Rightarrow> ''?'' @ q | None \<Rightarrow> [])"

definition proxy_forward :: "string \<Rightarrow> (string \<Rightarrow> bool) \<Rightarrow> proxy_request \<Rightarrow> (nat \<times> string) + backend_request" where
  "proxy_forward backend method_ok req =
     (if \<not> method_ok (px_method req) then Inl (400, ''bad method'')
      else if length (px_body req) > max_proxy_body then Inl (413, ''body too large'')
      else Inr \<lparr>bk_method = px_method req, bk_url = proxy_url backend req,
             bk_headers = filter (\<lambda>h. \<not> is_hop_by_hop (fst h)) (px_headers req),
             bk_body = (if px_body req = [] then None else Some (px_body req))\<rparr>)"

text \<open>\<open>HeaderMap::insert\<close> replaces what was there under the name.\<close>

definition insert_header :: "string \<times> string \<Rightarrow> (string \<times> string) list \<Rightarrow> (string \<times> string) list" where
  "insert_header h hs = (if fst h \<in> fst ` set hs then map (\<lambda>x. if fst x = fst h then h else x) hs else hs @ [h])"

definition proxy_answer :: "proxy_response \<Rightarrow> proxy_response" where
  "proxy_answer up =
     up\<lparr>rs_headers := fold (\<lambda>h hs. if is_hop_by_hop (fst h) then hs else insert_header h hs) (rs_headers up) []\<rparr>"

definition proxy_handler ::
  "string \<Rightarrow> (string \<Rightarrow> bool) \<Rightarrow> (backend_request \<Rightarrow> string + proxy_response) \<Rightarrow> proxy_request \<Rightarrow> proxy_response" where
  "proxy_handler backend method_ok send req =
     (case proxy_forward backend method_ok req of
        Inl (status, text) \<Rightarrow> \<lparr>rs_status = status, rs_headers = [], rs_body = text\<rparr>
      | Inr breq \<Rightarrow>
          (case send breq of
             Inl err \<Rightarrow> \<lparr>rs_status = 502, rs_headers = [], rs_body = ''proxy: '' @ err\<rparr>
           | Inr up \<Rightarrow> proxy_answer up))"

section \<open>Lemmas\<close>

definition without_attachments :: "term_out \<Rightarrow> term_out" where
  "without_attachments t = (case t of Claude content _ \<Rightarrow> Claude content [] | Prompt \<Rightarrow> Prompt)"

lemma stdio_stream_blocks:
  assumes "\<forall>c \<in> set chunks. re_lossy e c = c" "sse_blocks buf = ([], buf)"
  shows "fst (stdio_stream e buf (map Inr chunks)) = concat (map (stdio_block e) (fst (sse_blocks (buf @ concat chunks))))"
  using assms
proof (induction chunks arbitrary: buf)
  case (Cons c chunks)
  have "sse_blocks (snd (sse_blocks (buf @ c))) = ([], snd (sse_blocks (buf @ c)))" by (rule sse_blocks_rest)
  from Cons.IH [OF _ this] Cons.prems show ?case
    using sse_blocks_append [of "buf @ c" "concat chunks"] by (simp add: case_prod_beta)
qed simp

lemma stdio_frame:
  assumes "handle_sse ''local'' m = Some ev" "printed_object e pr (snd ev)"
  shows "map without_attachments (stdio_block e (sse_text pr ev)) = local_chat [Got m]"
proof -
  have p: "re_parse e (pr (snd ev)) = Some (snd ev)" using assms(2) by (simp add: printed_object_def)
  have "sse_fields (sse_text pr ev) = (fst ev, pr (snd ev))"
    by (rule sse_fields_frame [OF assms(2) handle_sse_name [OF assms(1)]])
  then show ?thesis
    using assms(1) p by (cases m)
      (auto simp: stdio_block_def json_at_def without_attachments_def local_chat_id_def sse_passes_def
         strip_suffix_char_def ends_with_char_def split: if_splits)
qed

lemma local_chat_Cons: "local_chat (Got m # rs) = local_chat [Got m] @ local_chat rs"
  by (cases m) simp_all

lemma local_chat_passed: "handle_sse ''local'' m = None \<Longrightarrow> local_chat [Got m] = []"
  by (cases m) (auto simp: local_chat_id_def sse_passes_def strip_suffix_char_def ends_with_char_def split: if_splits)

lemma map_of_insert_header: "map_of (insert_header (j, v) hs) k = (if k = j then Some v else map_of hs k)"
proof -
  have "map_of (map (\<lambda>x. if fst x = j then (j, v) else x) hs) k = (if k = j \<and> j \<in> fst ` set hs then Some v else map_of hs k)"
    by (induction hs) (auto simp: rev_image_eqI)
  moreover have "map_of (hs @ [(j, v)]) k = (if k = j then Some v else map_of hs k)" if "j \<notin> fst ` set hs"
    using that map_of_eq_None_iff [of hs j] by (simp add: map_add_def split: option.split)
  ultimately show ?thesis by (cases "j \<in> fst ` set hs"; cases "k = j") (simp_all add: insert_header_def)
qed

lemma header_fold:
  "map_of (fold (\<lambda>h hs. if is_hop_by_hop (fst h) then hs else insert_header h hs) hs acc) k =
     (if is_hop_by_hop k then map_of acc k
      else (case map_of (rev hs) k of Some v \<Rightarrow> Some v | None \<Rightarrow> map_of acc k))"
proof (induction hs arbitrary: acc)
  case (Cons h hs)
  obtain j v where h: "h = (j, v)" by (cases h)
  show ?case
  proof (cases "is_hop_by_hop j")
    case True
    then show ?thesis using Cons [of acc] h by (auto simp: map_add_def split: option.split)
  next
    case False
    then show ?thesis using Cons [of "insert_header h acc"] h map_of_insert_header [of j v acc k] by (auto simp: map_add_def split: option.split)
  qed
qed simp

section \<open>Properties\<close>

text \<open>The two terminals agree: for any broadcasts of the daemon, what the stdio bridge prints from the stream of the local chat,
  however it is cut into chunks that decode without loss, is what the daemon's own chat prints, text by
  text and prompt by prompt, but for the attachments, which only the bridge shows.\<close>

theorem terminals_agree:
  assumes "\<forall>c \<in> set chunks. re_lossy e c = c"
    "concat chunks = concat (map (sse_text pr) (List.map_filter (handle_sse ''local'') ms))"
    "\<forall>ev \<in> set (List.map_filter (handle_sse ''local'') ms). printed_object e pr (snd ev)"
  shows "map without_attachments (fst (stdio_stream e [] (map Inr chunks))) = local_chat (map Got ms)"
proof -
  have "map without_attachments (concat (map (stdio_block e) (map (sse_text pr) (List.map_filter (handle_sse ''local'') ms)))) = local_chat (map Got ms)"
    using assms(3)
  proof (induction ms)
    case (Cons m ms)
    show ?case
    proof (cases "handle_sse ''local'' m")
      case None
      with Cons local_chat_passed [OF None] local_chat_Cons [of m "map Got ms"] show ?thesis by (simp add: map_filter_simps)
    next
      case (Some ev)
      with Cons stdio_frame [OF Some] local_chat_Cons [of m "map Got ms"] show ?thesis by (simp add: map_filter_simps)
    qed
  qed (simp add: map_filter_simps)
  then show ?thesis
    using stdio_stream_blocks [OF assms(1) sse_blocks_Nil] broadcast_frames [OF assms(3)] assms(2) by simp
qed

definition local_broadcasts :: "broadcast_msg list" where
  "local_broadcasts = [BMessage ''local'' ''hi'' [''/a''] 3 ''t'' None, BStatus ''idle'', BMessage ''sl:1'' ''no'' [] 4 ''t'' None]"

definition local_message :: json where
  "local_message = snd (the (handle_sse ''local'' (hd local_broadcasts)))"

definition local_print :: "json \<Rightarrow> string" where
  "local_print j = (if j = local_message then ''{m}'' else ''{s}'')"

definition local_decoder :: relay_env where
  "local_decoder = \<lparr>re_lossy = (\<lambda>s. s),
     re_parse = (\<lambda>s. Some (if s = ''{m}'' then local_message else JObj [(''status'', JStr ''idle'')]))\<rparr>"

theorem terminals_agree_witness:
  "map without_attachments (fst (stdio_stream local_decoder []
     (map Inr (map (\<lambda>c. [c]) (concat (map (sse_text local_print) (List.map_filter (handle_sse ''local'') local_broadcasts)))))))
   = [Claude ''hi'' [], Prompt]"
proof -
  have evs: "List.map_filter (handle_sse ''local'') local_broadcasts = [(''message'', local_message), (''status'', JObj [(''status'', JStr ''idle'')])]"
    by code_simp
  have "local_chat (map Got local_broadcasts) = [Claude ''hi'' [], Prompt]" by code_simp
  moreover have "printed_object local_decoder local_print local_message"
    "printed_object local_decoder local_print (JObj [(''status'', JStr ''idle'')])"
    by (auto simp: printed_object_def local_decoder_def local_print_def local_message_def local_broadcasts_def
        sse_passes_def strip_suffix_char_def ends_with_char_def)
  ultimately show ?thesis
    by (subst terminals_agree) (auto simp: evs local_decoder_def)
qed

text \<open>What the web chat's proxy changes: with an answer of the daemon, the status and body come back as they are; of the headers the
  hop-by-hop ones are gone and every other name has the last of its values; the daemon got the method, the
  body and all other headers of the request unchanged.\<close>

theorem proxy_transparent:
  assumes "method_ok (px_method req)" "length (px_body req) \<le> max_proxy_body" "\<And>b. send b = Inr (up b)"
  shows "\<exists>b. proxy_forward backend method_ok req = Inr b \<and> proxy_handler backend method_ok send req = proxy_answer (up b) \<and>
     bk_method b = px_method req \<and> bk_headers b = filter (\<lambda>h. \<not> is_hop_by_hop (fst h)) (px_headers req) \<and>
     (case bk_body b of Some x \<Rightarrow> x | None \<Rightarrow> []) = px_body req \<and>
     rs_status (proxy_answer (up b)) = rs_status (up b) \<and> rs_body (proxy_answer (up b)) = rs_body (up b) \<and>
     (\<forall>k. map_of (rs_headers (proxy_answer (up b))) k = (if is_hop_by_hop k then None else map_of (rev (rs_headers (up b))) k))"
  using assms by (simp add: proxy_forward_def proxy_handler_def proxy_answer_def header_fold split: option.split)

definition sample_proxied :: proxy_request where
  "sample_proxied = \<lparr>px_method = ''GET'', px_path = ''status'', px_query = None, px_headers = [(''host'', ''h''), (''accept'', ''x'')], px_body = []\<rparr>"

definition sample_upstream :: proxy_response where
  "sample_upstream = \<lparr>rs_status = 200, rs_headers = [(''set-cookie'', ''a''), (''connection'', ''close''), (''set-cookie'', ''b'')], rs_body = ''ok''\<rparr>"

theorem proxy_transparent_witness:
  "rs_status (proxy_handler ''http://b'' (\<lambda>m. True) (\<lambda>b. Inr sample_upstream) sample_proxied) = 200 \<and>
   map_of (rs_headers (proxy_handler ''http://b'' (\<lambda>m. True) (\<lambda>b. Inr sample_upstream) sample_proxied)) ''connection'' = None"
proof -
  have "length (px_body sample_proxied) \<le> max_proxy_body" "is_hop_by_hop ''connection''"
    by (simp_all add: sample_proxied_def is_hop_by_hop_def to_ascii_lowercase_def lower_byte_def)
  with proxy_transparent [of "\<lambda>m. True" sample_proxied "\<lambda>b. Inr sample_upstream" "\<lambda>b. sample_upstream" "''http://b''"]
  show ?thesis by (auto simp: sample_upstream_def)
qed

text \<open>Of several values of one name only the last comes back.\<close>

lemma proxy_drops_values: "rs_headers (proxy_answer sample_upstream) = [(''set-cookie'', ''b'')]"
  by (simp add: proxy_answer_def sample_upstream_def is_hop_by_hop_def insert_header_def to_ascii_lowercase_def lower_byte_def)

text \<open>A decoded \<open>?\<close> in the path becomes the start of the query.\<close>

lemma proxy_path_becomes_query:
  "proxy_url backend (req\<lparr>px_path := a @ ''?'' @ b, px_query := None\<rparr>) = proxy_url backend (req\<lparr>px_path := a, px_query := Some b\<rparr>)"
  by (simp add: proxy_url_def)

text \<open>The end of the terminal's input shuts the daemon down, after every line before it was handed on.\<close>

lemma local_chat_eof:
  assumes "\<And>n. is_open n"
  shows "local_chat_lines is_open (map Some ls @ [None]) s =
     s\<lparr>ls_events := ls_events s @ map (\<lambda>l. HEUserMessage local_chat_id ''local'' (trim l) [] None) (filter (\<lambda>l. trim l \<noteq> []) ls),
       ls_prompts := ls_prompts s + length (filter (\<lambda>l. trim l = []) ls), ls_shutdown := True\<rparr>"
  using assms by (induction ls arbitrary: s) simp_all

end
