(* ===== verification/Tls.thy ===== *)
theory Tls
  imports Api_Client
begin

text \<open>
  HTTPS for the web chat (src/src/tls.rs): which material is served, how a certificate is
  obtained from an ACME server, and when it is renewed. The ACME server, the DNS hook and the
  certificate parser are inputs; a step gives its result and what it did outside. \<open>None\<close> is a
  panic of an \<open>expect\<close>. Times are seconds.
\<close>

section \<open>Arguments\<close>

datatype acme_method = Http01 | Dns01

record tls_args =
  tl_cert :: "string option"
  tl_key :: "string option"
  tl_domains :: "string list"
  tl_email :: "string option"
  tl_method :: acme_method
  tl_staging :: bool
  tl_dns_hook :: "string option"

definition is_enabled :: "tls_args \<Rightarrow> bool" where
  "is_enabled a \<longleftrightarrow> tl_cert a \<noteq> None \<or> tl_domains a \<noteq> []"

definition validate :: "tls_args \<Rightarrow> string + unit" where
  "validate a =
     (if tl_cert a \<noteq> None \<and> tl_domains a \<noteq> [] then Inl ''--tls-cert and --acme-domain are mutually exclusive''
      else if tl_cert a \<noteq> None \<and> tl_key a = None then Inl ''--tls-key is required with --tls-cert''
      else if tl_domains a \<noteq> [] \<and> tl_email a = None then Inl ''--acme-email is required when --acme-domain is set''
      else if tl_method a = Dns01 \<and> tl_domains a \<noteq> [] \<and> tl_dns_hook a = None
        then Inl ''--acme-dns-hook is required when --acme-method=dns-01''
      else Inr ())"

section \<open>The world of one issue\<close>

record cert_material =
  cm_cert :: string
  cm_key :: string
  cm_not_after :: int

record account =
  ac_directory :: string
  ac_json :: string

datatype authorization_status = AuthPending | AuthValid | AuthOther string

record challenge =
  ch_token :: string
  ch_key_authorization :: string
  ch_dns_value :: string
  ch_ready :: "string option" \<comment> \<open>the error of \<open>set_ready\<close>\<close>

record authorization =
  az_status :: authorization_status
  az_domain :: string
  az_challenge :: "acme_method \<Rightarrow> challenge option"

record acme_env =
  ae_bind :: "string option" \<comment> \<open>the error of the responder's socket\<close>
  ae_directory :: "bool \<Rightarrow> string" \<comment> \<open>of the staging and of the production environment\<close>
  ae_restore :: "string \<Rightarrow> string + account"
  ae_create :: "string \<Rightarrow> string \<Rightarrow> string + account" \<comment> \<open>contact, directory\<close>
  ae_order :: "account \<Rightarrow> string list \<Rightarrow> string + (string + authorization) list"
  ae_poll_ready :: "string + bool"
  ae_finalize :: "string + string"
  ae_certificate :: "string + string"
  ae_hook :: "nat \<Rightarrow> bool" \<comment> \<open>whether the hook's call of that number succeeds\<close>
  ae_write :: "string \<Rightarrow> bool"
  ae_not_after :: "string \<Rightarrow> string + int"

record acme_cache =
  ca_cert :: "string option"
  ca_key :: "string option"
  ca_account :: "string option"

record acme_world =
  aw_hook_calls :: "(string \<times> string \<times> string \<times> bool) list" \<comment> \<open>action, name, value, success\<close>
  aw_cleanups :: "(string \<times> string) list"
  aw_tokens :: "(string, string) hmap"
  aw_cache :: acme_cache

text \<open>Nothing follows an error.\<close>

definition and_then ::
  "(('e + 'a) \<times> acme_world) option \<Rightarrow> ('a \<Rightarrow> acme_world \<Rightarrow> (('e + 'b) \<times> acme_world) option) \<Rightarrow> (('e + 'b) \<times> acme_world) option" where
  "and_then x f = (case x of None \<Rightarrow> None | Some (Inl e, w) \<Rightarrow> Some (Inl e, w) | Some (Inr a, w) \<Rightarrow> f a w)"

section \<open>Issuing\<close>

definition strip_wildcard :: "string \<Rightarrow> string" where
  "strip_wildcard s = (case strip_prefix ''*.'' s of Some r \<Rightarrow> r | None \<Rightarrow> s)"

definition run_dns_hook :: "acme_env \<Rightarrow> string \<Rightarrow> string \<Rightarrow> string \<Rightarrow> acme_world \<Rightarrow> bool \<times> acme_world" where
  "run_dns_hook e action fqdn value w =
     (let ok = ae_hook e (length (aw_hook_calls w))
      in (ok, w\<lparr>aw_hook_calls := aw_hook_calls w @ [(action, fqdn, value, ok)]\<rparr>))"

definition write_file :: "acme_env \<Rightarrow> string \<Rightarrow> (acme_cache \<Rightarrow> acme_cache) \<Rightarrow> acme_world \<Rightarrow> ((string + unit) \<times> acme_world) option" where
  "write_file e name f w =
     Some (if ae_write e name then (Inr (), w\<lparr>aw_cache := f (aw_cache w)\<rparr>) else (Inl (''write '' @ name), w))"

definition load_or_create_account :: "acme_env \<Rightarrow> tls_args \<Rightarrow> acme_world \<Rightarrow> ((string + account) \<times> acme_world) option" where
  "load_or_create_account e a w =
     (case ca_account (aw_cache w) of
        Some bytes \<Rightarrow> Some (ae_restore e bytes, w)
      | None \<Rightarrow>
     (case tl_email a of
        None \<Rightarrow> None
      | Some email \<Rightarrow>
     (case ae_create e (''mailto:'' @ email) (ae_directory e (tl_staging a)) of
        Inl err \<Rightarrow> Some (Inl err, w)
      | Inr account \<Rightarrow>
          and_then (write_file e ''account.json'' (\<lambda>c. c\<lparr>ca_account := Some (ac_json account)\<rparr>) w)
            (\<lambda>_ w. Some (Inr account, w)))))"

text \<open>A challenge is put where the server looks for it.\<close>

definition present :: "acme_env \<Rightarrow> tls_args \<Rightarrow> string \<Rightarrow> challenge \<Rightarrow> acme_world \<Rightarrow> ((string + unit) \<times> acme_world) option" where
  "present e a domain c w =
     (case tl_method a of
        Http01 \<Rightarrow> Some (Inr (), w\<lparr>aw_tokens := AList.update (ch_token c) (ch_key_authorization c) (aw_tokens w)\<rparr>)
      | Dns01 \<Rightarrow>
          let fqdn = ''_acme-challenge.'' @ strip_wildcard domain; value = ch_dns_value c in
          (case tl_dns_hook a of
             None \<Rightarrow> None
           | Some hook \<Rightarrow>
               let (ok, w) = run_dns_hook e ''add'' fqdn value w
               in Some (if ok then (Inr (), w\<lparr>aw_cleanups := aw_cleanups w @ [(fqdn, value)]\<rparr>) else (Inl ''dns-01 hook (add)'', w))))"

fun authorize ::
  "acme_env \<Rightarrow> tls_args \<Rightarrow> (string + authorization) list \<Rightarrow> acme_world \<Rightarrow> ((string + unit) \<times> acme_world) option" where
  "authorize e a [] w = Some (Inr (), w)"
| "authorize e a (Inl err # auths) w = Some (Inl (''fetch authorization: '' @ err), w)"
| "authorize e a (Inr az # auths) w =
     (case az_status az of
        AuthValid \<Rightarrow> authorize e a auths w
      | AuthOther st \<Rightarrow> Some (Inl (''unexpected authorization status: '' @ st), w)
      | AuthPending \<Rightarrow>
          (case az_challenge az (tl_method a) of
             None \<Rightarrow> Some (Inl ''ACME server offered no challenge'', w)
           | Some c \<Rightarrow>
               and_then (present e a (az_domain az) c w)
                 (\<lambda>_ w. case ch_ready c of
                    Some err \<Rightarrow> Some (Inl (''notify ACME that challenge is ready: '' @ err), w)
                  | None \<Rightarrow> authorize e a auths w)))"

definition issue_cert_inner :: "acme_env \<Rightarrow> tls_args \<Rightarrow> acme_world \<Rightarrow> ((string + cert_material) \<times> acme_world) option" where
  "issue_cert_inner e a w =
     and_then (load_or_create_account e a w) (\<lambda>account w.
     and_then (Some (ae_order e account (tl_domains a), w)) (\<lambda>auths w.
     and_then (authorize e a auths w) (\<lambda>_ w.
     and_then (Some (ae_poll_ready e, w)) (\<lambda>ready w.
     if \<not> ready then Some (Inl ''ACME order did not reach Ready'', w) else
     and_then (Some (ae_finalize e, w)) (\<lambda>key w.
     and_then (Some (ae_certificate e, w)) (\<lambda>cert w.
     and_then (write_file e ''cert.pem'' (\<lambda>c. c\<lparr>ca_cert := Some cert\<rparr>) w) (\<lambda>_ w.
     and_then (write_file e ''key.pem'' (\<lambda>c. c\<lparr>ca_key := Some key\<rparr>) w) (\<lambda>_ w.
     and_then (Some (ae_not_after e cert, w)) (\<lambda>not_after w.
     Some (Inr \<lparr>cm_cert = cert, cm_key = key, cm_not_after = not_after\<rparr>, w))))))))))"

text \<open>The records are removed whatever came of it, and the responder with its tokens is dropped.\<close>

definition issue_cert :: "acme_env \<Rightarrow> tls_args \<Rightarrow> acme_cache \<Rightarrow> ((string + cert_material) \<times> acme_world) option" where
  "issue_cert e a cache =
     (let w = \<lparr>aw_hook_calls = [], aw_cleanups = [], aw_tokens = [], aw_cache = cache\<rparr> in
      if tl_method a = Http01 \<and> ae_bind e \<noteq> None then Some (Inl (the (ae_bind e)), w)
      else case issue_cert_inner e a w of
        None \<Rightarrow> None
      | Some (r, w) \<Rightarrow>
          Some (r, (if tl_dns_hook a = None then w
            else fold (\<lambda>(fqdn, value) w. snd (run_dns_hook e ''remove'' fqdn value w)) (aw_cleanups w) w)\<lparr>aw_tokens := []\<rparr>))"

section \<open>What is served\<close>

definition days_30 :: int where
  "days_30 = 30 * 86400"

definition load_or_obtain_acme :: "acme_env \<Rightarrow> tls_args \<Rightarrow> int \<Rightarrow> acme_cache \<Rightarrow> ((string + cert_material) \<times> acme_world) option" where
  "load_or_obtain_acme e a now cache =
     (let w = \<lparr>aw_hook_calls = [], aw_cleanups = [], aw_tokens = [], aw_cache = cache\<rparr> in
      case (ca_cert cache, ca_key cache) of
        (Some cert, Some key) \<Rightarrow>
          (case ae_not_after e cert of
             Inr not_after \<Rightarrow>
               if max 0 (not_after - now) > days_30
               then Some (Inr \<lparr>cm_cert = cert, cm_key = key, cm_not_after = not_after\<rparr>, w)
               else issue_cert e a cache
           | Inl _ \<Rightarrow> issue_cert e a cache)
      | _ \<Rightarrow> issue_cert e a cache)"

definition load_static :: "acme_env \<Rightarrow> (string \<Rightarrow> string option) \<Rightarrow> tls_args \<Rightarrow> (string + cert_material) option" where
  "load_static e read a =
     (case tl_cert a of
        None \<Rightarrow> None
      | Some cert_path \<Rightarrow> Some
     (case tl_key a of
        None \<Rightarrow> Inl ''--tls-key is required with --tls-cert''
      | Some key_path \<Rightarrow>
     (case read cert_path of
        None \<Rightarrow> Inl (''read '' @ cert_path)
      | Some cert \<Rightarrow>
     (case read key_path of
        None \<Rightarrow> Inl (''read '' @ key_path)
      | Some key \<Rightarrow> map_sum id (\<lambda>t. \<lparr>cm_cert = cert, cm_key = key, cm_not_after = t\<rparr>) (ae_not_after e cert)))))"

definition serve_material ::
  "acme_env \<Rightarrow> (string \<Rightarrow> string option) \<Rightarrow> tls_args \<Rightarrow> int \<Rightarrow> acme_cache \<Rightarrow> (string + cert_material) option" where
  "serve_material e read a now cache =
     (if tl_cert a \<noteq> None then load_static e read a else map_option fst (load_or_obtain_acme e a now cache))"

section \<open>Renewal\<close>

record renewal =
  rn_now :: int
  rn_not_after :: int
  rn_served :: cert_material

definition renewal_wait :: "int \<Rightarrow> int \<Rightarrow> int" where
  "renewal_wait now not_after = (let renew_at = not_after - days_30 in if now \<le> renew_at then renew_at - now else 60)"

text \<open>One round: the wait, an attempt (its result, how long it took, whether the new material could be
  loaded), and the wait after a failure.\<close>

definition renewal_step :: "(string + cert_material) \<times> int \<times> bool \<Rightarrow> renewal \<Rightarrow> renewal" where
  "renewal_step x r =
     (let (result, took, loaded) = x;
          r = r\<lparr>rn_now := rn_now r + renewal_wait (rn_now r) (rn_not_after r) + took\<rparr>
      in case result of
        Inr m \<Rightarrow> if loaded then r\<lparr>rn_not_after := cm_not_after m, rn_served := m\<rparr> else r\<lparr>rn_now := rn_now r + 3600\<rparr>
      | Inl _ \<Rightarrow> r\<lparr>rn_now := rn_now r + 3600\<rparr>)"

section \<open>Lemmas\<close>

lemma and_then_Some:
  "and_then x f = Some (r, w') \<longleftrightarrow>
     (\<exists>e. x = Some (Inl e, w') \<and> r = Inl e) \<or> (\<exists>a w. x = Some (Inr a, w) \<and> f a w = Some (r, w'))"
  by (auto simp: and_then_def split: option.splits sum.splits)

lemma and_then_None: "and_then x f = None \<longleftrightarrow> x = None \<or> (\<exists>a w. x = Some (Inr a, w) \<and> f a w = None)"
  by (auto simp: and_then_def split: option.splits sum.splits)

definition hooked :: "string \<Rightarrow> (string \<times> string \<times> string \<times> bool) list \<Rightarrow> (string \<times> string) list" where
  "hooked action calls = map (\<lambda>(a, f, v, ok). (f, v)) (filter (\<lambda>(a, f, v, ok). a = action) calls)"

text \<open>While a certificate is issued: only additions, and those that succeeded are remembered.\<close>

definition adding :: "acme_world \<Rightarrow> bool" where
  "adding w \<longleftrightarrow> (\<forall>x \<in> set (aw_hook_calls w). fst x = ''add'') \<and>
     aw_cleanups w = map (\<lambda>(a, f, v, ok). (f, v)) (filter (\<lambda>(a, f, v, ok). ok) (aw_hook_calls w))"

lemma adding_frame: "aw_hook_calls w' = aw_hook_calls w \<Longrightarrow> aw_cleanups w' = aw_cleanups w \<Longrightarrow> adding w' = adding w"
  by (simp add: adding_def)

lemma present_adding: "present e a d c w = Some (r, w') \<Longrightarrow> adding w \<Longrightarrow> adding w'"
  by (auto simp: present_def run_dns_hook_def adding_def Let_def split: acme_method.splits option.splits if_splits)

lemma authorize_adding: "authorize e a auths w = Some (r, w') \<Longrightarrow> adding w \<Longrightarrow> adding w'"
proof (induction e a auths w arbitrary: r w' rule: authorize.induct)
  case (3 e a az auths w)
  show ?case
  proof (cases "az_status az")
    case AuthPending
    show ?thesis
    proof (cases "az_challenge az (tl_method a)")
      case None
      with 3 AuthPending show ?thesis by simp
    next
      case (Some c)
      with 3 AuthPending consider (failed) err where "present e a (az_domain az) c w = Some (Inl err, w')"
        | (ok) u w1 where "present e a (az_domain az) c w = Some (Inr u, w1)"
            "(case ch_ready c of Some err \<Rightarrow> Some (Inl (''notify ACME that challenge is ready: '' @ err), w1)
              | None \<Rightarrow> authorize e a auths w1) = Some (r, w')"
        by (auto simp: and_then_Some)
      then show ?thesis
      proof cases
        case failed
        with 3 present_adding show ?thesis by blast
      next
        case ok
        with 3 have w1: "adding w1" using present_adding by blast
        show ?thesis
        proof (cases "ch_ready c")
          case None
          with ok(2) have "authorize e a auths w1 = Some (r, w')" by simp
          with 3 AuthPending Some None w1 show ?thesis by blast
        qed (use ok(2) w1 in auto)
      qed
    qed
  qed (use 3 in auto)
qed auto

lemma write_file_adding: "write_file e n f w = Some (r, w') \<Longrightarrow> adding w \<Longrightarrow> adding w'"
  by (auto simp: write_file_def adding_def split: if_splits)

lemma account_adding: "load_or_create_account e a w = Some (r, w') \<Longrightarrow> adding w \<Longrightarrow> adding w'"
  by (auto simp: load_or_create_account_def and_then_Some dest: write_file_adding split: option.splits sum.splits)

lemma issue_inner_adding: "issue_cert_inner e a w = Some (r, w') \<Longrightarrow> adding w \<Longrightarrow> adding w'"
  unfolding issue_cert_inner_def
  by (auto simp: and_then_Some split: if_splits dest!: account_adding authorize_adding write_file_adding)

lemma remove_calls:
  "\<exists>oks. length oks = length cs \<and>
     aw_hook_calls (fold (\<lambda>(fqdn, value) w. snd (run_dns_hook e ''remove'' fqdn value w)) cs w) =
       aw_hook_calls w @ map (\<lambda>((f, v), ok). (''remove'', f, v, ok)) (zip cs oks)"
proof (induction cs arbitrary: w)
  case (Cons c cs)
  obtain f v where c: "c = (f, v)" by fastforce
  obtain ok w1 where r: "run_dns_hook e ''remove'' f v w = (ok, w1)" by fastforce
  then have w1: "aw_hook_calls w1 = aw_hook_calls w @ [(''remove'', f, v, ok)]" by (auto simp: run_dns_hook_def Let_def)
  obtain oks where "length oks = length cs"
    "aw_hook_calls (fold (\<lambda>(fqdn, value) w. snd (run_dns_hook e ''remove'' fqdn value w)) cs w1) =
       aw_hook_calls w1 @ map (\<lambda>((f, v), ok). (''remove'', f, v, ok)) (zip cs oks)"
    using Cons.IH [of w1] by blast
  with c r w1 show ?case by (intro exI [of _ "ok # oks"]) simp
qed simp

definition valid_acme :: "tls_args \<Rightarrow> bool" where
  "valid_acme a \<longleftrightarrow> tl_email a \<noteq> None \<and> (tl_method a = Dns01 \<longrightarrow> tl_dns_hook a \<noteq> None)"

lemma validate_acme: "validate a = Inr () \<Longrightarrow> tl_domains a \<noteq> [] \<Longrightarrow> valid_acme a \<and> tl_cert a = None"
  by (auto simp: validate_def valid_acme_def split: if_splits)

lemma and_then_total: "x \<noteq> None \<Longrightarrow> (\<And>a w. f a w \<noteq> None) \<Longrightarrow> and_then x f \<noteq> None"
  unfolding and_then_None by blast

lemma if_ne_None: "x \<noteq> None \<Longrightarrow> y \<noteq> None \<Longrightarrow> (if b then x else y) \<noteq> None"
  by simp

lemma present_total: "valid_acme a \<Longrightarrow> present e a d c w \<noteq> None"
  by (auto simp: present_def valid_acme_def Let_def split: acme_method.split option.split prod.split)

lemma authorize_total: "valid_acme a \<Longrightarrow> authorize e a auths w \<noteq> None"
proof (induction e a auths w rule: authorize.induct)
  case (3 e a az auths w)
  show ?case
  proof (cases "az_status az")
    case AuthPending
    show ?thesis
    proof (cases "az_challenge az (tl_method a)")
      case (Some c)
      have "(case ch_ready c of Some err \<Rightarrow> Some (Inl (''notify ACME that challenge is ready: '' @ err), w)
              | None \<Rightarrow> authorize e a auths w) \<noteq> None" for w
        using 3 AuthPending Some by (cases "ch_ready c") auto
      then have "and_then (present e a (az_domain az) c w) (\<lambda>_ w. case ch_ready c of
            Some err \<Rightarrow> Some (Inl (''notify ACME that challenge is ready: '' @ err), w)
          | None \<Rightarrow> authorize e a auths w) \<noteq> None"
        by (intro and_then_total present_total 3)
      with AuthPending Some show ?thesis by simp
    qed (simp add: AuthPending)
  qed (use 3 in auto)
qed auto

lemma account_total: "valid_acme a \<Longrightarrow> load_or_create_account e a w \<noteq> None"
  by (auto simp: load_or_create_account_def valid_acme_def and_then_def write_file_def split: option.split sum.split)

lemma write_file_total: "write_file e n f w \<noteq> None"
  by (simp add: write_file_def)

lemma issue_inner_total: "valid_acme a \<Longrightarrow> issue_cert_inner e a w \<noteq> None"
  unfolding issue_cert_inner_def
  by (intro and_then_total account_total authorize_total write_file_total option.distinct(2) if_ne_None | assumption)+

lemma issue_total:
  assumes "valid_acme a"
  shows "issue_cert e a cache \<noteq> None"
proof -
  obtain r w where "issue_cert_inner e a \<lparr>aw_hook_calls = [], aw_cleanups = [], aw_tokens = [], aw_cache = cache\<rparr> = Some (r, w)"
    using issue_inner_total [OF assms] by (metis not_None_eq surj_pair)
  then show ?thesis by (simp add: issue_cert_def Let_def)
qed

lemma renewal_failures:
  assumes "\<forall>(res, took, loaded) \<in> set xs. (\<exists>err. res = Inl err) \<and> took \<le> 600" "rn_now r \<le> rn_not_after r - days_30 + b" "0 \<le> b"
  shows "rn_now (fold renewal_step xs r) \<le> rn_not_after r - days_30 + b + 4260 * int (length xs) \<and>
    rn_not_after (fold renewal_step xs r) = rn_not_after r \<and> rn_served (fold renewal_step xs r) = rn_served r"
  using assms
proof (induction xs arbitrary: r b)
  case (Cons x xs)
  obtain err took loaded where x: "x = (Inl err, took, loaded)" "took \<le> 600" using Cons.prems(1) by (cases x) auto
  have s: "rn_not_after (renewal_step x r) = rn_not_after r" "rn_served (renewal_step x r) = rn_served r"
    "rn_now (renewal_step x r) \<le> rn_not_after r - days_30 + (b + 4260)"
    using x Cons.prems(2,3) by (auto simp: renewal_step_def renewal_wait_def Let_def)
  from Cons.IH [of "renewal_step x r" "b + 4260"] Cons.prems(1,3) s show ?case by auto
qed simp

section \<open>Properties\<close>

text \<open>Issuing leaves no trace in the DNS: however it ends, in whatever step it failed, the calls of the
  hook are first additions and then, one for each addition that succeeded and in the same order, removals of
  the same name and value, whether or not a removal fails; and no challenge token is served any more.\<close>

theorem dns_records_removed:
  assumes "issue_cert e a cache = Some (r, w)" "tl_dns_hook a \<noteq> None"
  shows "\<exists>adds oks. (\<forall>x \<in> set adds. fst x = ''add'') \<and>
     (let added = map (\<lambda>(a, f, v, ok). (f, v)) (filter (\<lambda>(a, f, v, ok). ok) adds) in
        length oks = length added \<and>
        aw_hook_calls w = adds @ map (\<lambda>((f, v), ok). (''remove'', f, v, ok)) (zip added oks)) \<and>
     aw_tokens w = []"
proof (cases "tl_method a = Http01 \<and> ae_bind e \<noteq> None")
  case True
  with assms(1) have "aw_hook_calls w = []" "aw_tokens w = []" by (auto simp: issue_cert_def Let_def)
  then show ?thesis by (intro exI [of _ "[]"]) simp
next
  case False
  let ?w0 = "\<lparr>aw_hook_calls = [], aw_cleanups = [], aw_tokens = [], aw_cache = cache\<rparr>"
  obtain w1 where i: "issue_cert_inner e a ?w0 = Some (r, w1)"
    and w: "w = (fold (\<lambda>(fqdn, value) w. snd (run_dns_hook e ''remove'' fqdn value w)) (aw_cleanups w1) w1)\<lparr>aw_tokens := []\<rparr>"
    using assms False by (auto simp: issue_cert_def Let_def split: option.splits)
  have "adding w1" by (rule issue_inner_adding [OF i]) (simp add: adding_def)
  then have adds: "\<forall>x \<in> set (aw_hook_calls w1). fst x = ''add''"
    and c: "aw_cleanups w1 = map (\<lambda>(a, f, v, ok). (f, v)) (filter (\<lambda>(a, f, v, ok). ok) (aw_hook_calls w1))"
    by (simp_all add: adding_def)
  obtain oks where "length oks = length (aw_cleanups w1)"
    "aw_hook_calls w = aw_hook_calls w1 @ map (\<lambda>((f, v), ok). (''remove'', f, v, ok)) (zip (aw_cleanups w1) oks)"
    using remove_calls [of "aw_cleanups w1" e w1] w by auto
  with adds c w show ?thesis unfolding Let_def by (intro exI [of _ "aw_hook_calls w1"] exI [of _ oks]) simp
qed

definition sample_tls :: tls_args where
  "sample_tls = \<lparr>tl_cert = None, tl_key = None, tl_domains = [''*.x.org''], tl_email = Some ''me@x.org'', tl_method = Dns01,
     tl_staging = False, tl_dns_hook = Some ''hook.sh''\<rparr>"

definition sample_acme :: acme_env where
  "sample_acme = \<lparr>ae_bind = None, ae_directory = (\<lambda>b. ''https://acme''), ae_restore = (\<lambda>j. Inl ''bad''),
     ae_create = (\<lambda>c d. Inr \<lparr>ac_directory = d, ac_json = ''{}''\<rparr>),
     ae_order = (\<lambda>acc ds. Inr (map (\<lambda>d. Inr \<lparr>az_status = AuthPending, az_domain = d,
       az_challenge = (\<lambda>m. Some \<lparr>ch_token = ''t'', ch_key_authorization = ''k'', ch_dns_value = ''v'', ch_ready = None\<rparr>)\<rparr>) ds)),
     ae_poll_ready = Inr False, ae_finalize = Inl ''no'', ae_certificate = Inl ''no'', ae_hook = (\<lambda>n. True),
     ae_write = (\<lambda>f. True), ae_not_after = (\<lambda>c. Inr 0)\<rparr>"

definition empty_acme_cache :: acme_cache where
  "empty_acme_cache = \<lparr>ca_cert = None, ca_key = None, ca_account = None\<rparr>"

lemma sample_issue:
  "issue_cert sample_acme sample_tls empty_acme_cache = Some (Inl ''ACME order did not reach Ready'',
     \<lparr>aw_hook_calls = [(''add'', ''_acme-challenge.x.org'', ''v'', True), (''remove'', ''_acme-challenge.x.org'', ''v'', True)],
      aw_cleanups = [(''_acme-challenge.x.org'', ''v'')], aw_tokens = [], aw_cache = empty_acme_cache\<lparr>ca_account := Some ''{}''\<rparr>\<rparr>)"
  by (simp add: issue_cert_def issue_cert_inner_def load_or_create_account_def write_file_def present_def run_dns_hook_def
      and_then_def strip_wildcard_def strip_prefix_def starts_with_def sample_acme_def sample_tls_def empty_acme_cache_def Let_def)

theorem dns_records_removed_witness:
  "\<exists>r w. issue_cert sample_acme sample_tls empty_acme_cache = Some (r, w) \<and> aw_hook_calls w \<noteq> [] \<and> aw_tokens w = []"
proof -
  obtain r w where i: "issue_cert sample_acme sample_tls empty_acme_cache = Some (r, w)" "aw_hook_calls w \<noteq> []"
    using sample_issue by auto
  moreover have "tl_dns_hook sample_tls \<noteq> None" by (simp add: sample_tls_def)
  ultimately show ?thesis using dns_records_removed [OF i(1)] by blast
qed

text \<open>What \<open>validate\<close> lets through cannot panic later: with arguments that enable HTTPS and pass the
  check, no \<open>expect\<close> on an argument fails, whatever the files, the cache, the hook and the
  ACME server answer.\<close>

theorem validated_arguments_suffice:
  assumes "is_enabled a" "validate a = Inr ()"
  shows "serve_material e read a now cache \<noteq> None"
proof (cases "tl_cert a")
  case (Some c)
  then show ?thesis by (simp add: serve_material_def load_static_def)
next
  case None
  with assms have "valid_acme a" using validate_acme by (simp add: is_enabled_def)
  with None issue_total [of a e cache] show ?thesis
    by (auto simp: serve_material_def load_or_obtain_acme_def Let_def split: option.split sum.split)
qed

theorem validated_arguments_suffice_witness:
  "serve_material sample_acme (\<lambda>p. None) sample_tls 0 empty_acme_cache \<noteq> None"
  using validated_arguments_suffice [of sample_tls sample_acme "\<lambda>p. None" 0 empty_acme_cache]
  by (simp add: is_enabled_def validate_def sample_tls_def)

text \<open>Renewal in time: starting no later than thirty days before the certificate expires, after up to 600
  failed attempts of at most ten minutes each the certificate is still valid, and an
  attempt that then succeeds replaces it before it expires.\<close>

theorem renewal_in_time:
  assumes "rn_now r \<le> rn_not_after r - days_30" "length xs \<le> 600"
    and "\<forall>(res, took, loaded) \<in> set xs. (\<exists>err. res = Inl err) \<and> took \<le> 600" "took \<le> 600"
  shows "rn_now (fold renewal_step xs r) < rn_not_after r \<and> rn_served (fold renewal_step xs r) = rn_served r \<and>
    (let r' = renewal_step (Inr m, took, True) (fold renewal_step xs r) in
       rn_now r' < rn_not_after r \<and> rn_served r' = m \<and> rn_not_after r' = cm_not_after m)"
proof -
  let ?r = "fold renewal_step xs r"
  have b: "rn_now ?r \<le> rn_not_after r - days_30 + 4260 * int (length xs)" and
    n: "rn_not_after ?r = rn_not_after r" "rn_served ?r = rn_served r"
    using renewal_failures [of xs r 0] assms(1,3) by simp_all
  have d: "4260 * int (length xs) + 660 < days_30" using assms(2) by (simp add: days_30_def)
  show ?thesis
    using b n d assms(4) by (simp add: renewal_step_def renewal_wait_def Let_def)
qed

definition sample_material :: "int \<Rightarrow> cert_material" where
  "sample_material t = \<lparr>cm_cert = ''c'', cm_key = ''k'', cm_not_after = t\<rparr>"

definition sample_renewal :: renewal where
  "sample_renewal = \<lparr>rn_now = 0, rn_not_after = 7776000, rn_served = sample_material 7776000\<rparr>"

theorem renewal_in_time_witness:
  "rn_served (renewal_step (Inr (sample_material 9999999), 5, True) (fold renewal_step [(Inl ''e'', 5, False)] sample_renewal)) = sample_material 9999999"
  using renewal_in_time [of sample_renewal "[(Inl ''e'', 5, False)]" 5 "sample_material 9999999"]
  by (simp add: sample_renewal_def days_30_def Let_def)

text \<open>A certificate that is valid for thirty days or less when it is issued is issued again every
  minute: each success is followed by the short wait.\<close>

theorem short_lived_certificates_reissued:
  assumes "\<forall>i < length ms. cm_not_after (ms ! i) < rn_now r + 60 * int (Suc i) + days_30" "rn_not_after r < rn_now r + days_30"
  shows "rn_now (fold renewal_step (map (\<lambda>m. (Inr m, 0, True)) ms) r) = rn_now r + 60 * int (length ms)"
  using assms
proof (induction ms arbitrary: r)
  case (Cons m ms)
  let ?r = "renewal_step (Inr m, 0, True) r"
  have r: "rn_now ?r = rn_now r + 60" "rn_not_after ?r = cm_not_after m"
    using Cons.prems(2) by (simp_all add: renewal_step_def renewal_wait_def Let_def)
  have "cm_not_after (ms ! i) < rn_now ?r + 60 * int (Suc i) + days_30" if "i < length ms" for i
    using Cons.prems(1) [rule_format, of "Suc i"] that r by simp
  moreover have "rn_not_after ?r < rn_now ?r + days_30" using Cons.prems(1) [rule_format, of 0] r by simp
  ultimately show ?case using Cons.IH [of ?r] r by simp
qed simp

text \<open>The cached certificate is taken without a look at the domains, the environment or the method it was
  issued for.\<close>

lemma cached_certificate_ignores_domains:
  assumes "ca_cert cache = Some cert" "ca_key cache = Some key" "ae_not_after e cert = Inr t" "t - now > days_30"
  shows "load_or_obtain_acme e (a\<lparr>tl_domains := ds, tl_staging := b, tl_method := m\<rparr>) now cache = load_or_obtain_acme e a now cache"
  using assms by (simp add: load_or_obtain_acme_def Let_def days_30_def)

end
