(* ===== verification/Http_Requests.thy ===== *)
theory Http_Requests
  imports Bridge_Relay
begin

text \<open>
  The bodies of \<open>POST /message\<close> and \<open>POST /event\<close> (src/src/http_server.rs): what serde makes of
  \<open>MessageRequest\<close> and \<open>EventRequest\<close>, and the handlers behind it. A body that does not fit is
  refused with status 422.
\<close>

section \<open>Fields\<close>

text \<open>A field that is not there is \<open>None\<close>. An \<open>Option\<close> also takes null, a \<open>#[serde(default)]\<close> does not.\<close>

definition string_field :: "json option \<Rightarrow> string option" where
  "string_field f = Option.bind f as_str"

definition opt_string_field :: "json option \<Rightarrow> string option option" where
  "opt_string_field f =
     (case f of None \<Rightarrow> Some None | Some JNull \<Rightarrow> Some None | Some (JStr s) \<Rightarrow> Some (Some s) | _ \<Rightarrow> None)"

definition strings_field :: "json option \<Rightarrow> string list option" where
  "strings_field f = (case f of None \<Rightarrow> Some [] | Some (JArr xs) \<Rightarrow> those (map as_str xs) | _ \<Rightarrow> None)"

definition opt_u8_field :: "json option \<Rightarrow> u8 option option" where
  "opt_u8_field f =
     (case f of
        None \<Rightarrow> Some None
      | Some JNull \<Rightarrow> Some None
      | Some (JInt i) \<Rightarrow> if 0 \<le> i \<and> i < 256 then Some (Some (of_int i)) else None
      | _ \<Rightarrow> None)"

text \<open>Unknown fields are ignored, a known one twice is an error.\<close>

definition known_once :: "string list \<Rightarrow> (string \<times> json) list \<Rightarrow> bool" where
  "known_once ks m = distinct (filter (\<lambda>k. k \<in> set ks) (map fst m))"

section \<open>Requests\<close>

record message_request =
  mq_chat_id :: "string option"
  mq_user :: string
  mq_content :: string
  mq_attachments :: "string list"
  mq_message_ref :: "string option"

definition message_fields :: "json option \<Rightarrow> json option \<Rightarrow> json option \<Rightarrow> json option \<Rightarrow> json option \<Rightarrow> message_request option" where
  "message_fields chat user content attachments message_ref =
     (case (opt_string_field chat, string_field user, string_field content, strings_field attachments, opt_string_field message_ref) of
        (Some c, Some u, Some t, Some a, Some r) \<Rightarrow>
          Some \<lparr>mq_chat_id = c, mq_user = u, mq_content = t, mq_attachments = a, mq_message_ref = r\<rparr>
      | _ \<Rightarrow> None)"

text \<open>serde reads a struct from an object, and from an array by position.\<close>

fun parse_message_request :: "json \<Rightarrow> message_request option" where
  "parse_message_request (JObj m) =
     (if known_once [''chat_id'', ''user'', ''content'', ''attachments'', ''message_ref''] m
      then message_fields (map_of m ''chat_id'') (map_of m ''user'') (map_of m ''content'') (map_of m ''attachments'') (map_of m ''message_ref'')
      else None)"
| "parse_message_request (JArr [c, u, t]) = message_fields (Some c) (Some u) (Some t) None None"
| "parse_message_request (JArr [c, u, t, a]) = message_fields (Some c) (Some u) (Some t) (Some a) None"
| "parse_message_request (JArr [c, u, t, a, r]) = message_fields (Some c) (Some u) (Some t) (Some a) (Some r)"
| "parse_message_request _ = None"

record event_request =
  eq_source :: string
  eq_event_type :: string
  eq_data :: json
  eq_priority :: "u8 option"
  eq_agent :: "string option"

definition event_fields :: "json option \<Rightarrow> json option \<Rightarrow> json option \<Rightarrow> json option \<Rightarrow> json option \<Rightarrow> event_request option" where
  "event_fields source ty data prio agent =
     (case (string_field source, string_field ty, data, opt_u8_field prio, opt_string_field agent) of
        (Some s, Some t, Some d, Some p, Some a) \<Rightarrow>
          Some \<lparr>eq_source = s, eq_event_type = t, eq_data = d, eq_priority = p, eq_agent = a\<rparr>
      | _ \<Rightarrow> None)"

fun parse_event_request :: "json \<Rightarrow> event_request option" where
  "parse_event_request (JObj m) =
     (if known_once [''source'', ''type'', ''data'', ''priority'', ''agent''] m
      then event_fields (map_of m ''source'') (map_of m ''type'') (map_of m ''data'') (map_of m ''priority'') (map_of m ''agent'')
      else None)"
| "parse_event_request (JArr [s, t, d, p, a]) = event_fields (Some s) (Some t) (Some d) (Some p) (Some a)"
| "parse_event_request _ = None"

section \<open>The handlers on a body\<close>

definition post_message :: "nat \<Rightarrow> bool \<Rightarrow> nat \<Rightarrow> json \<Rightarrow> (nat + json) \<times> (nat \<times> harness_event) list" where
  "post_message root_tx root_open nanos body =
     (case parse_message_request body of
        None \<Rightarrow> (Inl 422, [])
      | Some q \<Rightarrow> handle_message root_tx root_open nanos (mq_chat_id q) (mq_user q) (mq_content q) (mq_attachments q) (mq_message_ref q))"

definition post_event :: "nat \<Rightarrow> bool \<Rightarrow> agent_registry \<Rightarrow> json \<Rightarrow> (nat + json) \<times> (nat \<times> harness_event) list" where
  "post_event root_tx root_open r body =
     (case parse_event_request body of
        None \<Rightarrow> (Inl 422, [])
      | Some q \<Rightarrow> handle_event root_tx root_open r (eq_source q) (eq_event_type q) (eq_data q) (eq_priority q) (eq_agent q))"

section \<open>Lemmas\<close>

lemma opt_string_opt_str [simp]: "opt_string_field (Some (opt_str s)) = Some s"
  by (simp add: opt_string_field_def opt_str_def split: option.split)

lemma those_as_str [simp]: "those (map (as_str \<circ> JStr) xs) = Some xs"
  by (induction xs) simp_all

lemma u8_field_uint [simp]: "opt_u8_field (Some (JInt (uint (p :: u8)))) = Some (Some p)"
  using uint_bounded [of p] by (simp add: opt_u8_field_def)

lemma u8_field_numeral [simp]: "opt_u8_field (Some (JInt 7)) = Some (Some 7)"
  by (simp add: opt_u8_field_def)

lemma field_simps_str [simp]:
  "string_field (Some (JStr s)) = Some s" "opt_string_field (Some (JStr s)) = Some (Some s)" "opt_string_field None = Some None"
  "strings_field None = Some []" "strings_field (Some (JArr (map JStr xs))) = Some xs" "opt_u8_field None = Some None"
  by (simp_all add: string_field_def opt_string_field_def strings_field_def opt_u8_field_def)

lemma parse_inbound_body [simp]:
  "parse_message_request (inbound_body user msg) =
     Some \<lparr>mq_chat_id = Some (in_chat_id msg), mq_user = user, mq_content = in_text msg,
       mq_attachments = in_attachments msg, mq_message_ref = in_message_ref msg\<rparr>"
  by (simp add: inbound_body_def known_once_def message_fields_def)

text \<open>An array with null attachments is refused, one without them is not.\<close>

lemma array_bodies:
  "parse_message_request (JArr [JNull, JStr u, JStr t]) =
     Some \<lparr>mq_chat_id = None, mq_user = u, mq_content = t, mq_attachments = [], mq_message_ref = None\<rparr>"
  "parse_message_request (JArr [JNull, JStr u, JStr t, JNull]) = None"
  by (simp_all add: message_fields_def opt_string_field_def strings_field_def)

end
