(* ===== verification/Tls_Listener.thy ===== *)
theory Tls_Listener
  imports Tls
begin

text \<open>
  Accepting TLS connections (src/src/feedback.rs), connecting with TLS, and the responder of
  the http-01 challenge (src/src/tls.rs). The listener is the interleaving of its accept loop, one
  task for each handshake and the server that takes finished connections. rustls, the PEM
  parser and the sockets are parameters or the actions.
\<close>

section \<open>The listener\<close>

definition handshake_limit :: time where
  "handshake_limit = 10 * 10 ^ 9"

definition ready_capacity :: nat where
  "ready_capacity = 64"

text \<open>A TCP stream \<open>'s\<close> becomes a TLS stream \<open>'t\<close>. A handshake has the address of its peer and
  the time its timeout ends; a finished one waits, in order, for room in the channel.\<close>

record ('s, 't) tls_listener =
  tn_local_addr :: string
  tn_handshakes :: "('s \<times> string \<times> time) list"
  tn_finished :: "('t \<times> string) list"
  tn_ready :: "('t \<times> string) list"

datatype ('s, 't) tls_action =
    Accepted time 's string
  | Accept_Failed string
  | Handshake_Done 's 't
  | Handshake_Failed 's string
  | Handshake_Timeout time 's
  | Handed_Over
  | Taken 't string

definition tls_listener_new :: "string \<Rightarrow> ('s, 't) tls_listener" where
  "tls_listener_new addr = \<lparr>tn_local_addr = addr, tn_handshakes = [], tn_finished = [], tn_ready = []\<rparr>"

definition end_handshake :: "'s \<Rightarrow> ('s, 't) tls_listener \<Rightarrow> ('s, 't) tls_listener" where
  "end_handshake s l = l\<lparr>tn_handshakes := filter (\<lambda>h. fst h \<noteq> s) (tn_handshakes l)\<rparr>"

inductive tls_step :: "('s, 't) tls_listener \<Rightarrow> ('s, 't) tls_action \<Rightarrow> ('s, 't) tls_listener \<Rightarrow> bool" where
  accept: "tls_step l (Accepted now s addr)
     (l\<lparr>tn_handshakes := tn_handshakes l @ [(s, addr, now + handshake_limit)]\<rparr>)"
| accept_error: "tls_step l (Accept_Failed e) l"
| completed: "(s, addr, due_at) \<in> set (tn_handshakes l) \<Longrightarrow>
     tls_step l (Handshake_Done s t) (end_handshake s l\<lparr>tn_finished := tn_finished l @ [(t, addr)]\<rparr>)"
| failed: "(s, addr, due_at) \<in> set (tn_handshakes l) \<Longrightarrow> tls_step l (Handshake_Failed s e) (end_handshake s l)"
| timed_out: "\<lbrakk>(s, addr, due_at) \<in> set (tn_handshakes l); due_at \<le> now\<rbrakk> \<Longrightarrow>
     tls_step l (Handshake_Timeout now s) (end_handshake s l)"
| handed_over: "\<lbrakk>tn_finished l = x # xs; length (tn_ready l) < ready_capacity\<rbrakk> \<Longrightarrow>
     tls_step l Handed_Over (l\<lparr>tn_finished := xs, tn_ready := tn_ready l @ [x]\<rparr>)"
| taken: "tn_ready l = (t, addr) # xs \<Longrightarrow> tls_step l (Taken t addr) (l\<lparr>tn_ready := xs\<rparr>)"

inductive tls_run :: "('s, 't) tls_listener \<Rightarrow> ('s, 't) tls_action list \<Rightarrow> ('s, 't) tls_listener \<Rightarrow> bool" where
  here: "tls_run l [] l"
| and_then: "\<lbrakk>tls_run l acts l'; tls_step l' a l''\<rbrakk> \<Longrightarrow> tls_run l (acts @ [a]) l''"

inductive_cases tls_stepE [elim!]:
  "tls_step l (Accepted now s addr) l'" "tls_step l (Accept_Failed e) l'" "tls_step l (Handshake_Done s t) l'"
  "tls_step l (Handshake_Failed s e) l'" "tls_step l (Handshake_Timeout now s) l'" "tls_step l Handed_Over l'"
  "tls_step l (Taken t addr) l'"

text \<open>\<open>Listener::accept\<close> on the channel.\<close>

definition tls_accept :: "('s, 't) tls_listener \<Rightarrow> (('t \<times> string) \<times> ('s, 't) tls_listener) option" where
  "tls_accept l = (case tn_ready l of [] \<Rightarrow> None | x # xs \<Rightarrow> Some (x, l\<lparr>tn_ready := xs\<rparr>))"

definition local_addr :: "('s, 't) tls_listener \<Rightarrow> string" where
  "local_addr l = tn_local_addr l"

section \<open>Certificates and connections\<close>

text \<open>\<open>Inl\<close> is the message of a panic.\<close>

record ('c, 'k, 'cfg) pem_env =
  pe_open :: "string \<Rightarrow> string + string"
  pe_certs :: "string \<Rightarrow> string + 'c list"
  pe_private_key :: "string \<Rightarrow> string + 'k option"
  pe_single_cert :: "'c list \<Rightarrow> 'k \<Rightarrow> string + 'cfg"

definition build_tls_acceptor :: "('c, 'k, 'cfg) pem_env \<Rightarrow> string \<Rightarrow> string \<Rightarrow> string + 'cfg" where
  "build_tls_acceptor e cert_path key_path =
     (case pe_open e cert_path of
        Inl err \<Rightarrow> Inl (''Failed to open TLS cert '' @ cert_path @ '': '' @ err)
      | Inr cert_file \<Rightarrow>
     (case pe_open e key_path of
        Inl err \<Rightarrow> Inl (''Failed to open TLS key '' @ key_path @ '': '' @ err)
      | Inr key_file \<Rightarrow>
     (case pe_certs e cert_file of
        Inl err \<Rightarrow> Inl (''Failed to parse TLS certificate PEM'')
      | Inr certs \<Rightarrow>
     (case pe_private_key e key_file of
        Inl err \<Rightarrow> Inl (''Failed to read TLS key PEM'')
      | Inr None \<Rightarrow> Inl (''No private key found in TLS key PEM'')
      | Inr (Some key) \<Rightarrow>
     (case pe_single_cert e certs key of
        Inl err \<Rightarrow> Inl (''Failed to build TLS config (cert/key mismatch?)'')
      | Inr cfg \<Rightarrow> Inr cfg)))))"

text \<open>The trusted roots: what the store does not take is passed over (\<open>let _ = roots.add(c)\<close>).\<close>

definition native_roots :: "('c \<Rightarrow> bool) \<Rightarrow> 'c list \<Rightarrow> 'c list" where
  "native_roots takes native = filter takes native"

definition rustls_connect ::
  "('c \<Rightarrow> bool) \<Rightarrow> 'c list \<Rightarrow> (string \<Rightarrow> bool) \<Rightarrow> ('c list \<Rightarrow> string \<Rightarrow> 's \<Rightarrow> string + 't) \<Rightarrow> string \<Rightarrow> 's \<Rightarrow> string + 't" where
  "rustls_connect takes native valid_name connect host tcp =
     (if valid_name host then connect (native_roots takes native) host tcp else Inl (''invalid hostname: '' @ host))"

text \<open>The agent chat's connection: the feedback server's own certificate must be taken, those of the
  system may be.\<close>

fun embedded_roots :: "('c \<Rightarrow> bool) \<Rightarrow> (string + 'c) list \<Rightarrow> string + 'c list" where
  "embedded_roots takes [] = Inr []"
| "embedded_roots takes (Inl err # cs) = Inl (''parse cert: '' @ err)"
| "embedded_roots takes (Inr c # cs) =
     (if takes c then map_sum id (\<lambda>roots. c # roots) (embedded_roots takes cs) else Inl ''invalid certificate'')"

datatype 'c wss_connector = Plain_Ws string | Tls_Ws "'c list" string

definition connect_wss ::
  "('c \<Rightarrow> bool) \<Rightarrow> (string + 'c) list \<Rightarrow> 'c list \<Rightarrow> ('c wss_connector \<Rightarrow> string + 't) \<Rightarrow> string \<Rightarrow> string + 't" where
  "connect_wss takes embedded native connect url =
     (if starts_with ''ws://'' url
      then (case connect (Plain_Ws url) of Inl err \<Rightarrow> Inl (''ws connect: '' @ err) | Inr ws \<Rightarrow> Inr ws)
      else (case embedded_roots takes embedded of
          Inl err \<Rightarrow> Inl err
        | Inr roots \<Rightarrow>
            (case connect (Tls_Ws (roots @ native_roots takes native) url) of Inl err \<Rightarrow> Inl (''wss connect: '' @ err) | Inr ws \<Rightarrow> Inr ws)))"

section \<open>The http-01 responder (tls.rs)\<close>

record http01_responder =
  hr_tokens :: "(string, string) hmap"
  hr_listening :: bool

definition http01_start :: "string \<Rightarrow> string option \<Rightarrow> string + http01_responder" where
  "http01_start address bind_error =
     (case bind_error of
        Some err \<Rightarrow> Inl (''bind HTTP-01 responder on '' @ address @ '': '' @ err)
      | None \<Rightarrow> Inr \<lparr>hr_tokens = [], hr_listening = True\<rparr>)"

definition http01_insert :: "string \<Rightarrow> string \<Rightarrow> http01_responder \<Rightarrow> http01_responder" where
  "http01_insert token value r = r\<lparr>hr_tokens := AList.update token value (hr_tokens r)\<rparr>"

definition http01_drop :: "http01_responder \<Rightarrow> http01_responder" where
  "http01_drop r = r\<lparr>hr_listening := False\<rparr>"

text \<open>The answer to \<open>GET /.well-known/acme-challenge/{token}\<close>; nobody answers once it is dropped.\<close>

definition http01_answer :: "http01_responder \<Rightarrow> string \<Rightarrow> (nat \<times> string) option" where
  "http01_answer r token =
     (if \<not> hr_listening r then None
      else Some (case map_of (hr_tokens r) token of Some v \<Rightarrow> (200, v) | None \<Rightarrow> (404, ''not found'')))"

text \<open>The end of a certificate's validity, in seconds; the parsers give the timestamp.\<close>

definition cert_not_after :: "(string \<Rightarrow> string + 'p) \<Rightarrow> ('p \<Rightarrow> string + int) \<Rightarrow> string \<Rightarrow> string + int" where
  "cert_not_after parse_pem parse_x509 pem_bytes =
     (case parse_pem pem_bytes of
        Inl err \<Rightarrow> Inl (''parse PEM: '' @ err)
      | Inr pem \<Rightarrow>
     (case parse_x509 pem of
        Inl err \<Rightarrow> Inl (''parse X.509: '' @ err)
      | Inr ts \<Rightarrow> if ts < 0 then Inl ''cert not_after is before 1970'' else Inr ts))"

section \<open>Lemmas\<close>

subsection \<open>The listener\<close>

definition accepted_streams :: "('s, 't) tls_action list \<Rightarrow> ('s \<times> string) list" where
  "accepted_streams = List.map_filter (\<lambda>a. case a of Accepted now s addr \<Rightarrow> Some (s, addr) | _ \<Rightarrow> None)"

definition completed_handshakes :: "('s, 't) tls_action list \<Rightarrow> ('s \<times> 't) list" where
  "completed_handshakes = List.map_filter (\<lambda>a. case a of Handshake_Done s t \<Rightarrow> Some (s, t) | _ \<Rightarrow> None)"

definition ended :: "('s, 't) tls_action list \<Rightarrow> 's list" where
  "ended = List.map_filter (\<lambda>a. case a of Handshake_Done s t \<Rightarrow> Some s | Handshake_Failed s e \<Rightarrow> Some s
     | Handshake_Timeout now s \<Rightarrow> Some s | _ \<Rightarrow> None)"

definition served :: "('s, 't) tls_action list \<Rightarrow> ('t \<times> string) list" where
  "served = List.map_filter (\<lambda>a. case a of Taken t addr \<Rightarrow> Some (t, addr) | _ \<Rightarrow> None)"

definition with_peer :: "('s \<times> string) list \<Rightarrow> ('s \<times> 't) list \<Rightarrow> ('t \<times> string) list" where
  "with_peer acc = map (\<lambda>(s, t). (t, the (map_of acc s)))"

lemma map_filter_snoc: "List.map_filter f (xs @ [x]) = List.map_filter f xs @ (case f x of Some y \<Rightarrow> [y] | None \<Rightarrow> [])"
  by (induction xs) (auto simp: map_filter_simps split: option.splits)

lemmas trace_defs = accepted_streams_def completed_handshakes_def ended_def served_def

lemma trace_simps [simp]:
  "accepted_streams [] = []" "completed_handshakes [] = []" "ended [] = []" "served [] = []"
  "accepted_streams (acts @ [a]) = accepted_streams acts @ (case a of Accepted now s addr \<Rightarrow> [(s, addr)] | _ \<Rightarrow> [])"
  "completed_handshakes (acts @ [a]) = completed_handshakes acts @ (case a of Handshake_Done s t \<Rightarrow> [(s, t)] | _ \<Rightarrow> [])"
  "ended (acts @ [a]) = ended acts @ (case a of Handshake_Done s t \<Rightarrow> [s] | Handshake_Failed s e \<Rightarrow> [s] | Handshake_Timeout now s \<Rightarrow> [s] | _ \<Rightarrow> [])"
  "served (acts @ [a]) = served acts @ (case a of Taken t addr \<Rightarrow> [(t, addr)] | _ \<Rightarrow> [])"
  by (simp_all add: trace_defs map_filter_simps map_filter_snoc split: tls_action.split)

definition listener_ok :: "('s, 't) tls_action list \<Rightarrow> ('s, 't) tls_listener \<Rightarrow> bool" where
  "listener_ok acts l \<longleftrightarrow>
     map (\<lambda>(s, addr, d). (s, addr)) (tn_handshakes l) = filter (\<lambda>x. fst x \<notin> set (ended acts)) (accepted_streams acts) \<and>
     distinct (ended acts) \<and> set (ended acts) \<subseteq> fst ` set (accepted_streams acts) \<and>
     set (map fst (completed_handshakes acts)) \<subseteq> set (ended acts) \<and> distinct (map fst (completed_handshakes acts)) \<and>
     served acts @ tn_ready l @ tn_finished l = with_peer (accepted_streams acts) (completed_handshakes acts) \<and>
     length (tn_ready l) \<le> ready_capacity"

lemma handshake_open:
  assumes "listener_ok acts l" "(s, addr, d) \<in> set (tn_handshakes l)"
  shows "(s, addr) \<in> set (accepted_streams acts) \<and> s \<in> fst ` set (accepted_streams acts) \<and> s \<notin> set (ended acts)"
proof -
  have "(s, addr) \<in> set (map (\<lambda>(s, addr, d). (s, addr)) (tn_handshakes l))" using assms(2) by force
  with assms(1) show ?thesis by (force simp: listener_ok_def)
qed

lemma end_handshake_open:
  assumes "listener_ok acts l"
  shows "map (\<lambda>(s, addr, d). (s, addr)) (tn_handshakes (end_handshake s l)) =
     filter (\<lambda>x. fst x \<notin> set (ended acts @ [s])) (accepted_streams acts)"
proof -
  have "map (\<lambda>(s, addr, d). (s, addr)) (filter (\<lambda>h. fst h \<noteq> s) hs) = filter (\<lambda>x. fst x \<noteq> s) (map (\<lambda>(s, addr, d). (s, addr)) hs)" for hs :: "('a \<times> string \<times> time) list"
    by (induction hs) auto
  with assms show ?thesis by (auto simp: listener_ok_def end_handshake_def intro: filter_cong)
qed

lemma end_handshake_simps [simp]:
  "tn_ready (end_handshake s l) = tn_ready l" "tn_finished (end_handshake s l) = tn_finished l"
  by (simp_all add: end_handshake_def)

lemma with_peer_later:
  assumes "fst ` set done \<subseteq> fst ` set acc"
  shows "with_peer (acc @ more_acc) done = with_peer acc done"
proof -
  have "map_of (acc @ more_acc) s = map_of acc s" if "s \<in> fst ` set acc" for s
    using that by (cases "map_of acc s") (auto simp: map_add_def map_of_eq_None_iff)
  with assms show ?thesis by (force simp: with_peer_def)
qed

lemma step_listener_ok:
  assumes "tls_step l a l'" "listener_ok acts l" "distinct (map fst (accepted_streams (acts @ [a])))"
  shows "listener_ok (acts @ [a]) l'"
proof (cases a)
  case (Accepted now s addr)
  with assms have new: "s \<notin> fst ` set (accepted_streams acts)" by auto
  have "set (map fst (completed_handshakes acts)) \<subseteq> fst ` set (accepted_streams acts)" using assms(2) by (auto simp: listener_ok_def)
  from with_peer_later [of "completed_handshakes acts" "accepted_streams acts" "[(s, addr)]"] this
  have "with_peer (accepted_streams acts @ [(s, addr)]) (completed_handshakes acts) = with_peer (accepted_streams acts) (completed_handshakes acts)" by simp
  with Accepted assms(1,2) new show ?thesis by (auto simp: listener_ok_def)
next
  case (Accept_Failed e)
  with assms show ?thesis by (auto simp: listener_ok_def)
next
  case (Handshake_Done s t)
  with assms(1) obtain addr d where h: "(s, addr, d) \<in> set (tn_handshakes l)" "l' = end_handshake s l\<lparr>tn_finished := tn_finished l @ [(t, addr)]\<rparr>"
    by auto
  from handshake_open [OF assms(2) h(1)] have s: "(s, addr) \<in> set (accepted_streams acts)" "s \<notin> set (ended acts)" "s \<in> fst ` set (accepted_streams acts)" by blast+
  have "map_of (accepted_streams acts) s = Some addr" using s(1) assms(3) Handshake_Done by (intro map_of_is_SomeI) auto
  then show ?thesis using s h(2) Handshake_Done assms(2) end_handshake_open [OF assms(2), of s]
    by (auto simp: listener_ok_def with_peer_def simp del: append_assoc simp add: append_assoc [symmetric])
next
  case (Handshake_Failed s e)
  with assms(1) obtain addr d where h: "(s, addr, d) \<in> set (tn_handshakes l)" "l' = end_handshake s l" by auto
  from handshake_open [OF assms(2) h(1)] h(2) Handshake_Failed assms(2) end_handshake_open [OF assms(2), of s] show ?thesis
    by (auto simp: listener_ok_def)
next
  case (Handshake_Timeout now s)
  with assms(1) obtain addr d where h: "(s, addr, d) \<in> set (tn_handshakes l)" "l' = end_handshake s l" by auto
  from handshake_open [OF assms(2) h(1)] h(2) Handshake_Timeout assms(2) end_handshake_open [OF assms(2), of s] show ?thesis
    by (auto simp: listener_ok_def)
next
  case Handed_Over
  with assms(1,2) show ?thesis by (auto simp: listener_ok_def)
next
  case (Taken t addr)
  with assms(1,2) show ?thesis by (auto simp: listener_ok_def)
qed

lemma run_listener_ok: "\<lbrakk>tls_run l0 acts l; l0 = tls_listener_new addr; distinct (map fst (accepted_streams acts))\<rbrakk> \<Longrightarrow> listener_ok acts l"
proof (induction rule: tls_run.induct)
  case (here l)
  then show ?case by (simp add: listener_ok_def tls_listener_new_def with_peer_def)
next
  case (and_then l acts l' a l'')
  then have "distinct (map fst (accepted_streams acts))" by simp
  with and_then show ?case by (blast intro: step_listener_ok)
qed

lemma mset_split: "mset xs = mset (filter (\<lambda>x. \<not> P x) xs) + mset (filter P xs)"
  by (induction xs) simp_all

subsection \<open>Taking what is finished\<close>

definition serving :: "('s, 't) tls_action \<Rightarrow> bool" where
  "serving a \<longleftrightarrow> a = Handed_Over \<or> (\<exists>t addr. a = Taken t addr)"

definition backlog :: "('s, 't) tls_listener \<Rightarrow> nat" where
  "backlog l = 2 * length (tn_finished l) + length (tn_ready l)"

lemma serving_simps [simp]: "serving Handed_Over" "serving (Taken t addr)"
  by (simp_all add: serving_def)

lemma serving_run:
  "\<lbrakk>tls_run l acts l'; list_all serving acts\<rbrakk> \<Longrightarrow>
     served acts @ tn_ready l' @ tn_finished l' = tn_ready l @ tn_finished l \<and> length acts + backlog l' = backlog l \<and>
     tn_handshakes l' = tn_handshakes l"
proof (induction rule: tls_run.induct)
  case (and_then l acts l' a l'')
  then have ih: "served acts @ tn_ready l' @ tn_finished l' = tn_ready l @ tn_finished l"
    "length acts + backlog l' = backlog l" "tn_handshakes l' = tn_handshakes l" "serving a" by auto
  then consider "a = Handed_Over" | t addr where "a = Taken t addr" by (auto simp: serving_def)
  then show ?case using and_then.hyps(2) ih(1-3) by cases (auto simp: backlog_def)
qed simp

lemma serving_enabled:
  assumes "tn_finished l \<noteq> [] \<or> tn_ready l \<noteq> []"
  shows "\<exists>a l'. serving a \<and> tls_step l a l'"
proof (cases "tn_ready l")
  case Nil
  with assms obtain x xs where "tn_finished l = x # xs" by (cases "tn_finished l") auto
  with Nil have "tls_step l Handed_Over (l\<lparr>tn_finished := xs, tn_ready := tn_ready l @ [x]\<rparr>)"
    by (intro tls_step.handed_over) (simp_all add: ready_capacity_def)
  with serving_simps(1) show ?thesis by (intro exI conjI)
next
  case (Cons x xs)
  then have "tls_step l (Taken (fst x) (snd x)) (l\<lparr>tn_ready := xs\<rparr>)" by (intro tls_step.taken) simp
  with serving_simps(2) show ?thesis by (intro exI conjI)
qed

subsection \<open>The responder\<close>

text \<open>A challenge is presented by inserting it into the responder.\<close>

lemma present_http01:
  assumes "tl_method a = Http01"
  shows "present e a d c w = Some (Inr (), w\<lparr>aw_tokens :=
     hr_tokens (http01_insert (ch_token c) (ch_key_authorization c) \<lparr>hr_tokens = aw_tokens w, hr_listening = True\<rparr>)\<rparr>)"
  using assms by (simp add: present_def http01_insert_def)

definition pending_challenges :: "tls_args \<Rightarrow> (string + authorization) list \<Rightarrow> (string \<times> string) list" where
  "pending_challenges a = List.map_filter (\<lambda>x. case x of
     Inr az \<Rightarrow> if az_status az = AuthPending then map_option (\<lambda>c. (ch_token c, ch_key_authorization c)) (az_challenge az (tl_method a)) else None
   | Inl _ \<Rightarrow> None)"

lemma authorize_tokens:
  assumes "authorize e a auths w = Some (Inr (), w')" "tl_method a = Http01"
  shows "map_of (aw_tokens w') = map_of (rev (pending_challenges a auths) @ aw_tokens w)"
  using assms(1)
proof (induction auths arbitrary: w)
  case Nil
  then show ?case by (simp add: pending_challenges_def map_filter_simps)
next
  case (Cons x auths)
  from Cons.prems obtain az where x: "x = Inr az" by (cases x) auto
  show ?case
  proof (cases "az_status az")
    case AuthValid
    with Cons x show ?thesis by (simp add: pending_challenges_def map_filter_simps)
  next
    case AuthPending
    with Cons.prems x obtain c where c: "az_challenge az (tl_method a) = Some c" by (auto split: option.splits)
    let ?w = "w\<lparr>aw_tokens := AList.update (ch_token c) (ch_key_authorization c) (aw_tokens w)\<rparr>"
    have "authorize e a auths ?w = Some (Inr (), w')"
      using Cons.prems AuthPending x c assms(2) by (auto simp: present_http01 http01_insert_def and_then_def split: option.splits)
    from Cons.IH [OF this] AuthPending x c show ?thesis
      by (simp add: pending_challenges_def map_filter_simps update_conv' fun_eq_iff map_add_def split: option.split)
  next
    case (AuthOther st)
    with Cons.prems x show ?thesis by simp
  qed
qed

section \<open>Properties\<close>

text \<open>C22: No connection is lost or mixed up behind the TLS listener. Over any interleaving of accepts, handshakes that end in any order or not at all, hand-overs and
  takes: the connections the server took, those in the channel and those waiting for room are together exactly the completed handshakes, in the
  order of their completion, each once and with the address its stream was accepted from; the channel never exceeds its capacity; and every
  accepted stream is still in its handshake or has ended it exactly once.\<close>

theorem tls_connections_handed_on:
  assumes "tls_run (tls_listener_new addr) acts l" "distinct (map fst (accepted_streams acts))"
  shows "served acts @ tn_ready l @ tn_finished l = map (\<lambda>(s, t). (t, the (map_of (accepted_streams acts) s))) (completed_handshakes acts)
    \<and> distinct (map fst (completed_handshakes acts)) \<and> set (map fst (completed_handshakes acts)) \<subseteq> set (map fst (accepted_streams acts))
    \<and> length (tn_ready l) \<le> ready_capacity
    \<and> mset (map fst (accepted_streams acts)) = mset (map fst (tn_handshakes l)) + mset (ended acts)"
proof -
  let ?acc = "map fst (accepted_streams acts)"
  have ok: "listener_ok acts l" using run_listener_ok [OF assms(1) refl assms(2)] .
  have "map fst (tn_handshakes l) = map fst (map (\<lambda>(s, addr, d). (s, addr)) (tn_handshakes l))" by (simp add: case_prod_beta)
  also have "\<dots> = filter (\<lambda>s. s \<notin> set (ended acts)) ?acc" using ok by (simp add: listener_ok_def filter_map o_def)
  finally have h: "map fst (tn_handshakes l) = filter (\<lambda>s. s \<notin> set (ended acts)) ?acc" .
  have "mset ?acc = mset (filter (\<lambda>s. s \<notin> set (ended acts)) ?acc) + mset (filter (\<lambda>s. s \<in> set (ended acts)) ?acc)"
    by (rule mset_split)
  moreover have "mset (filter (\<lambda>s. s \<in> set (ended acts)) ?acc) = mset (ended acts)"
    using ok assms(2) by (intro set_eq_iff_mset_eq_distinct [THEN iffD1]) (auto simp: listener_ok_def)
  ultimately have "mset ?acc = mset (map fst (tn_handshakes l)) + mset (ended acts)" unfolding h by (simp only:)
  with ok show ?thesis by (auto simp: listener_ok_def with_peer_def)
qed

text \<open>Two clients: the first stalls, the second is served.\<close>

definition stalled_run :: "(nat, nat) tls_action list" where
  "stalled_run = [Accepted 0 1 ''a'', Accepted 1 2 ''b'', Handshake_Done 2 20, Handed_Over, Taken 20 ''b'']"

lemma stalled_runs:
  "tls_run (tls_listener_new ''l'') stalled_run \<lparr>tn_local_addr = ''l'', tn_handshakes = [(1, ''a'', handshake_limit)], tn_finished = [], tn_ready = []\<rparr>"
proof -
  let ?l = "\<lambda>hs fs rs. \<lparr>tn_local_addr = ''l'', tn_handshakes = hs, tn_finished = fs, tn_ready = rs\<rparr> :: (nat, nat) tls_listener"
  let ?h = "[(1, ''a'', handshake_limit)] :: (nat \<times> string \<times> time) list"
  have s1: "tls_step (?l [] [] []) (Accepted 0 1 ''a'') (?l ?h [] [])"
    using tls_step.accept [of "?l [] [] []" 0 1 "''a''"] by simp
  have s2: "tls_step (?l ?h [] []) (Accepted 1 2 ''b'') (?l (?h @ [(2, ''b'', 1 + handshake_limit)]) [] [])"
    using tls_step.accept [of "?l ?h [] []" 1 2 "''b''"] by simp
  have s3: "tls_step (?l (?h @ [(2, ''b'', 1 + handshake_limit)]) [] []) (Handshake_Done 2 20) (?l ?h [(20, ''b'')] [])"
    using tls_step.completed [of 2 "''b''" "1 + handshake_limit" "?l (?h @ [(2, ''b'', 1 + handshake_limit)]) [] []" 20]
    by (simp add: end_handshake_def)
  have s4: "tls_step (?l ?h [(20, ''b'')] []) Handed_Over (?l ?h [] [(20, ''b'')])"
    using tls_step.handed_over [of "?l ?h [(20, ''b'')] []" "(20, ''b'')" "[]"] by (simp add: ready_capacity_def)
  have s5: "tls_step (?l ?h [] [(20, ''b'')]) (Taken 20 ''b'') (?l ?h [] [])"
    using tls_step.taken [of "?l ?h [] [(20, ''b'')]" 20 "''b''" "[]"] by simp
  from tls_run.and_then [OF tls_run.and_then [OF tls_run.and_then [OF tls_run.and_then [OF tls_run.and_then [OF tls_run.here s1] s2] s3] s4] s5]
  show ?thesis by (simp add: stalled_run_def tls_listener_new_def)
qed

lemma stalled_streams: "accepted_streams stalled_run = [(1, ''a''), (2, ''b'')]" "served stalled_run = [(20, ''b'')]" "ended stalled_run = [2]"
  by (simp_all add: trace_defs stalled_run_def map_filter_simps)

theorem tls_connections_handed_on_witness:
  "served stalled_run = map (\<lambda>(s, t). (t, the (map_of (accepted_streams stalled_run) s))) (completed_handshakes stalled_run)"
  using tls_connections_handed_on [OF stalled_runs] by (simp add: stalled_streams)

text \<open>C23: A slow or stalled client blocks nobody. In any state a new connection can be accepted; and whatever handshakes are still running, the server and
  the tasks that have finished can go on by themselves until every completed connection has been taken, in order: their steps
  cannot go on for ever, lose nothing and leave the handshakes alone, and as long as something is left one of them is possible.\<close>

theorem tls_listener_never_stalls:
  assumes "tls_run l acts l'" "list_all serving acts"
  shows "served acts @ tn_ready l' @ tn_finished l' = tn_ready l @ tn_finished l
    \<and> length acts \<le> 2 * length (tn_finished l) + length (tn_ready l) \<and> tn_handshakes l' = tn_handshakes l
    \<and> ((\<exists>a l''. serving a \<and> tls_step l' a l'') \<or> served acts = tn_ready l @ tn_finished l)
    \<and> (\<exists>l''. tls_step l' (Accepted now s addr) l'')"
proof -
  note r = serving_run [OF assms]
  then have "served acts = tn_ready l @ tn_finished l" if "tn_finished l' = []" "tn_ready l' = []" using that by simp
  with serving_enabled [of l'] have "(\<exists>a l''. serving a \<and> tls_step l' a l'') \<or> served acts = tn_ready l @ tn_finished l" by blast
  moreover have "length acts \<le> backlog l" using r by linarith
  moreover have "\<exists>l''. tls_step l' (Accepted now s addr) l''" by (rule exI) (rule tls_step.accept)
  ultimately show ?thesis using r by (simp add: backlog_def)
qed

theorem tls_listener_never_stalls_witness:
  "\<exists>l'. tls_run \<lparr>tn_local_addr = ''l'', tn_handshakes = [(1 :: nat, ''a'', 7)], tn_finished = [], tn_ready = [(20 :: nat, ''b'')]\<rparr> [Taken 20 ''b''] l' \<and>
     tn_handshakes l' = [(1, ''a'', 7)] \<and> served [Taken 20 ''b'' :: (nat, nat) tls_action] = [(20, ''b'')]"
proof -
  let ?l = "\<lparr>tn_local_addr = ''l'', tn_handshakes = [(1 :: nat, ''a'', 7)], tn_finished = [], tn_ready = [(20 :: nat, ''b'')]\<rparr>"
  have "tls_run ?l ([] @ [Taken 20 ''b'']) (?l\<lparr>tn_ready := []\<rparr>)"
    by (rule tls_run.and_then [OF tls_run.here]) (rule tls_step.taken, simp)
  then have run: "tls_run ?l [Taken 20 ''b''] (?l\<lparr>tn_ready := []\<rparr>)" by simp
  have "list_all serving [Taken 20 ''b'' :: (nat, nat) tls_action]" by simp
  from tls_listener_never_stalls [OF run this] run show ?thesis by auto
qed

text \<open>The http-01 responder answers the certificate authority: when the authorizations of an order have been worked through with distinct tokens, it
  answers the token of every pending challenge with exactly its key authorization and any other with 404; once it is
  dropped nobody answers.\<close>

theorem http01_challenges_answered:
  assumes "authorize e a auths w = Some (Inr (), w')" "tl_method a = Http01" "aw_tokens w = []"
    and "distinct (map fst (pending_challenges a auths))"
  shows "(\<forall>(token, ka) \<in> set (pending_challenges a auths). http01_answer \<lparr>hr_tokens = aw_tokens w', hr_listening = True\<rparr> token = Some (200, ka))
    \<and> (\<forall>token. token \<notin> fst ` set (pending_challenges a auths) \<longrightarrow>
         http01_answer \<lparr>hr_tokens = aw_tokens w', hr_listening = True\<rparr> token = Some (404, ''not found''))
    \<and> http01_answer (http01_drop r) token = None"
proof -
  have m: "map_of (aw_tokens w') = map_of (rev (pending_challenges a auths))"
    using authorize_tokens [OF assms(1,2)] assms(3) by simp
  have "map_of (rev (pending_challenges a auths)) token = Some ka" if "(token, ka) \<in> set (pending_challenges a auths)" for token ka
    using that assms(4) by (intro map_of_is_SomeI) (simp_all add: rev_map [symmetric])
  moreover have "map_of (rev (pending_challenges a auths)) token = None" if "token \<notin> fst ` set (pending_challenges a auths)" for token
    using that by (simp add: map_of_eq_None_iff)
  ultimately show ?thesis by (auto simp: http01_answer_def http01_drop_def m)
qed

definition two_challenges :: "(string + authorization) list" where
  "two_challenges = map (\<lambda>t. Inr \<lparr>az_status = AuthPending, az_domain = t, az_challenge = (\<lambda>m. Some
     \<lparr>ch_token = t, ch_key_authorization = t @ ''.k'', ch_dns_value = [], ch_ready = None\<rparr>)\<rparr>) [''t1'', ''t2'']"

definition http_args :: tls_args where
  "http_args = sample_tls\<lparr>tl_method := Http01\<rparr>"

theorem http01_challenges_answered_witness:
  "\<exists>w'. authorize sample_acme http_args two_challenges \<lparr>aw_hook_calls = [], aw_cleanups = [], aw_tokens = [], aw_cache = empty_acme_cache\<rparr> = Some (Inr (), w') \<and>
     http01_answer \<lparr>hr_tokens = aw_tokens w', hr_listening = True\<rparr> ''t2'' = Some (200, ''t2.k'')"
proof -
  let ?w = "\<lparr>aw_hook_calls = [], aw_cleanups = [], aw_tokens = [], aw_cache = empty_acme_cache\<rparr>"
  obtain w' where run: "authorize sample_acme http_args two_challenges ?w = Some (Inr (), w')"
    by (simp add: two_challenges_def http_args_def present_def and_then_def)
  have "tl_method http_args = Http01" "aw_tokens ?w = []" "pending_challenges http_args two_challenges = [(''t1'', ''t1.k''), (''t2'', ''t2.k'')]"
    by (simp_all add: http_args_def two_challenges_def pending_challenges_def map_filter_simps)
  with http01_challenges_answered [OF run] run show ?thesis by simp
qed

end
