(* ===== verification/Watch_Sources.thy ===== *)
theory Watch_Sources
  imports Watchers
begin

text \<open>
  The sources of the watchers (src/src/watchers): how the MQTT client is set up and what its
  event loop passes on, the callback of the file watcher, the sessions of the IMAP watcher, and
  all of them behind the debouncer. The broker, notify, the mailbox and the file system are
  inputs; the channel between a source and the debouncer keeps the order.
\<close>

section \<open>MQTT (watchers/mqtt.rs)\<close>

record mqtt_args =
  mt_broker :: string
  mt_topics :: "string list"
  mt_username :: "string option"
  mt_password :: "string option"
  mt_client_id :: "string option"
  mt_mode :: payload_mode
  mt_attach_dir :: string
  mt_attach_retain :: nat
  mt_tls :: bool
  mt_ca_file :: "string option"

record mqtt_options =
  mo_client_id :: string
  mo_host :: string
  mo_port :: nat
  mo_keep_alive :: nat \<comment> \<open>seconds\<close>
  mo_max_packet :: nat
  mo_credentials :: "(string \<times> string) option"
  mo_ca :: "string option" \<comment> \<open>the certificates trusted, when TLS is used\<close>

text \<open>The certificates of the system come as their base64 texts, with the number of errors.\<close>

definition build_tls_config :: "(string \<Rightarrow> string option) \<Rightarrow> string list \<times> nat \<Rightarrow> string option \<Rightarrow> string + string" where
  "build_tls_config read native ca_file =
     (case ca_file of
        Some path \<Rightarrow> (case read path of None \<Rightarrow> Inl (''read CA file '' @ path) | Some ca \<Rightarrow> Inr ca)
      | None \<Rightarrow>
          if fst native = [] then Inl (''no system CA certificates loaded ('' @ show_nat (snd native) @ '' errors) '' @ em_dash @
            '' pass --ca-file to supply one'')
          else Inr (concat (map pem_of (fst native))))"

definition mqtt_options_of :: "(string \<Rightarrow> string option) \<Rightarrow> string list \<times> nat \<Rightarrow> nat \<Rightarrow> mqtt_args \<Rightarrow> string + mqtt_options" where
  "mqtt_options_of read native pid a =
     (let (host, port) = parse_broker (mt_tls a) (mt_broker a);
          opts = \<lparr>mo_client_id = (case mt_client_id a of Some i \<Rightarrow> i | None \<Rightarrow> ''claude-server-'' @ show_nat pid),
            mo_host = host, mo_port = port, mo_keep_alive = 30, mo_max_packet = 10 * 1024 * 1024,
            mo_credentials = (case (mt_username a, mt_password a) of (Some u, Some p) \<Rightarrow> Some (u, p) | _ \<Rightarrow> None),
            mo_ca = None\<rparr>
      in if mt_tls a then map_sum id (\<lambda>ca. opts\<lparr>mo_ca := Some ca\<rparr>) (build_tls_config read native (mt_ca_file a))
         else Inr opts)"

text \<open>The subscriptions, in order, up to the first that fails; then the directory is made.\<close>

fun subscribe_all :: "(string \<Rightarrow> bool) \<Rightarrow> string list \<Rightarrow> string + unit" where
  "subscribe_all sub [] = Inr ()"
| "subscribe_all sub (t # ts) = (if sub t then subscribe_all sub ts else Inl (''subscribing to '' @ t))"

definition mqtt_start ::
  "(string \<Rightarrow> string option) \<Rightarrow> string list \<times> nat \<Rightarrow> nat \<Rightarrow> (string \<Rightarrow> bool) \<Rightarrow> (string \<Rightarrow> bool) \<Rightarrow> mqtt_args \<Rightarrow> string + mqtt_options" where
  "mqtt_start read native pid sub mkdir a =
     (case mqtt_options_of read native pid a of
        Inl err \<Rightarrow> Inl err
      | Inr opts \<Rightarrow>
     (case subscribe_all sub (mt_topics a) of
        Inl err \<Rightarrow> Inl err
      | Inr _ \<Rightarrow>
          if mt_mode a \<noteq> Text_Mode \<and> \<not> mkdir (mt_attach_dir a) then Inl (''create attach dir '' @ mt_attach_dir a)
          else Inr opts))"

text \<open>What \<open>eventloop.poll()\<close> gives; a message has the name its directory would get.\<close>

datatype mqtt_poll = Publish string string string bool \<comment> \<open>directory name, topic, payload, retain\<close>
  | Conn_Ack | Other_Packet | Poll_Error string

text \<open>The events passed on, and how often it waits five seconds.\<close>

fun mqtt_loop ::
  "mqtt_env \<Rightarrow> payload_mode \<Rightarrow> string \<Rightarrow> nat \<Rightarrow> mqtt_poll list \<Rightarrow> attach_store \<Rightarrow> json list \<times> nat \<times> attach_store" where
  "mqtt_loop e mode dir cap [] st = ([], 0, st)"
| "mqtt_loop e mode dir cap (Publish name topic payload retain # ps) st =
     (case handle_publish e mode dir name topic payload retain cap st of
        (Inl err, st) \<Rightarrow> mqtt_loop e mode dir cap ps st
      | (Inr ev, st) \<Rightarrow> (let (evs, waits, st) = mqtt_loop e mode dir cap ps st in (ev # evs, waits, st)))"
| "mqtt_loop e mode dir cap (Poll_Error err # ps) st =
     (let (evs, waits, st) = mqtt_loop e mode dir cap ps st in (evs, Suc waits, st))"
| "mqtt_loop e mode dir cap (p # ps) st = mqtt_loop e mode dir cap ps st"

section \<open>Files (watchers/fs.rs)\<close>

text \<open>A notification: an error, or the kind with its paths.\<close>

fun fs_callback :: "(string \<Rightarrow> string) \<Rightarrow> string + string \<times> string list \<Rightarrow> json list" where
  "fs_callback lossy (Inr (kind, paths)) = fs_events lossy kind paths"
| "fs_callback lossy (Inl err) = []"

datatype watch_mode = Recursive | Non_Recursive
datatype fs_backend = Native | Polling nat

text \<open>The backend, and the paths watched before the first that cannot be.\<close>

fun watch_paths :: "(string \<Rightarrow> bool) \<Rightarrow> string list \<Rightarrow> string list \<times> (string + unit)" where
  "watch_paths ok [] = ([], Inr ())"
| "watch_paths ok (p # ps) =
     (if ok p then (let (ws, r) = watch_paths ok ps in (p # ws, r)) else ([], Inl (''watching '' @ p)))"

definition fs_start :: "(string \<Rightarrow> bool) \<Rightarrow> bool \<Rightarrow> nat option \<Rightarrow> string list \<Rightarrow> fs_backend \<times> watch_mode \<times> string list \<times> (string + unit)" where
  "fs_start ok recursive poll_interval_ms paths =
     (case poll_interval_ms of Some ms \<Rightarrow> Polling ms | None \<Rightarrow> Native, if recursive then Recursive else Non_Recursive, watch_paths ok paths)"

section \<open>Mail (watchers/imap.rs)\<close>

text \<open>A fetched message: an error of the stream, or its envelope and uid.\<close>

record imap_envelope =
  ie_from :: "mail_address option"
  ie_subject :: "string option"
  ie_uid :: "nat option"

type_synonym imap_message = "string + imap_envelope"

text \<open>A connection: an error before the mailbox is selected, or the number of messages then and, for each wake-up, the
  messages in the mailbox or the error that ended it.\<close>

datatype imap_connection = No_Session string | Session nat "(string + imap_message list) list"

fun fetch_new :: "(string \<Rightarrow> string) \<Rightarrow> string \<Rightarrow> imap_message list \<Rightarrow> json list \<times> string option" where
  "fetch_new lossy folder [] = ([], None)"
| "fetch_new lossy folder (Inl err # ms) = ([], Some err)"
| "fetch_new lossy folder (Inr m # ms) =
     (let (evs, r) = fetch_new lossy folder ms in (mail_event lossy folder (ie_from m) (ie_subject m) (ie_uid m) # evs, r))"

fun idle_wakes :: "(string \<Rightarrow> string) \<Rightarrow> string \<Rightarrow> (string + imap_message list) list \<Rightarrow> nat \<Rightarrow> json list \<times> string option" where
  "idle_wakes lossy folder [] last_seen = ([], None)"
| "idle_wakes lossy folder (Inl err # ws) last_seen = ([], Some err)"
| "idle_wakes lossy folder (Inr mbox # ws) last_seen =
     (let (new, last_seen) = imap_wake mbox last_seen in
      case fetch_new lossy folder new of
        (evs, Some err) \<Rightarrow> (evs, Some err)
      | (evs, None) \<Rightarrow> (let (others, r) = idle_wakes lossy folder ws last_seen in (evs @ others, r)))"

fun idle_once :: "(string \<Rightarrow> string) \<Rightarrow> string \<Rightarrow> imap_connection \<Rightarrow> json list \<times> string option" where
  "idle_once lossy folder (No_Session err) = ([], Some err)"
| "idle_once lossy folder (Session seen ws) = idle_wakes lossy folder ws seen"

text \<open>The reconnect loop: the events and the number of waits of thirty seconds; a session that has not ended is the last.\<close>

fun imap_run :: "(string \<Rightarrow> string) \<Rightarrow> string \<Rightarrow> imap_connection list \<Rightarrow> json list \<times> nat" where
  "imap_run lossy folder [] = ([], 0)"
| "imap_run lossy folder (c # cs) =
     (case idle_once lossy folder c of
        (evs, None) \<Rightarrow> (evs, 0)
      | (evs, Some err) \<Rightarrow> (let (others, waits) = imap_run lossy folder cs in (evs @ others, Suc waits)))"

section \<open>Lemmas\<close>

subsection \<open>Retained attachments\<close>

definition last_n :: "nat \<Rightarrow> 'a list \<Rightarrow> 'a list" where
  "last_n n xs = drop (length xs - n) xs"

lemma last_n_append: "last_n n (last_n n xs @ ys) = last_n n (xs @ ys)"
  by (simp add: last_n_def) (rule arg_cong [where f = "\<lambda>k. drop k xs"], arith)

lemma set_last_n: "set (last_n n xs) \<subseteq> set xs"
  by (simp add: last_n_def set_drop_subset)

lemma last_n_all: "length xs \<le> n \<Longrightarrow> last_n n xs = xs"
  by (simp add: last_n_def)

text \<open>The directories of messages are siblings, so a file is in at most one of them.\<close>

definition siblings :: "string \<Rightarrow> string list \<Rightarrow> bool" where
  "siblings base ds \<longleftrightarrow> (\<forall>d \<in> set ds. \<exists>n. d = path_join base n \<and> n \<noteq> [] \<and> CHR ''/'' \<notin> set n)"

lemma siblings_subset: "\<lbrakk>siblings base ds; set ds' \<subseteq> set ds\<rbrakk> \<Longrightarrow> siblings base ds'"
  unfolding siblings_def by (rule ballI, drule subsetD) (assumption, blast)

lemma siblings_apart:
  assumes "siblings base ds" "d \<in> set ds" "d' \<in> set ds" "file_dir d p" "file_dir d' p"
  shows "d = d'"
proof -
  obtain n n' where n: "d = path_join base n" "d' = path_join base n'" "CHR ''/'' \<notin> set n" "CHR ''/'' \<notin> set n'"
    using assms(1,2,3) unfolding siblings_def by metis
  obtain b where b: "d = b @ n" "d' = b @ n'" unfolding n(1,2) path_join_def by (metis append.assoc)
  obtain x where "p = d @ ''/'' @ x" using assms(4) by (auto simp: file_dir_def starts_with_iff)
  moreover obtain y where "p = d' @ ''/'' @ y" using assms(5) by (auto simp: file_dir_def starts_with_iff)
  ultimately have e0: "d @ ''/'' @ x = d' @ ''/'' @ y" by simp
  with b e0 have e: "n @ CHR ''/'' # x = n' @ CHR ''/'' # y" by simp
  have "takeWhile (\<lambda>c. c \<noteq> CHR ''/'') (n @ CHR ''/'' # x) = n" "takeWhile (\<lambda>c. c \<noteq> CHR ''/'') (n' @ CHR ''/'' # y) = n'"
    using n(3,4) by (auto simp: takeWhile_tail)
  with e b show ?thesis by simp
qed

lemma drop_oldest_keeps:
  assumes "siblings base ds" "p \<in> fst ` set (at_files st)" "d \<in> set (last_n cap ds)" "file_dir d p" "distinct ds"
  shows "p \<in> fst ` set (at_files (drop_oldest cap ds st))"
  using assms
proof (induction cap ds st rule: drop_oldest.induct)
  case (2 cap d0 ds st)
  show ?case
  proof (cases "length (d0 # ds) > cap")
    case True
    then have l: "last_n cap (d0 # ds) = last_n cap ds" by (simp add: last_n_def Suc_diff_le)
    then have d: "d \<in> set ds" "d \<noteq> d0" using 2(4,6) set_last_n [of cap ds] by auto
    with siblings_apart [OF 2(2), of d d0 p] 2(5) have "\<not> file_dir d0 p" by auto
    then have "p \<in> fst ` set (at_files (remove_dir_all d0 st))" using 2(3) by (simp add: remove_dir_files)
    moreover have "siblings base ds" using 2(2) by (simp add: siblings_def)
    ultimately show ?thesis using 2(1) [OF True] 2(4,5,6) True l by simp
  next
    case False
    with 2(3) show ?thesis by auto
  qed
qed (simp add: last_n_def)

fun makes_dir :: "mqtt_env \<Rightarrow> payload_mode \<Rightarrow> string \<Rightarrow> bool" where
  "makes_dir e Text_Mode payload = False"
| "makes_dir e Raw payload = True"
| "makes_dir e Structured payload =
     (\<exists>a atts. Option.bind (Option.bind (mq_json e payload) (json_get ''attachments'')) as_arr = Some (a # atts))"

definition dirs_of :: "mqtt_env \<Rightarrow> payload_mode \<Rightarrow> string \<Rightarrow> string \<Rightarrow> string \<Rightarrow> string list" where
  "dirs_of e mode base name payload = (if makes_dir e mode payload then [path_join base name] else [])"

definition reported :: "json \<Rightarrow> string list" where
  "reported ev = (case Option.bind (json_get ''attachments'' ev) as_arr of Some xs \<Rightarrow> List.map_filter as_str xs | None \<Rightarrow> [])"

lemma map_filter_strings: "List.map_filter as_str (map JStr ps) = ps"
  by (induction ps) (simp_all add: map_filter_simps)

lemma new_dir_keeps:
  assumes "new_msg_dir base name cap st = (dir, st')" "siblings base (at_retained st)" "name \<noteq> []" "CHR ''/'' \<notin> set name"
    "path_join base name \<notin> set (at_retained st)" "store_ok st" "p \<in> fst ` set (at_files st)"
    "d \<in> set (at_retained st')" "file_dir d p"
  shows "p \<in> fst ` set (at_files st')"
proof -
  let ?st = "st\<lparr>at_dirs := List.insert dir (at_dirs st)\<rparr>"
  have d: "dir = path_join base name" "st' = drop_oldest cap (at_retained st @ [dir]) ?st"
    using assms(1) by (auto simp: new_msg_dir_def Let_def)
  have "d \<in> set (last_n cap (at_retained st @ [dir]))"
    using new_msg_dir_store [OF assms(6,5,1)] assms(8) by (simp add: last_n_def)
  moreover have "siblings base (at_retained st @ [dir])" using assms(2,3,4) d(1) by (auto simp: siblings_def)
  moreover have "distinct (at_retained st @ [dir])" using assms(5,6) d(1) by (simp add: store_ok_def)
  ultimately show ?thesis using drop_oldest_keeps [of base "at_retained st @ [dir]" p ?st d cap] assms(7,9) d(2) by simp
qed

lemma publish_retains:
  assumes "handle_publish e mode base name topic payload retain cap st = (r, st')"
    and "store_ok st" "siblings base (at_retained st)" "length (at_retained st) \<le> cap"
    and "name \<noteq> []" "CHR ''/'' \<notin> set name" "distinct (at_retained st @ dirs_of e mode base name payload)"
  shows "store_ok st' \<and> at_retained st' = last_n cap (at_retained st @ dirs_of e mode base name payload) \<and>
     (\<forall>p \<in> fst ` set (at_files st). \<forall>d \<in> set (at_retained st'). file_dir d p \<longrightarrow> p \<in> fst ` set (at_files st')) \<and>
     (\<forall>ev. r = Inr ev \<longrightarrow> (\<forall>p \<in> set (reported ev). p \<in> fst ` set (at_files st') \<and>
        (\<exists>d \<in> set (dirs_of e mode base name payload). \<exists>n. p = d @ ''/'' @ n)))"
proof (cases "makes_dir e mode payload")
  case False
  then have "st' = st" "\<forall>ev. r = Inr ev \<longrightarrow> reported ev = []"
    using assms(1) by (cases mode; auto simp: handle_publish_def Let_def reported_def map_filter_simps split: option.splits list.splits)+
  with assms(2,4) False show ?thesis by (simp add: dirs_of_def last_n_all)
next
  case True
  obtain dir st1 where d: "new_msg_dir base name cap st = (dir, st1)" by fastforce
  have new: "path_join base name \<notin> set (at_retained st)" using assms(7) True by (simp add: dirs_of_def)
  note s1 = new_msg_dir_store [OF assms(2) new d]
  note keep = new_dir_keeps [OF d assms(3,5,6) new assms(2)]
  have nsep: "last name \<noteq> CHR ''/''" using last_in_set [OF assms(5)] assms(6) by metis
  have dirs: "dirs_of e mode base name payload = [dir]" "dir \<noteq> []" "last dir \<noteq> CHR ''/''"
    using s1 True assms(5) nsep by (auto simp: dirs_of_def path_join_def)
  have kept: "\<forall>p \<in> fst ` set (at_files st). \<forall>d \<in> set (at_retained st2). file_dir d p \<longrightarrow> p \<in> fst ` set (at_files st2)"
    if "at_retained st2 = at_retained st1" "fst ` set (at_files st1) \<subseteq> fst ` set (at_files st2)" for st2
  proof (intro ballI impI)
    fix p d assume p: "p \<in> fst ` set (at_files st)" "d \<in> set (at_retained st2)" "file_dir d p"
    from keep [OF p(1) p(2) [unfolded that(1)] p(3)] that(2) show "p \<in> fst ` set (at_files st2)" by (rule rev_subsetD)
  qed
  from s1 dirs(1) have ret: "at_retained st1 = last_n cap (at_retained st @ dirs_of e mode base name payload)" by (simp add: last_n_def)
  from True consider "mode = Raw" | parsed a atts where "mode = Structured" "mq_json e payload = Some parsed"
      "Option.bind (json_get ''attachments'' parsed) as_arr = Some (a # atts)"
    by (cases mode) (auto simp: bind_eq_Some_conv)
  then show ?thesis
  proof cases
    case 1
    obtain r2 st2 where w: "write_attachment dir (slug (mq_alnum e) topic @ ''.bin'') payload st1 = (r2, st2)" by fastforce
    note s2 = write_store [OF conjunct1 [OF s1] w dirs(2,3)]
    have st': "st' = st2" "\<forall>ev. r = Inr ev \<longrightarrow> (\<exists>path. r2 = Inr path \<and> reported ev = [path])"
      using assms(1) 1 d w by (auto simp: handle_publish_def reported_def map_filter_simps split: sum.splits)
    have "at_retained st' = at_retained st1" "fst ` set (at_files st1) \<subseteq> fst ` set (at_files st')" using s2 st'(1) by auto
    then have "\<forall>p \<in> fst ` set (at_files st). \<forall>d \<in> set (at_retained st'). file_dir d p \<longrightarrow> p \<in> fst ` set (at_files st')"
      by (rule kept)
    with s2 st' dirs(1) ret show ?thesis by auto
  next
    case 2
    obtain r2 st2 where w: "write_attachments e dir 0 (a # atts) st1 = (r2, st2)" by fastforce
    note s2 = writes_store [OF w conjunct1 [OF s1] dirs(2,3)]
    have st': "st' = st2" "\<forall>ev. r = Inr ev \<longrightarrow> (\<exists>paths. r2 = Inr paths \<and> reported ev = paths)"
      using assms(1) 2 d w by (auto simp: handle_publish_def reported_def Let_def map_filter_strings split: sum.splits)
    have "at_retained st' = at_retained st1" "fst ` set (at_files st1) \<subseteq> fst ` set (at_files st')" using s2 st'(1) by auto
    then have "\<forall>p \<in> fst ` set (at_files st). \<forall>d \<in> set (at_retained st'). file_dir d p \<longrightarrow> p \<in> fst ` set (at_files st')"
      by (rule kept)
    with s2 st' dirs(1) ret show ?thesis by fastforce
  qed
qed

definition msg_dirs :: "mqtt_env \<Rightarrow> payload_mode \<Rightarrow> string \<Rightarrow> mqtt_poll list \<Rightarrow> string list" where
  "msg_dirs e mode base ps =
     concat (map (\<lambda>p. case p of Publish name topic payload retain \<Rightarrow> dirs_of e mode base name payload | _ \<Rightarrow> []) ps)"

definition plain_names :: "mqtt_poll list \<Rightarrow> bool" where
  "plain_names ps \<longleftrightarrow> (\<forall>name topic payload retain. Publish name topic payload retain \<in> set ps \<longrightarrow> name \<noteq> [] \<and> CHR ''/'' \<notin> set name)"

text \<open>The events of a run, and what became of the store.\<close>

definition retains :: "nat \<Rightarrow> string list \<Rightarrow> attach_store \<Rightarrow> json list \<Rightarrow> attach_store \<Rightarrow> bool" where
  "retains cap ds st evs st' \<longleftrightarrow> store_ok st' \<and> at_retained st' = last_n cap (at_retained st @ ds) \<and>
     (\<forall>p \<in> fst ` set (at_files st). \<forall>d \<in> set (at_retained st'). file_dir d p \<longrightarrow> p \<in> fst ` set (at_files st')) \<and>
     (\<forall>ev \<in> set evs. \<forall>p \<in> set (reported ev). (\<exists>d \<in> set ds. \<exists>n. p = d @ ''/'' @ n) \<and>
        ((\<exists>d \<in> set (at_retained st'). file_dir d p) \<longrightarrow> p \<in> fst ` set (at_files st')))"

lemma retains_comp:
  assumes "retains cap ds st evs st1" "retains cap ds' st1 evs' st'" "distinct (at_retained st @ ds @ ds')"
    "siblings base (at_retained st @ ds @ ds')" "store_ok st"
  shows "retains cap (ds @ ds') st (evs @ evs') st'"
proof -
  have ret: "at_retained st' = last_n cap (at_retained st @ ds @ ds')"
    using assms(1,2) by (simp add: retains_def last_n_append)
  have mid: "at_retained st1 = last_n cap (at_retained st @ ds)" using assms(1) by (simp add: retains_def)
  have split: "last_n cap (at_retained st @ ds @ ds') = drop (length (at_retained st @ ds @ ds') - cap) (at_retained st @ ds) @
      drop (length (at_retained st @ ds @ ds') - cap - length (at_retained st @ ds)) ds'"
    by (simp add: last_n_def)
  text \<open>a directory of the first part still retained in the end was retained in between\<close>
  have between: "d \<in> set (at_retained st1)" if "d \<in> set (at_retained st @ ds)" "d \<in> set (at_retained st')" for d
  proof -
    have "d \<notin> set ds'" using that(1) assms(3) by auto
    with that(2) have "d \<in> set (drop (length (at_retained st @ ds @ ds') - cap) (at_retained st @ ds))"
      unfolding ret split using set_drop_subset [of _ ds'] by auto
    also have "\<dots> \<subseteq> set (drop (length (at_retained st @ ds) - cap) (at_retained st @ ds))"
      by (rule set_drop_subset_set_drop) simp
    finally show ?thesis unfolding mid last_n_def .
  qed
  have unique: "d = d'" if "d \<in> set (at_retained st @ ds @ ds')" "d' \<in> set (at_retained st @ ds @ ds')" "file_dir d p" "file_dir d' p" for d d' p
    by (rule siblings_apart [OF assms(4) that])
  have in_all: "d \<in> set (at_retained st @ ds @ ds')" if "d \<in> set (at_retained st')" for d
    using that unfolding ret by (rule subsetD [OF set_last_n])
  have kept: "p \<in> fst ` set (at_files st')"
    if "p \<in> fst ` set (at_files st1)" "d \<in> set (at_retained st')" "file_dir d p" for p d
    using assms(2) that unfolding retains_def by blast
  have old: "p \<in> fst ` set (at_files st')" if p: "p \<in> fst ` set (at_files st)" "d \<in> set (at_retained st')" "file_dir d p" for p d
  proof -
    obtain d0 where "d0 \<in> set (at_retained st)" "file_dir d0 p" using assms(5) p(1) by (auto simp: store_ok_def)
    with unique [of d d0 p] in_all p have "d \<in> set (at_retained st)" by auto
    with between p(2) have "d \<in> set (at_retained st1)" by simp
    with assms(1) p have "p \<in> fst ` set (at_files st1)" unfolding retains_def by blast
    with kept p show ?thesis by blast
  qed
  have first: "(\<exists>d \<in> set (ds @ ds'). \<exists>n. p = d @ ''/'' @ n) \<and>
      ((\<exists>d \<in> set (at_retained st'). file_dir d p) \<longrightarrow> p \<in> fst ` set (at_files st'))" if ev: "ev \<in> set evs" "p \<in> set (reported ev)" for ev p
  proof -
    obtain d0 n where d0: "d0 \<in> set ds" "p = d0 @ ''/'' @ n" using assms(1) ev unfolding retains_def by blast
    then have f0: "file_dir d0 p" by (simp add: file_dir_def starts_with_iff)
    have "p \<in> fst ` set (at_files st')" if d: "d \<in> set (at_retained st')" "file_dir d p" for d
    proof -
      have "d = d0" using unique [of d d0 p] in_all d f0 d0(1) by simp
      with between d(1) d0(1) have "d \<in> set (at_retained st1)" by simp
      with assms(1) ev d(2) have "p \<in> fst ` set (at_files st1)" unfolding retains_def by blast
      with kept d show ?thesis by blast
    qed
    with d0 show ?thesis by auto
  qed
  have second: "(\<exists>d \<in> set (ds @ ds'). \<exists>n. p = d @ ''/'' @ n) \<and>
      ((\<exists>d \<in> set (at_retained st'). file_dir d p) \<longrightarrow> p \<in> fst ` set (at_files st'))" if "ev \<in> set evs'" "p \<in> set (reported ev)" for ev p
    using assms(2) that unfolding retains_def by fastforce
  show ?thesis unfolding retains_def
  proof (intro conjI ballI impI)
    show "store_ok st'" using assms(2) by (simp add: retains_def)
    show "at_retained st' = last_n cap (at_retained st @ ds @ ds')" by (rule ret)
  next
    fix p d assume "p \<in> fst ` set (at_files st)" "d \<in> set (at_retained st')" "file_dir d p"
    then show "p \<in> fst ` set (at_files st')" by (rule old)
  next
    fix ev p assume ev: "ev \<in> set (evs @ evs')" "p \<in> set (reported ev)"
    then have b: "(\<exists>d \<in> set (ds @ ds'). \<exists>n. p = d @ ''/'' @ n) \<and>
        ((\<exists>d \<in> set (at_retained st'). file_dir d p) \<longrightarrow> p \<in> fst ` set (at_files st'))"
      by (cases "ev \<in> set evs") (rule first, assumption+, rule second, simp_all)
    then show "\<exists>d \<in> set (ds @ ds'). \<exists>n. p = d @ ''/'' @ n" by (rule conjunct1)
    assume "\<exists>d \<in> set (at_retained st'). file_dir d p"
    with b show "p \<in> fst ` set (at_files st')" by (rule conjunct2 [THEN mp])
  qed
qed

lemma siblings_dirs: "plain_names ps \<Longrightarrow> siblings base (msg_dirs e mode base ps)"
  unfolding siblings_def msg_dirs_def plain_names_def dirs_of_def by (fastforce split: mqtt_poll.splits if_splits)

lemma mqtt_loop_retains:
  assumes "mqtt_loop e mode base cap ps st = (evs, waits, st')" "store_ok st" "siblings base (at_retained st)"
    "length (at_retained st) \<le> cap" "plain_names ps" "distinct (at_retained st @ msg_dirs e mode base ps)"
  shows "retains cap (msg_dirs e mode base ps) st evs st'"
  using assms
proof (induction ps arbitrary: st evs waits st')
  case Nil
  then show ?case by (simp add: msg_dirs_def retains_def last_n_all)
next
  case (Cons x ps)
  have names: "plain_names ps" using Cons.prems(5) by (auto simp: plain_names_def)
  show ?case
  proof (cases "\<exists>name topic payload retain. x = Publish name topic payload retain")
    case False
    then have m: "msg_dirs e mode base (x # ps) = msg_dirs e mode base ps" by (cases x) (auto simp: msg_dirs_def)
    obtain waits' where "mqtt_loop e mode base cap ps st = (evs, waits', st')"
      using Cons.prems(1) False by (cases x) (auto split: prod.splits)
    with Cons.IH [OF this] Cons.prems(2-6) names m show ?thesis by simp
  next
    case True
    then obtain name topic payload retain where x: "x = Publish name topic payload retain" by blast
    let ?ds = "dirs_of e mode base name payload" and ?ds' = "msg_dirs e mode base ps"
    have m: "msg_dirs e mode base (x # ps) = ?ds @ ?ds'" by (simp add: msg_dirs_def x)
    have n: "name \<noteq> []" "CHR ''/'' \<notin> set name" using Cons.prems(5) by (auto simp: plain_names_def x)
    have dist: "distinct (at_retained st @ ?ds @ ?ds')" using Cons.prems(6) unfolding m .
    obtain r st1 where h: "handle_publish e mode base name topic payload retain cap st = (r, st1)" by fastforce
    obtain evs' waits' where l: "mqtt_loop e mode base cap ps st1 = (evs', waits', st')"
      "evs = (case r of Inl _ \<Rightarrow> [] | Inr ev \<Rightarrow> [ev]) @ evs'"
      using Cons.prems(1) h x by (auto split: sum.splits prod.splits)
    from dist have "distinct (at_retained st @ ?ds)" by (simp add: Int_Un_distrib)
    note pr = publish_retains [OF h Cons.prems(2-4) n this]
    then have r1: "retains cap ?ds st (case r of Inl _ \<Rightarrow> [] | Inr ev \<Rightarrow> [ev]) st1"
      unfolding retains_def by (cases r) auto
    have "siblings base (msg_dirs e mode base (x # ps))" using siblings_dirs Cons.prems(5) by blast
    with Cons.prems(3) have sib: "siblings base (at_retained st @ ?ds @ ?ds')" unfolding m siblings_def by auto
    have sub: "set (at_retained st1) \<subseteq> set (at_retained st @ ?ds)" using pr set_last_n by metis
    have "siblings base (at_retained st1)" by (rule siblings_subset [OF sib]) (use sub in auto)
    moreover have "length (at_retained st1) \<le> cap" using pr by (simp add: last_n_def)
    moreover have "distinct (at_retained st1 @ ?ds')"
    proof -
      have "store_ok st1" using pr by (rule conjunct1)
      then have "distinct (at_retained st1)" by (simp only: store_ok_def)
      moreover have "set (at_retained st1) \<inter> set ?ds' = {}" using sub dist by auto
      ultimately show ?thesis using dist by simp
    qed
    ultimately have "retains cap ?ds' st1 evs' st'" using Cons.IH [OF l(1)] pr names by blast
    from retains_comp [OF r1 this dist sib Cons.prems(2)] show ?thesis unfolding m l(2) .
  qed
qed

section \<open>Properties\<close>


definition raw_polls :: "mqtt_poll list" where
  "raw_polls = [Conn_Ack, Publish ''01'' ''a'' ''x'' False, Poll_Error ''e'', Publish ''02'' ''b'' ''yz'' False]"

lemma raw_run:
  "mqtt_loop sample_mqtt Raw ''/d'' 1 raw_polls empty_store =
     ([JObj [(''topic'', JStr ''a''), (''attachments'', JArr [JStr ''/d/01/a.bin'']), (''size'', JInt 1), (''retain'', JBool False)],
       JObj [(''topic'', JStr ''b''), (''attachments'', JArr [JStr ''/d/02/b.bin'']), (''size'', JInt 2), (''retain'', JBool False)]],
      1, \<lparr>at_retained = [''/d/02''], at_dirs = [''/d/02''], at_files = [(''/d/02/b.bin'', ''yz'')]\<rparr>)"
  by code_simp


text \<open>In text mode nothing fails: every message published becomes an event.\<close>

lemma mqtt_text_events:
  "fst (mqtt_loop e Text_Mode dir cap ps st) = List.map_filter (\<lambda>p. case p of
     Publish name topic payload retain \<Rightarrow>
       Some (JObj [(''topic'', JStr topic), (''payload'', JStr (mq_lossy e payload)), (''retain'', JBool retain)])
   | _ \<Rightarrow> None) ps"
  by (induction ps) (auto simp: map_filter_simps handle_publish_def split: mqtt_poll.split prod.splits)

text \<open>A session of the IMAP watcher that fails while fetching does not come back to what it had not passed on: the next one starts with
  the messages there are then.\<close>

lemma failed_fetch_lost:
  "fst (imap_run lossy folder [Session 0 [Inr [Inl ''e'', Inr m]], Session 2 [Inr [Inr x, Inr m]]]) = []"
  by (simp add: imap_wake_def)

end
