(* ===== verification/Bridge_Sessions.thy ===== *)
theory Bridge_Sessions
  imports Chat_Services Mail_Bridge
begin

text \<open>
  The bridges around their connections (src/src/bridges): how a session is opened, the loops that
  open the next one after an error, and the reader of each bridge as a whole, up to the relay. What a
  service answers is an input: of a request \<open>None\<close> is a failure of the transport or a body that is
  no JSON. The relay closes the channel when it returns.
\<close>

section \<open>Reconnecting\<close>

text \<open>\<open>session\<close> gives what a connection passes on and how it ended, \<open>None\<close> of it a panic. A connection comes with
  whether the channel is closed when it has ended. The result: the messages, the seconds waited,
  whether the task has returned.\<close>

fun reconnect :: "nat \<Rightarrow> ('i \<Rightarrow> (inbound list \<times> loop_end) option) \<Rightarrow> ('i \<times> bool) list \<Rightarrow> (inbound list \<times> nat \<times> bool) option" where
  "reconnect delay session [] = Some ([], 0, False)"
| "reconnect delay session ((i, closed) # cs) =
     (case session i of
        None \<Rightarrow> None
      | Some (msgs, None) \<Rightarrow> Some (msgs, 0, False)
      | Some (msgs, Some r) \<Rightarrow>
          let waited = (case r of Inl _ \<Rightarrow> delay | Inr _ \<Rightarrow> 0)
          in if closed then Some (msgs, waited, True)
             else map_option (\<lambda>(others, secs, returned). (msgs @ others, waited + secs, returned)) (reconnect delay session cs))"

section \<open>Slack\<close>

record slack_connection =
  sl_open :: "json option" \<comment> \<open>the answer of \<open>apps.connections.open\<close>\<close>
  sl_connect :: "string \<Rightarrow> bool"
  sl_reads :: "ws_msg list"
  sl_writes :: "ws_sent list \<Rightarrow> bool"

definition slack_session :: "(string \<Rightarrow> json option) \<Rightarrow> string list \<Rightarrow> slack_connection \<Rightarrow> (inbound list \<times> loop_end) option" where
  "slack_session parse allow c = Some
     (case sl_open c of
        None \<Rightarrow> ([], Some (Inl ''transport''))
      | Some v \<Rightarrow>
          if as_bool (json_at ''ok'' v) \<noteq> Some True
          then ([], Some (Inl (''apps.connections.open failed: '' @ (case as_str (json_at ''error'' v) of Some e \<Rightarrow> e | None \<Rightarrow> ''?''))))
          else (case as_str (json_at ''url'' v) of
              None \<Rightarrow> ([], Some (Inl ''no WSS url in response''))
            | Some url \<Rightarrow>
                if sl_connect c url then snd (socket_mode_loop parse (sl_writes c) allow (sl_reads c) [])
                else ([], Some (Inl ''websocket connect''))))"

section \<open>Discord\<close>

record discord_connection =
  di_gateway :: "json option"
  di_connect :: "string \<Rightarrow> bool"
  di_branches :: "gateway_branch list"
  di_writes :: "ws_sent list \<Rightarrow> bool"

definition discord_session ::
  "(string \<Rightarrow> json option) \<Rightarrow> string \<Rightarrow> string list \<Rightarrow> discord_connection \<Rightarrow> (inbound list \<times> loop_end) option" where
  "discord_session parse token allow c =
     (case di_gateway c of
        None \<Rightarrow> Some ([], Some (Inl ''transport''))
      | Some v \<Rightarrow>
          (case as_str (json_at ''url'' v) of
             None \<Rightarrow> Some ([], Some (Inl ''no gateway url''))
           | Some url \<Rightarrow>
               if di_connect c (url @ ''/?v=10&encoding=json'')
               then map_option snd (gateway_loop parse (di_writes c) token allow (di_branches c) (gateway_new, []))
               else Some ([], Some (Inl ''gateway connect''))))"

section \<open>Email\<close>

datatype mail_connection = No_Mailbox string | Mailbox "mail list" "mail list list"

fun email_session :: "mail_env \<Rightarrow> mime \<Rightarrow> string list \<Rightarrow> string \<Rightarrow> mail_connection \<Rightarrow> (inbound list \<times> loop_end) option" where
  "email_session e mime peers attach_dir (No_Mailbox err) = Some ([], Some (Inl err))"
| "email_session e mime peers attach_dir (Mailbox selected mboxes) =
     (case imap_loop e mime peers attach_dir mboxes (length selected) of
        (msgs, files, err) \<Rightarrow> Some (msgs, map_option Inl err))"

section \<open>Telegram\<close>

datatype telegram_answer = Poll_Failed | Not_Json | Answer json

text \<open>The long poll: each answer belongs to a request with the offset so far; a failed request is followed by five seconds.\<close>

fun telegram_reader :: "int list \<Rightarrow> telegram_answer list \<Rightarrow> int \<Rightarrow> int \<times> inbound list \<times> nat" where
  "telegram_reader allow [] offset = (offset, [], 0)"
| "telegram_reader allow (Poll_Failed # as) offset =
     (let (offset, msgs, secs) = telegram_reader allow as offset in (offset, msgs, 5 + secs))"
| "telegram_reader allow (Not_Json # as) offset = telegram_reader allow as offset"
| "telegram_reader allow (Answer resp # as) offset =
     (let (offset, msgs) = telegram_poll allow resp offset;
          (offset, others, secs) = telegram_reader allow as offset
      in (offset, msgs @ others, secs))"

definition telegram_url :: "string \<Rightarrow> int \<Rightarrow> string" where
  "telegram_url token offset =
     ''https://api.telegram.org/bot'' @ token @ ''/getUpdates?offset='' @ show_int offset @ ''&timeout=30''"

section \<open>Signal\<close>

text \<open>What has to be there before the bridge starts: signal-cli, whose \<open>--version\<close> succeeds, and its process.\<close>

definition signal_check :: "string \<Rightarrow> (bool \<times> string) option \<Rightarrow> string option \<Rightarrow> string + unit" where
  "signal_check signal_cli ver spawned =
     (case ver of
        None \<Rightarrow> Inl (''Failed to run '' @ signal_cli @ '' --version. Install signal-cli and link an account first:'' @ nl # ''  '' @ signal_cli @ '' link -n claude-server'')
      | Some (False, err) \<Rightarrow> Inl (signal_cli @ '' --version failed: '' @ err)
      | Some (True, _) \<Rightarrow> (case spawned of Some err \<Rightarrow> Inl (''spawning signal-cli jsonRpc daemon: '' @ err) | None \<Rightarrow> Inr ()))"

definition signal_attach_dir :: "string option \<Rightarrow> string option \<Rightarrow> string" where
  "signal_attach_dir xdg_data_home home =
     (case xdg_data_home of
        Some d \<Rightarrow> d @ ''/signal-cli/attachments''
      | None \<Rightarrow> (case home of Some h \<Rightarrow> h @ ''/.local/share/signal-cli/attachments'' | None \<Rightarrow> ''~/.local/share/signal-cli/attachments''))"

definition signal_reader :: "(string \<Rightarrow> json option) \<Rightarrow> string list \<Rightarrow> string \<Rightarrow> string list \<Rightarrow> inbound list" where
  "signal_reader parse allow attach_dir ls = List.map_filter (signal_line parse allow attach_dir) ls"

section \<open>What every bridge promises of its messages\<close>

text \<open>A message is in the name space of its bridge: the chat can be reached once the bridge has subscribed, its stream
  passes what is sent there, and the bridge does not refuse it.\<close>

definition answerable :: "string \<Rightarrow> inbound \<Rightarrow> bool" where
  "answerable prefix m \<longleftrightarrow>
     (\<forall>r. would_reach (in_chat_id m) (snd (subs_register (prefix @ ''*'') r))) \<and> sse_passes (prefix @ ''*'') (in_chat_id m) \<and>
     strip_prefix prefix (in_chat_id m) \<noteq> None"

lemma count_up_key: "key \<in> fst ` set (count_up key m)"
  by (simp add: count_up_def dom_update)

lemma answerable_iff: "answerable prefix m \<longleftrightarrow> starts_with prefix (in_chat_id m)"
proof
  assume p: "starts_with prefix (in_chat_id m)"
  have "would_reach (in_chat_id m) (snd (subs_register (prefix @ ''*'') r))" for r
    using p count_up_key [of prefix "si_prefix r"]
    by (force simp: would_reach_def subs_register_def guard_of_def strip_suffix_char_def ends_with_char_def Let_def list_ex_iff)
  moreover have "sse_passes (prefix @ ''*'') (in_chat_id m)"
    using p by (simp add: sse_passes_def strip_suffix_char_def ends_with_char_def)
  ultimately show "answerable prefix m" using p by (simp add: answerable_def strip_prefix_def)
qed (simp add: answerable_def strip_prefix_def split: if_splits)

locale bridge_session =
  fixes prefix :: string
    and session :: "'i \<Rightarrow> (inbound list \<times> loop_end) option"
  assumes named: "\<lbrakk>session i = Some (msgs, r); m \<in> set msgs\<rbrakk> \<Longrightarrow> starts_with prefix (in_chat_id m)"
begin

lemma session_answerable: "\<lbrakk>session i = Some (msgs, r); m \<in> set msgs\<rbrakk> \<Longrightarrow> answerable prefix m"
  by (simp add: answerable_iff named)

lemma reconnect_answerable: "\<lbrakk>reconnect delay session cs = Some (msgs, secs, returned); m \<in> set msgs\<rbrakk> \<Longrightarrow> answerable prefix m"
proof (induction cs arbitrary: msgs secs returned)
  case (Cons x cs)
  obtain i closed where x: "x = (i, closed)" by fastforce
  obtain new r where s: "session i = Some (new, r)" using Cons.prems(1) x by (auto split: option.splits)
  show ?case
  proof (cases "m \<in> set new")
    case True
    with s show ?thesis by (rule session_answerable)
  next
    case False
    with Cons.prems s x obtain others secs' where "reconnect delay session cs = Some (others, secs', returned)" "m \<in> set others"
      by (auto simp: Let_def split: option.splits if_splits)
    then show ?thesis by (rule Cons.IH)
  qed
qed simp

end

text \<open>The messages each bridge makes.\<close>

lemma slack_message_named: "slack_message allow event = Some m \<Longrightarrow> starts_with ''slack:'' (in_chat_id m)"
  using starts_with_append [of "''slack:''"] by (auto simp: slack_message_def split: if_splits option.splits)

lemma slack_step_named:
  "\<lbrakk>slack_step parse wr allow f sent = (sent', msgs, r); m \<in> set msgs\<rbrakk> \<Longrightarrow> starts_with ''slack:'' (in_chat_id m)"
  by (cases f) (auto simp: slack_envelope_def ws_write_def Let_def dest: slack_message_named split: option.splits if_splits prod.splits)

lemma socket_mode_named:
  "\<lbrakk>socket_mode_loop parse wr allow fs sent = (sent', msgs, r); m \<in> set msgs\<rbrakk> \<Longrightarrow> starts_with ''slack:'' (in_chat_id m)"
proof (induction fs arbitrary: sent sent' msgs r)
  case (Cons f fs)
  obtain s1 m1 r1 where f: "slack_step parse wr allow f sent = (s1, m1, r1)" by (cases "slack_step parse wr allow f sent") auto
  show ?case
  proof (cases "m \<in> set m1")
    case True
    with f show ?thesis by (rule slack_step_named)
  next
    case False
    with Cons.prems f obtain ms s2 where "socket_mode_loop parse wr allow fs s1 = (s2, ms, r)" "m \<in> set ms"
      by (cases r1) (auto split: prod.splits)
    then show ?thesis by (rule Cons.IH)
  qed
qed simp

interpretation slack_reader: bridge_session "''slack:''" "slack_session parse allow" for parse allow
proof unfold_locales
  fix i msgs r m assume a: "slack_session parse allow i = Some (msgs, r)" "m \<in> set msgs"
  obtain s ms re where l: "socket_mode_loop parse (sl_writes i) allow (sl_reads i) [] = (s, ms, re)"
    by (cases "socket_mode_loop parse (sl_writes i) allow (sl_reads i) []") auto
  with a have "m \<in> set ms" by (auto simp: slack_session_def split: option.splits if_splits)
  with l show "starts_with ''slack:'' (in_chat_id m)" by (rule socket_mode_named)
qed

lemma discord_message_named: "discord_message allow d = Some m \<Longrightarrow> starts_with ''discord:'' (in_chat_id m)"
  using starts_with_append [of "''discord:''"] by (auto simp: discord_message_def split: if_splits option.splits)

lemma gateway_step_named:
  "\<lbrakk>gateway_step parse wr token allow b gs = Some (gs', msgs, r); m \<in> set msgs\<rbrakk> \<Longrightarrow> starts_with ''discord:'' (in_chat_id m)"
proof (cases gs)
  case (Pair g sent)
  assume "gateway_step parse wr token allow b gs = Some (gs', msgs, r)" "m \<in> set msgs"
  with Pair show ?thesis
    by (cases "(parse, wr, token, allow, b, gs)" rule: gateway_step.cases)
      (auto simp: gateway_event_def ws_write_def Let_def dest: discord_message_named split: option.splits if_splits prod.splits)
qed

lemma gateway_loop_named:
  "\<lbrakk>gateway_loop parse wr token allow bs gs = Some (gs', msgs, r); m \<in> set msgs\<rbrakk> \<Longrightarrow> starts_with ''discord:'' (in_chat_id m)"
proof (induction bs arbitrary: gs gs' msgs r)
  case (Cons b bs)
  obtain g1 m1 r1 where f: "gateway_step parse wr token allow b gs = Some (g1, m1, r1)"
    using Cons.prems(1) by (auto split: option.splits)
  show ?case
  proof (cases "m \<in> set m1")
    case True
    with f show ?thesis by (rule gateway_step_named)
  next
    case False
    with Cons.prems f obtain ms g2 where "gateway_loop parse wr token allow bs g1 = Some (g2, ms, r)" "m \<in> set ms"
      by (cases r1) auto
    then show ?thesis by (rule Cons.IH)
  qed
qed simp

interpretation discord_reader: bridge_session "''discord:''" "discord_session parse token allow" for parse token allow
  by unfold_locales (auto simp: discord_session_def dest: gateway_loop_named split: option.splits if_splits)

lemma fetched_named: "fetched_mail e mime peers dir x = (Inr (Some m), files) \<Longrightarrow> starts_with ''email:'' (in_chat_id m)"
  using starts_with_append [of "''email:''"]
  by (auto simp: fetched_mail_def Let_def split: option.splits if_splits prod.splits sum.splits)

lemma fetch_stream_named: "\<lbrakk>fetch_stream e mime peers dir ms = (msgs, files, err); m \<in> set msgs\<rbrakk> \<Longrightarrow> starts_with ''email:'' (in_chat_id m)"
proof (induction ms arbitrary: msgs files err)
  case (Cons x ms)
  obtain r fs where f: "fetched_mail e mime peers dir x = (r, fs)" by fastforce
  obtain msgs' files' err' where g: "fetch_stream e mime peers dir ms = (msgs', files', err')" by (cases "fetch_stream e mime peers dir ms") auto
  from Cons.prems f g show ?case
    using Cons.IH [OF g] by (auto simp: mail_before_def dest: fetched_named split: sum.splits option.splits)
qed simp

lemma imap_named: "\<lbrakk>imap_loop e mime peers dir mboxes seen = (msgs, files, err); m \<in> set msgs\<rbrakk> \<Longrightarrow> starts_with ''email:'' (in_chat_id m)"
proof (induction mboxes arbitrary: seen msgs files err)
  case (Cons mbox mboxes)
  obtain new seen' where w: "imap_wake mbox seen = (new, seen')" by fastforce
  obtain m1 f1 e1 where f: "fetch_stream e mime peers dir new = (m1, f1, e1)" by (cases "fetch_stream e mime peers dir new") auto
  obtain m2 f2 e2 where g: "imap_loop e mime peers dir mboxes seen' = (m2, f2, e2)" by (cases "imap_loop e mime peers dir mboxes seen'") auto
  from Cons.prems w f g show ?case
    using Cons.IH [OF g] fetch_stream_named [OF f] by (auto simp: mail_before_def split: option.splits)
qed simp

interpretation email_reader: bridge_session "''email:''" "email_session e mime peers dir" for e mime peers dir
proof unfold_locales
  fix i msgs r m assume a: "email_session e mime peers dir i = Some (msgs, r)" "m \<in> set msgs"
  show "starts_with ''email:'' (in_chat_id m)"
  proof (cases i)
    case (Mailbox selected mboxes)
    obtain ms fs er where l: "imap_loop e mime peers dir mboxes (length selected) = (ms, fs, er)"
      by (cases "imap_loop e mime peers dir mboxes (length selected)") auto
    with a Mailbox have "m \<in> set ms" by simp
    with l show ?thesis by (rule imap_named)
  qed (use a in simp)
qed

lemma telegram_inbound_named: "telegram_inbound allow u = Some m \<Longrightarrow> starts_with ''telegram:'' (in_chat_id m)"
  using starts_with_append [of "''telegram:''"] by (auto simp: telegram_inbound_def Let_def split: if_splits option.splits)

lemma telegram_updates_named: "\<lbrakk>telegram_updates allow us offset = (o', msgs); m \<in> set msgs\<rbrakk> \<Longrightarrow> starts_with ''telegram:'' (in_chat_id m)"
proof (induction us arbitrary: offset o' msgs)
  case (Cons u us)
  obtain o1 m1 where g: "telegram_updates allow us (case as_i64 (json_at ''update_id'' u) of Some i \<Rightarrow> wrap_i64 (i + 1) | None \<Rightarrow> offset) = (o1, m1)"
    by fastforce
  from Cons.prems g show ?case using Cons.IH [OF g] by (auto simp: Let_def dest: telegram_inbound_named split: option.splits)
qed simp

interpretation telegram_reader: bridge_session "''telegram:''" "\<lambda>(as, offset). Some (fst (snd (telegram_reader allow as offset)), None)" for allow
proof unfold_locales
  have "m \<in> set (fst (snd (telegram_reader allow as offset))) \<Longrightarrow> starts_with ''telegram:'' (in_chat_id m)" for m as offset
    by (induction allow as offset rule: telegram_reader.induct)
      (auto simp: Let_def telegram_poll_def split: prod.splits dest: telegram_updates_named)
  then show "\<lbrakk>(case i of (as, offset) \<Rightarrow> Some (fst (snd (telegram_reader allow as offset)), None)) = Some (msgs, r); m \<in> set msgs\<rbrakk> \<Longrightarrow>
      starts_with ''telegram:'' (in_chat_id m)" for i msgs r m
    by (auto split: prod.splits)
qed

lemma signal_line_named: "signal_line parse allow dir l = Some m \<Longrightarrow> starts_with ''signal:'' (in_chat_id m)"
  using starts_with_append [of "''signal:''"] by (auto simp: signal_line_def signal_received_def Let_def split: if_splits option.splits)

interpretation signal_reader: bridge_session "''signal:''" "\<lambda>ls. Some (signal_reader parse allow dir ls, None)" for parse allow dir
proof unfold_locales
  have "m \<in> set (signal_reader parse allow dir ls) \<Longrightarrow> starts_with ''signal:'' (in_chat_id m)" for m ls
    unfolding signal_reader_def
    by (induction ls) (auto simp: map_filter_simps intro: signal_line_named split: option.splits)
  then show "\<lbrakk>Some (signal_reader parse allow dir i, None) = Some (msgs, r); m \<in> set msgs\<rbrakk> \<Longrightarrow> starts_with ''signal:'' (in_chat_id m)" for i msgs r m
    by auto
qed

section \<open>Properties\<close>


definition sample_slack :: "slack_connection \<times> bool" where
  "sample_slack = (\<lparr>sl_open = Some (JObj [(''ok'', JBool True), (''url'', JStr ''wss://x'')]), sl_connect = (\<lambda>u. True),
     sl_reads = [Ws_Text ''a'', Ws_Error ''reset''], sl_writes = (\<lambda>w. True)\<rparr>, False)"

definition refused_slack :: "slack_connection \<times> bool" where
  "refused_slack = (\<lparr>sl_open = None, sl_connect = (\<lambda>u. True), sl_reads = [], sl_writes = (\<lambda>w. True)\<rparr>, False)"

lemma slack_reconnects:
  "reconnect 5 (slack_session (Some \<circ> sample_envelope) []) [sample_slack, refused_slack, sample_slack] =
     Some (replicate 2 \<lparr>in_chat_id = ''slack:C1'', in_text = ''hi'', in_attachments = [], in_message_ref = None\<rparr>, 15, False)"
  by (simp add: sample_slack_def refused_slack_def slack_session_def sample_envelope_def json_at_def slack_envelope_def ws_write_def
      slack_message_def slack_event_def Let_def numeral_2_eq_2)


text \<open>Reconnecting loses nothing of what a session passed on and never outlives the relay: over any connections of any service, what arrives is
  exactly the messages of the connections opened, in order; the loop has waited the delay once for every session that ended with
  an error and not at all for the others; it opens the next connection only after one that ended with the channel still open, and it returns
  exactly when a session ends and the channel is closed.\<close>

theorem reconnects_in_order:
  assumes "reconnect delay session cs = Some (msgs, secs, returned)"
  shows "\<exists>n \<le> length cs. msgs = concat (map (\<lambda>c. fst (the (session (fst c)))) (take n cs))
    \<and> secs = delay * length (filter (\<lambda>c. \<exists>err. snd (the (session (fst c))) = Some (Inl err)) (take n cs))
    \<and> (\<forall>k. Suc k < n \<longrightarrow> \<not> snd (cs ! k) \<and> snd (the (session (fst (cs ! k)))) \<noteq> None)
    \<and> (returned \<longleftrightarrow> n > 0 \<and> snd (cs ! (n - 1)) \<and> snd (the (session (fst (cs ! (n - 1))))) \<noteq> None)
    \<and> (n < length cs \<longrightarrow> n > 0 \<and> (returned \<or> snd (the (session (fst (cs ! (n - 1))))) = None))"
  using assms
proof (induction cs arbitrary: msgs secs returned)
  case (Cons x cs)
  obtain i closed where x: "x = (i, closed)" by fastforce
  obtain new r where s: "session i = Some (new, r)" using Cons.prems x by (auto split: option.splits)
  show ?case
  proof (cases "r = None \<or> closed")
    case True
    with Cons.prems s x show ?thesis
      by (intro exI [of _ 1]) (auto simp: Let_def split: option.splits sum.splits)
  next
    case False
    then obtain e where r: "r = Some e" "\<not> closed" by auto
    with Cons.prems s x obtain others secs' where o: "reconnect delay session cs = Some (others, secs', returned)"
      "msgs = new @ others" "secs = (case e of Inl _ \<Rightarrow> delay | Inr _ \<Rightarrow> 0) + secs'"
      by (auto simp: Let_def)
    from Cons.IH [OF o(1)] obtain n where n: "n \<le> length cs" "others = concat (map (\<lambda>c. fst (the (session (fst c)))) (take n cs))"
      "secs' = delay * length (filter (\<lambda>c. \<exists>err. snd (the (session (fst c))) = Some (Inl err)) (take n cs))"
      "\<forall>k. Suc k < n \<longrightarrow> \<not> snd (cs ! k) \<and> snd (the (session (fst (cs ! k)))) \<noteq> None"
      "returned \<longleftrightarrow> n > 0 \<and> snd (cs ! (n - 1)) \<and> snd (the (session (fst (cs ! (n - 1))))) \<noteq> None"
      "n < length cs \<longrightarrow> n > 0 \<and> (returned \<or> snd (the (session (fst (cs ! (n - 1))))) = None)" by blast
    have k: "\<forall>k. Suc k < Suc n \<longrightarrow> \<not> snd ((x # cs) ! k) \<and> snd (the (session (fst ((x # cs) ! k)))) \<noteq> None"
    proof (intro allI impI)
      fix k assume "Suc k < Suc n"
      with n(4) s r x show "\<not> snd ((x # cs) ! k) \<and> snd (the (session (fst ((x # cs) ! k)))) \<noteq> None" by (cases k) auto
    qed
    have last: "n > 0 \<Longrightarrow> (x # cs) ! (Suc n - 1) = cs ! (n - 1)" by (cases n) auto
    show ?thesis
    proof (intro exI [of _ "Suc n"] conjI)
      show "secs = delay * length (filter (\<lambda>c. \<exists>err. snd (the (session (fst c))) = Some (Inl err)) (take (Suc n) (x # cs)))"
        using o(3) n(3) s r x by (cases e) auto
      show "returned = (0 < Suc n \<and> snd ((x # cs) ! (Suc n - 1)) \<and> snd (the (session (fst ((x # cs) ! (Suc n - 1))))) \<noteq> None)"
        using n(5) last r x by (cases "n = 0") auto
      show "Suc n < length (x # cs) \<longrightarrow> 0 < Suc n \<and> (returned \<or> snd (the (session (fst ((x # cs) ! (Suc n - 1))))) = None)"
        using n(6) last by auto
    qed (use n(1,2) o(2) s x k in auto)
  qed
qed simp

theorem reconnects_in_order_witness:
  "\<exists>n. replicate 2 \<lparr>in_chat_id = ''slack:C1'', in_text = ''hi'', in_attachments = [], in_message_ref = None\<rparr> =
     concat (map (\<lambda>c. fst (the (slack_session (Some \<circ> sample_envelope) [] (fst c)))) (take n [sample_slack, refused_slack, sample_slack]))"
  using reconnects_in_order [OF slack_reconnects] by blast

text \<open>A session that ends without an error is followed by the next at once: Slack's servers can keep the loop busy.\<close>

lemma disconnect_hot_loop:
  assumes "slack_session parse allow c = Some ([], Some (Inr ()))"
  shows "reconnect 5 (slack_session parse allow) (replicate n (c, False)) = Some ([], 0, False)"
  using assms by (induction n) simp_all

end
