(* ===== verification/Routes.thy ===== *)
theory Routes
  imports Http_Requests Local_Clients Webhook_Proxy Feedback_Server
begin

text \<open>
  The routers of the four HTTP servers (\<open>create\_router\<close> of src/src/http\_server.rs, and those of
  feedback.rs, webhook\_proxy.rs and chat.rs): which handler a method and a path reach, and which
  URLs the programs that talk to them build. The tables are the source's, with its patterns.
  Two libraries are parameters: how axum finds the pattern of a path (\<open>mt\<close>), and how a URL is
  parsed by reqwest and tungstenite (\<open>up\<close>, the path of a URL). What the code relies on is
  \<open>documented\_matcher\<close> (\<open>{name}\<close> takes one segment, \<open>{*name}\<close> the rest, neither an empty one)
  and \<open>documented\_paths\<close> (a path of plain characters is requested as it is written).
\<close>

section \<open>Routers\<close>

datatype path_segment = Literal string | Param | Rest

definition segment_of :: "string \<Rightarrow> path_segment" where
  "segment_of s =
     (if starts_with ''{*'' s then Rest else if starts_with ''{'' s then Param else Literal s)"

text \<open>The segments after the slash every path starts with.\<close>

definition segments :: "string \<Rightarrow> string list" where
  "segments path = split_on (CHR ''/'') (drop 1 path)"

definition pattern_of :: "string \<Rightarrow> path_segment list" where
  "pattern_of path = map segment_of (segments path)"

fun match_path :: "path_segment list \<Rightarrow> string list \<Rightarrow> string list option" where
  "match_path [] [] = Some []"
| "match_path (Literal s # ps) (x # xs) = (if x = s then match_path ps xs else None)"
| "match_path (Param # ps) (x # xs) = (if x = [] then None else map_option (Cons x) (match_path ps xs))"
| "match_path [Rest] (x # xs) = (let rest = join ''/'' (x # xs) in if rest = [] then None else Some [rest])"
| "match_path _ _ = None"

text \<open>The arguments of a pattern for a path, \<open>None\<close> when it does not match.\<close>

definition pattern_match :: "string \<Rightarrow> string \<Rightarrow> string list option" where
  "pattern_match p path = (if take 1 path = ''/'' then match_path (pattern_of p) (segments path) else None)"

text \<open>Whether some path can match both patterns.\<close>

fun overlap :: "path_segment list \<Rightarrow> path_segment list \<Rightarrow> bool" where
  "overlap [] [] = True"
| "overlap (Rest # ps) (q # qs) = True"
| "overlap (p # ps) (Rest # qs) = True"
| "overlap (Literal a # ps) (Literal b # qs) = (a = b \<and> overlap ps qs)"
| "overlap (p # ps) (q # qs) = overlap ps qs"
| "overlap _ _ = False"

definition disjoint_patterns :: "string list \<Rightarrow> bool" where
  "disjoint_patterns ps \<longleftrightarrow> distinct ps \<and> (\<forall>p \<in> set ps. \<forall>q \<in> set ps. p = q \<or> \<not> overlap (pattern_of p) (pattern_of q))"

text \<open>axum's matching: the position of the pattern a path matches, and its arguments. Where patterns overlap it prefers some
  of them; that is left open.\<close>

type_synonym path_matcher = "string list \<Rightarrow> string \<Rightarrow> (nat \<times> string list) option"

definition documented_matcher :: "path_matcher \<Rightarrow> bool" where
  "documented_matcher mt \<longleftrightarrow> (\<forall>ps path. disjoint_patterns ps \<longrightarrow>
     (\<forall>i xs. i < length ps \<and> pattern_match (ps ! i) path = Some xs \<longrightarrow> mt ps path = Some (i, xs)) \<and>
     ((\<forall>p \<in> set ps. pattern_match p path = None) \<longrightarrow> mt ps path = None))"

text \<open>\<open>get\<close> also answers HEAD; a path of a route with no handler for the method is a 405.\<close>

datatype method_filter = On string | Any_Method

definition allows :: "method_filter \<Rightarrow> string \<Rightarrow> bool" where
  "allows f m = (case f of On x \<Rightarrow> m = x \<or> x = ''GET'' \<and> m = ''HEAD'' | Any_Method \<Rightarrow> True)"

type_synonym 'h router = "(string \<times> (method_filter \<times> 'h) list) list"

datatype 'h routed = Routed 'h "string list" | Not_Found | Method_Not_Allowed

definition dispatch :: "(method_filter \<times> 'h) list \<Rightarrow> string \<Rightarrow> string list \<Rightarrow> 'h routed" where
  "dispatch hs m args = (case find (\<lambda>(f, h). allows f m) hs of None \<Rightarrow> Method_Not_Allowed | Some (f, h) \<Rightarrow> Routed h args)"

definition route_to :: "path_matcher \<Rightarrow> 'h router \<Rightarrow> string \<Rightarrow> string \<Rightarrow> 'h routed" where
  "route_to mt r m path = (case mt (map fst r) path of None \<Rightarrow> Not_Found | Some (i, args) \<Rightarrow> dispatch (snd (r ! i)) m args)"

section \<open>The four servers\<close>

datatype daemon_handler =
    D_Message | D_Event | D_Index | D_Status | D_Dashboard | D_Dashboard_State | D_Dashboard_Dismiss | D_Cost
  | D_Metrics_Turns | D_Metrics_Rate | D_Api_Trace | D_Get_Messages | D_Sse | D_Shutdown

definition create_router :: "daemon_handler router" where
  "create_router =
     [(''/message'', [(On ''POST'', D_Message)]),
      (''/event'', [(On ''POST'', D_Event)]),
      (''/'', [(On ''GET'', D_Index)]),
      (''/status'', [(On ''GET'', D_Status)]),
      (''/dashboard'', [(On ''GET'', D_Dashboard)]),
      (''/dashboard/state'', [(On ''GET'', D_Dashboard_State)]),
      (''/dashboard/state/{name}'', [(On ''DELETE'', D_Dashboard_Dismiss)]),
      (''/cost'', [(On ''GET'', D_Cost)]),
      (''/metrics/turns'', [(On ''GET'', D_Metrics_Turns)]),
      (''/metrics/rate'', [(On ''GET'', D_Metrics_Rate)]),
      (''/api-trace'', [(On ''GET'', D_Api_Trace)]),
      (''/messages/{chat_id}'', [(On ''GET'', D_Get_Messages)]),
      (''/messages/{chat_id}/stream'', [(On ''GET'', D_Sse)]),
      (''/shutdown'', [(On ''POST'', D_Shutdown)])]"

datatype feedback_handler = F_Post | F_Get | F_Delete | F_Get_Trace | F_Chat_Ws

definition feedback_router :: "feedback_handler router" where
  "feedback_router =
     [(''/feedback'', [(On ''POST'', F_Post), (On ''GET'', F_Get)]),
      (''/feedback/{id}'', [(On ''DELETE'', F_Delete)]),
      (''/feedback/{id}/trace'', [(On ''GET'', F_Get_Trace)]),
      (''/chat/ws'', [(On ''GET'', F_Chat_Ws)])]"

datatype webhook_handler = W_Github | W_Slack | W_Generic

definition webhook_router :: "webhook_handler router" where
  "webhook_router =
     [(''/github'', [(On ''POST'', W_Github)]), (''/slack'', [(On ''POST'', W_Slack)]), (''/generic'', [(On ''POST'', W_Generic)])]"

datatype chat_handler = C_Page | C_Favicon | C_Proxy

definition chat_router :: "chat_handler router" where
  "chat_router =
     [(''/'', [(On ''GET'', C_Page)]), (''/favicon.ico'', [(On ''GET'', C_Favicon)]), (''/api/{*path}'', [(Any_Method, C_Proxy)])]"

text \<open>The posts of the daemon, from the path on; a method or path of another route changes nothing here.\<close>

definition serve_post ::
  "path_matcher \<Rightarrow> nat \<Rightarrow> bool \<Rightarrow> nat \<Rightarrow> agent_registry \<Rightarrow> string \<Rightarrow> json \<Rightarrow> ((nat + json) \<times> (nat \<times> harness_event) list) option" where
  "serve_post mt root_tx root_open nanos r path body =
     (case route_to mt create_router ''POST'' path of
        Routed D_Message _ \<Rightarrow> Some (post_message root_tx root_open nanos body)
      | Routed D_Event _ \<Rightarrow> Some (post_event root_tx root_open r body)
      | Routed _ _ \<Rightarrow> None
      | Not_Found \<Rightarrow> Some (Inl 404, [])
      | Method_Not_Allowed \<Rightarrow> Some (Inl 405, []))"

section \<open>The URLs of the clients\<close>

text \<open>What the code relies on: the path of a base URL with a path appended is that path, as long as the base is a URL (\<open>up u \<noteq> None\<close>)
  that ends with its authority, and the path has only characters that need no encoding and no dot segments.\<close>

definition plain_char :: "char \<Rightarrow> bool" where
  "plain_char c \<longleftrightarrow> c \<in> set ''abcdefghijklmnopqrstuvwxyzABCDEFGHIJKLMNOPQRSTUVWXYZ0123456789-._~*:@''"

definition base_url :: "string \<Rightarrow> bool" where
  "base_url u \<longleftrightarrow> list_ex (\<lambda>scheme. starts_with scheme u \<and> length scheme < length u \<and>
     list_all plain_char (drop (length scheme) u)) [''http://'', ''https://'', ''ws://'', ''wss://'']"

definition plain_path :: "string \<Rightarrow> bool" where
  "plain_path p \<longleftrightarrow> take 1 p = ''/'' \<and> list_all (\<lambda>c. plain_char c \<or> c = CHR ''/'') p \<and> list_all (\<lambda>s. s \<noteq> ''.'' \<and> s \<noteq> ''..'') (segments p)"

definition documented_paths :: "(string \<Rightarrow> string option) \<Rightarrow> bool" where
  "documented_paths up \<longleftrightarrow> (\<forall>u p. base_url u \<and> up u \<noteq> None \<and> plain_path p \<longrightarrow> up (u @ p) = Some p)"

definition message_url :: "string \<Rightarrow> string" where
  "message_url api_url = api_url @ ''/message''"

definition stream_url :: "string \<Rightarrow> string \<Rightarrow> string" where
  "stream_url api_url chat = api_url @ ''/messages/'' @ chat @ ''/stream''"

definition event_url :: "string \<Rightarrow> string" where
  "event_url api_url = api_url @ ''/event''"

text \<open>Where the feedback client finds the daemon: the address the process supervisor gave it.\<close>

definition strip_suffix :: "string \<Rightarrow> string \<Rightarrow> string option" where
  "strip_suffix suffix s =
     (if starts_with (rev suffix) (rev s) then Some (take (length s - length suffix) s) else None)"

definition trace_url :: "string option \<Rightarrow> string" where
  "trace_url event_var =
     (case Option.bind event_var (strip_suffix ''/event'') of Some u \<Rightarrow> u | None \<Rightarrow> ''http://127.0.0.1:3000'') @ ''/api-trace''"

definition default_feedback_url :: "string option \<Rightarrow> string" where
  "default_feedback_url var = (case var of Some u \<Rightarrow> u | None \<Rightarrow> ''https://feedback.yager.io:3001/feedback'')"

definition default_chat_server :: string where
  "default_chat_server = ''wss://feedback.yager.io:3001/chat/ws''"

text \<open>The backend of the web chat (\<open>trim_end_matches('/')\<close>).\<close>

definition chat_backend :: "string \<Rightarrow> string" where
  "chat_backend api_url = rev (dropWhile (\<lambda>c. c = CHR ''/'') (rev api_url))"

section \<open>Lemmas\<close>

subsection \<open>Routers\<close>

lemma match_Nil: "match_path [] xs = Some a \<Longrightarrow> xs = []"
  by (cases xs) auto

lemma match_Cons:
  assumes "match_path (p # ps) xs = Some a"
  shows "\<exists>x ys. xs = x # ys \<and> (p = Rest \<or> (\<exists>b. match_path ps ys = Some b) \<and> (\<forall>s. p = Literal s \<longrightarrow> x = s))"
proof (cases xs)
  case Nil
  with assms show ?thesis by (cases p; cases ps) auto
next
  case (Cons x ys)
  with assms show ?thesis by (cases p; cases ps) (auto split: if_splits)
qed

lemma match_overlap: "\<lbrakk>match_path ps xs = Some a; match_path qs xs = Some b\<rbrakk> \<Longrightarrow> overlap ps qs"
proof (induction ps arbitrary: qs xs a b)
  case Nil
  then have "xs = []" by (blast dest: match_Nil)
  with Nil show ?case by (cases qs) (auto dest: match_Cons)
next
  case (Cons p ps)
  obtain x ys where x: "xs = x # ys" "p = Rest \<or> (\<exists>b. match_path ps ys = Some b) \<and> (\<forall>s. p = Literal s \<longrightarrow> x = s)"
    using match_Cons [OF Cons.prems(1)] by blast
  with Cons.prems(2) obtain q qs' where q: "qs = q # qs'" by (cases qs) auto
  from match_Cons [OF Cons.prems(2) [unfolded q]] x(1)
  have "q = Rest \<or> (\<exists>b. match_path qs' ys = Some b) \<and> (\<forall>s. q = Literal s \<longrightarrow> x = s)" by simp
  with x(2) Cons.IH [of ys _ qs'] show ?case by (cases p; cases q) (auto simp: q)
qed

lemma pattern_matches_overlap: "\<lbrakk>pattern_match p path = Some a; pattern_match q path = Some b\<rbrakk> \<Longrightarrow> overlap (pattern_of p) (pattern_of q)"
  by (auto simp: pattern_match_def split: if_splits intro: match_overlap)

text \<open>The first pattern that matches is a matcher of that kind.\<close>

definition first_match :: path_matcher where
  "first_match ps path =
     map_option (\<lambda>i. (i, the (pattern_match (ps ! i) path))) (find (\<lambda>i. pattern_match (ps ! i) path \<noteq> None) [0..<length ps])"

lemma find_unique: "\<lbrakk>x \<in> set xs; P x; \<And>y. \<lbrakk>y \<in> set xs; P y\<rbrakk> \<Longrightarrow> y = x\<rbrakk> \<Longrightarrow> find P xs = Some x"
proof (induction xs)
  case (Cons a xs)
  show ?case
  proof (cases "P a")
    case True
    with Cons.prems(3) [of a] show ?thesis by simp
  next
    case False
    with Cons.prems(1,2) have "x \<in> set xs" by auto
    have "find P xs = Some x" by (rule Cons.IH [OF \<open>x \<in> set xs\<close> Cons.prems(2)]) (rule Cons.prems(3), simp_all)
    with False show ?thesis by (simp only: find.simps if_False)
  qed
qed simp

lemma first_match_documented: "documented_matcher first_match"
  unfolding documented_matcher_def
proof (intro allI impI conjI)
  fix ps path i xs assume d: "disjoint_patterns ps" and i: "i < length ps \<and> pattern_match (ps ! i) path = Some xs"
  have "find (\<lambda>i. pattern_match (ps ! i) path \<noteq> None) [0..<length ps] = Some i"
  proof (rule find_unique)
    fix j assume j: "j \<in> set [0..<length ps]" "pattern_match (ps ! j) path \<noteq> None"
    with i pattern_matches_overlap have "overlap (pattern_of (ps ! j)) (pattern_of (ps ! i))" by blast
    moreover have "ps ! j \<in> set ps" "ps ! i \<in> set ps" using i j(1) by simp_all
    ultimately have "ps ! j = ps ! i" using d unfolding disjoint_patterns_def by blast
    with d i j(1) show "j = i" by (simp add: disjoint_patterns_def nth_eq_iff_index_eq)
  qed (use i in simp_all)
  with i show "first_match ps path = Some (i, xs)" by (simp add: first_match_def)
next
  fix ps path assume "\<forall>p \<in> set ps. pattern_match p path = None"
  then have "find (\<lambda>i. pattern_match (ps ! i) path \<noteq> None) [0..<length ps] = None" by (auto simp: find_None_iff)
  then show "first_match ps path = None" by (simp add: first_match_def)
qed

lemma route_to_match:
  assumes "documented_matcher mt" "disjoint_patterns (map fst r)" "(p, hs) \<in> set r" "pattern_match p path = Some args"
  shows "route_to mt r m path = dispatch hs m args"
proof -
  obtain i where i: "i < length r" "r ! i = (p, hs)" using assms(3) by (metis in_set_conv_nth)
  with assms(1,2,4) have "mt (map fst r) path = Some (i, args)" by (simp add: documented_matcher_def)
  with i show ?thesis by (simp add: route_to_def)
qed

lemma route_to_none:
  assumes "documented_matcher mt" "disjoint_patterns (map fst r)" "\<forall>p \<in> fst ` set r. pattern_match p path = None"
  shows "route_to mt r m path = Not_Found"
proof -
  have "mt (map fst r) path = None" using assms by (simp add: documented_matcher_def)
  then show ?thesis by (simp add: route_to_def)
qed

lemma route_to_first:
  assumes "documented_matcher mt" "disjoint_patterns (map fst r)"
  shows "route_to mt r m path = route_to first_match r m path"
proof (cases "\<exists>p hs args. (p, hs) \<in> set r \<and> pattern_match p path = Some args")
  case True
  then obtain p hs args where "(p, hs) \<in> set r" "pattern_match p path = Some args" by blast
  from route_to_match [OF assms this] route_to_match [OF first_match_documented assms(2) this] show ?thesis by simp
next
  case False
  then have "\<forall>p \<in> fst ` set r. pattern_match p path = None" by fastforce
  from route_to_none [OF assms this] route_to_none [OF first_match_documented assms(2) this] show ?thesis by simp
qed

lemma disjoint_routers: "disjoint_patterns (map fst create_router)" "disjoint_patterns (map fst feedback_router)"
  "disjoint_patterns (map fst webhook_router)" "disjoint_patterns (map fst chat_router)"
  by code_simp+

lemma disjoint_permuted: "mset r' = mset r \<Longrightarrow> disjoint_patterns (map fst r') = disjoint_patterns (map fst r)"
  unfolding disjoint_patterns_def by (metis mset_eq_imp_distinct_iff mset_eq_setD mset_map)

lemma route_permuted:
  assumes "documented_matcher mt" "disjoint_patterns (map fst r)" "mset r' = mset r"
  shows "route_to mt r' m path = route_to mt r m path"
proof -
  note d = disjoint_permuted [OF assms(3)] mset_eq_setD [OF assms(3)]
  then have d': "disjoint_patterns (map fst r')" using assms(2) by blast
  show ?thesis
  proof (cases "\<exists>p hs args. (p, hs) \<in> set r \<and> pattern_match p path = Some args")
    case True
    then obtain p hs args where "(p, hs) \<in> set r" "pattern_match p path = Some args" by blast
    with route_to_match [OF assms(1) d', of p hs] route_to_match [OF assms(1,2), of p hs] d(2) show ?thesis by simp
  next
    case False
    then have "\<forall>p \<in> fst ` set r. pattern_match p path = None" by fastforce
    with route_to_none [OF assms(1) d'] route_to_none [OF assms(1,2)] d(2) show ?thesis by simp
  qed
qed

lemmas routed_daemon = route_to_first [OF _ disjoint_routers(1)]
lemmas routed_feedback = route_to_first [OF _ disjoint_routers(2)]

subsection \<open>URLs\<close>

lemma documented_pathsD: "\<lbrakk>documented_paths up; base_url u; up u \<noteq> None; plain_path p\<rbrakk> \<Longrightarrow> up (u @ p) = Some p"
  by (simp add: documented_paths_def)

text \<open>The path after the authority is such a parser.\<close>

definition after_authority :: "string \<Rightarrow> string option" where
  "after_authority url =
     (case find_sub ''://'' url of None \<Rightarrow> None
      | Some i \<Rightarrow> let path = dropWhile (\<lambda>c. c \<noteq> CHR ''/'') (drop (i + 3) url) in Some (if path = [] then ''/'' else path))"

lemma find_sub_here: "CHR '':'' \<notin> set scheme \<Longrightarrow> find_sub ''://'' (scheme @ ''://'' @ rest) = Some (length scheme)"
  by (induction scheme) (auto simp: starts_with_def)

lemma after_authority_here:
  assumes "CHR '':'' \<notin> set scheme" "CHR ''/'' \<notin> set authority" "take 1 p = ''/''"
  shows "after_authority ((scheme @ ''://'' @ authority) @ p) = Some p"
proof -
  have "\<forall>c \<in> set authority. c \<noteq> CHR ''/''" using assms(2) by metis
  then have "dropWhile (\<lambda>c. c \<noteq> CHR ''/'') (authority @ p) = p" using assms(3) by (subst dropWhile_append2) (cases p; auto)+
  with find_sub_here [OF assms(1), of "authority @ p"] assms(3) show ?thesis by (auto simp: after_authority_def Let_def)
qed

lemma base_urlE:
  assumes "base_url u"
  obtains scheme authority where "u = scheme @ ''://'' @ authority" "CHR '':'' \<notin> set scheme" "CHR ''/'' \<notin> set authority" "authority \<noteq> []"
proof -
  note found = that
  have main: thesis if x: "starts_with (x @ ''://'') u" "length (x @ ''://'') < length u" "list_all plain_char (drop (length (x @ ''://'')) u)"
    and c: "CHR '':'' \<notin> set x" for x
  proof (rule found [of x "drop (length (x @ ''://'')) u"])
    show "u = x @ ''://'' @ drop (length (x @ ''://'')) u"
      using x(1) append_take_drop_id [of "length (x @ ''://'')" u] unfolding starts_with_def by (metis append.assoc)
    show "CHR ''/'' \<notin> set (drop (length (x @ ''://'')) u)"
    proof
      assume "CHR ''/'' \<in> set (drop (length (x @ ''://'')) u)"
      with x(3) have "plain_char (CHR ''/'')" by (simp only: list_all_iff)
      then show False by code_simp
    qed
  qed (use x(2) c in simp_all)
  from assms show thesis
    unfolding base_url_def list_ex_iff
    using main [of "''http''"] main [of "''https''"] main [of "''ws''"] main [of "''wss''"] by auto
qed

lemma after_authority_documented: "documented_paths after_authority"
  unfolding documented_paths_def
proof (intro allI impI, elim conjE)
  fix u p assume "base_url u" "plain_path p"
  from this(1) obtain scheme authority where "u = scheme @ ''://'' @ authority" "CHR '':'' \<notin> set scheme" "CHR ''/'' \<notin> set authority"
    by (rule base_urlE)
  with after_authority_here [OF this(2,3), of p] \<open>plain_path p\<close> show "after_authority (u @ p) = Some p"
    by (simp only: plain_path_def)
qed

lemma split_on_last: "c \<notin> set x \<Longrightarrow> split_on c x = [x]"
  by (induction x) auto

lemma split_on_first: "c \<notin> set x \<Longrightarrow> split_on c (x @ c # y) = x # split_on c y"
  by (induction x) auto

lemma segments_simps:
  "segments (CHR ''/'' # x) = split_on (CHR ''/'') x"
  by (simp add: segments_def)

lemma join_split: "join [c] (split_on c x) = x"
proof (induction x)
  case (Cons a x)
  then show ?case by (cases "split_on c x"; cases "tl (split_on c x)") auto
qed simp

section \<open>Properties\<close>

text \<open>The routers do not depend on the order in which their routes are written: in each of the four servers no path matches two patterns, so
  whatever order the routes are registered in, every method and path is routed to the same handler, by any matcher of the documented kind.\<close>

theorem routers_unambiguous:
  assumes "documented_matcher mt"
  shows "(mset r1 = mset create_router \<longrightarrow> route_to mt r1 m path = route_to mt create_router m path)
   \<and> (mset r2 = mset feedback_router \<longrightarrow> route_to mt r2 m path = route_to mt feedback_router m path)
   \<and> (mset r3 = mset webhook_router \<longrightarrow> route_to mt r3 m path = route_to mt webhook_router m path)
   \<and> (mset r4 = mset chat_router \<longrightarrow> route_to mt r4 m path = route_to mt chat_router m path)"
  by (intro conjI impI) (rule route_permuted [OF assms disjoint_routers(1)] route_permuted [OF assms disjoint_routers(2)]
      route_permuted [OF assms disjoint_routers(3)] route_permuted [OF assms disjoint_routers(4)], assumption)+

theorem routers_unambiguous_witness:
  "route_to first_match (rev create_router) ''DELETE'' ''/dashboard/state/kid'' = Routed D_Dashboard_Dismiss [''kid'']"
proof -
  have "route_to first_match create_router ''DELETE'' ''/dashboard/state/kid'' = Routed D_Dashboard_Dismiss [''kid'']" by code_simp
  with routers_unambiguous [OF first_match_documented, of "rev create_router" "''DELETE''" "''/dashboard/state/kid''"] show ?thesis by simp
qed


lemma sample_base: "base_url ''http://127.0.0.1:3000''"
  by code_simp


text \<open>The web chat's requests arrive at the daemon as if they were made to it directly: for every method and every path the page can ask for under
  \<open>/api\<close> that needs no encoding, the chat server passes it to the proxy, and the URL the proxy requests, at a backend given with or without
  trailing slashes, is routed by the daemon exactly as the path itself.\<close>

theorem proxied_as_direct:
  assumes "documented_matcher mt" "documented_paths up" "base_url u" "up u \<noteq> None"
    and "plain_path (''/'' @ path)" "path \<noteq> []" "px_path req = path" "px_query req = None"
  shows "route_to mt chat_router m (''/api/'' @ path) = Routed C_Proxy [path]
    \<and> map_option (route_to mt create_router m) (up (proxy_url (chat_backend (u @ replicate k (CHR ''/''))) req)) =
        Some (route_to mt create_router m (''/'' @ path))"
proof
  have "segments (''/api/'' @ path) = ''api'' # split_on (CHR ''/'') path"
    using split_on_first [of "CHR ''/''" "''api''" path] by (simp add: segments_simps)
  moreover have "pattern_of ''/api/{*path}'' = [Literal ''api'', Rest]" by code_simp
  moreover obtain x xs where x: "split_on (CHR ''/'') path = x # xs"
    using assms(6) join_split [of "CHR ''/''" path] by (cases "split_on (CHR ''/'') path") auto
  then have "join ''/'' (x # xs) = path" using join_split [of "CHR ''/''" path] by simp
  ultimately have "pattern_match ''/api/{*path}'' (''/api/'' @ path) = Some [path]" using assms(6) x by (simp add: pattern_match_def)
  moreover have "(''/api/{*path}'', [(Any_Method, C_Proxy)]) \<in> set chat_router" by (simp add: chat_router_def)
  ultimately have "route_to mt chat_router m (''/api/'' @ path) = dispatch [(Any_Method, C_Proxy)] m [path]"
    by (intro route_to_match [OF assms(1) disjoint_routers(4)])
  then show "route_to mt chat_router m (''/api/'' @ path) = Routed C_Proxy [path]" by (simp add: dispatch_def allows_def)
  obtain scheme authority where u: "u = scheme @ ''://'' @ authority" "CHR ''/'' \<notin> set authority" "authority \<noteq> []"
    using assms(3) by (rule base_urlE)
  then have "u \<noteq> [] \<and> last u \<noteq> CHR ''/''" using last_in_set [OF u(3)] by (metis append_is_Nil_conv last_appendR)
  then have "dropWhile (\<lambda>c. c = CHR ''/'') (replicate k (CHR ''/'') @ rev u) = rev u"
    by (cases u rule: rev_cases) (auto simp: dropWhile_append)
  then have "chat_backend (u @ replicate k (CHR ''/'')) = u" by (simp add: chat_backend_def)
  with documented_pathsD [OF assms(2-5)] assms(7,8)
  show "map_option (route_to mt create_router m) (up (proxy_url (chat_backend (u @ replicate k (CHR ''/''))) req)) =
        Some (route_to mt create_router m (''/'' @ path))"
    by (simp add: proxy_url_def)
qed

theorem proxied_as_direct_witness:
  "map_option (route_to first_match create_router ''GET'')
     (after_authority (proxy_url (chat_backend (''http://127.0.0.1:3000'' @ replicate 2 (CHR ''/''))) sample_proxied)) = Some (Routed D_Status [])"
proof -
  have "plain_path (''/'' @ ''status'')" "route_to first_match create_router ''GET'' (''/'' @ ''status'') = Routed D_Status []" by code_simp+
  with proxied_as_direct [OF first_match_documented after_authority_documented sample_base _ this(1), of sample_proxied "''GET''" 2]
  show ?thesis by (simp add: sample_proxied_def after_authority_def starts_with_def)
qed

text \<open>Only the web chat takes the slash away: with one at the end of \<open>--api-url\<close> the bridges and watchers post to paths
  that no route has.\<close>

theorem trailing_slash_lost:
  assumes "documented_matcher mt" "documented_paths up" "base_url u" "up u \<noteq> None"
  shows "map_option (\<lambda>path. serve_post mt root_tx root_open nanos r path body) (up (message_url (u @ ''/''))) = Some (Some (Inl 404, []))
    \<and> map_option (\<lambda>path. serve_post mt root_tx root_open nanos r path body) (up (event_url (u @ ''/''))) = Some (Some (Inl 404, []))"
proof -
  have "route_to mt create_router ''POST'' ''//message'' = Not_Found" "route_to mt create_router ''POST'' ''//event'' = Not_Found"
    unfolding routed_daemon [OF assms(1)] by code_simp+
  moreover have "plain_path ''//message''" "plain_path ''//event''" by code_simp+
  ultimately show ?thesis
    using documented_pathsD [OF assms(2-4), of "''//message''"] documented_pathsD [OF assms(2-4), of "''//event''"]
    by (simp add: serve_post_def message_url_def event_url_def)
qed

theorem trailing_slash_lost_witness:
  "map_option (\<lambda>path. serve_post first_match 0 True 0 ar_new path JNull) (after_authority (event_url (''http://127.0.0.1:3000'' @ ''/''))) =
     Some (Some (Inl 404, []))"
  by (rule trailing_slash_lost [OF first_match_documented after_authority_documented sample_base, THEN conjunct2])
    (simp add: after_authority_def starts_with_def)

end
