(* ===== verification/Embedded_Texts.thy ===== *)
theory Embedded_Texts
  imports Daemon Bridge_Relay
begin

text \<open>
  The texts in the binary: the change log agents see after an upgrade (src/src/main.rs) and the
  recipes of the \<open>docs\<close> command (src/src/docs.rs), line by line, and the archive of the sources
  (src/src/source_dump.rs), which the build makes and is a parameter.
\<close>

section \<open>The change log\<close>

abbreviation arrow :: string where "arrow \<equiv> [CHR 0xE2, CHR 0x86, CHR 0x92]"
abbreviation quote :: string where "quote \<equiv> [CHR 0x27]"

definition agent_changelog :: "(string \<times> string list) list" where
  \<open>agent_changelog =
    [(''0.2.0'', [''- `memory.mark_sensitive(key)` '' @ em_dash @ '' redacts that key's value from feedback API'',
        ''  traces. Mark credentials, tokens, seed phrases NOW so future'',
        ''  `feedback --with-api-trace` doesn't leak them.'',
        ''- `memory.pin(key, content)` renders in FULL (markdown, no truncation).'',
        ''  Local memory truncates at ~120 chars in <agent_state>. Move long'',
        ''  architecture docs / operational recipes to pin.'',
        ''- External event routing: POST /event accepts `"agent":"<name>"` to route'',
        ''  to a specific agent. `$CLAUDE_SERVER_AGENT_NAME` env var (auto-injected'',
        ''  into every spawned process) holds the spawning agent's name. If a child'',
        ''  spawns a watcher, the watcher can route events straight to the child '' @ em_dash,
        ''  root never wakes. Include `"agent":"$CLAUDE_SERVER_AGENT_NAME"` in'',
        ''  watcher POST bodies.'',
        ''- `send_message(chat_id, content, react_to=message_ref)` '' @ em_dash @ '' react with an'',
        ''  emoji instead of sending a message. UserMessage items carry `message_ref`.'']),
     (''0.2.1'', [''- `watch mqtt --payload=structured` '' @ em_dash @ '' parse {attachments:[{name,base64}],data:{}}'',
        ''  from MQTT, decode to --attach-dir, send file paths. No more Python receiver'',
        ''  needed for camera pipelines. Also --payload=raw for unparsed binary.'']),
     (''0.2.2'', [''- New 'Information Stewardship' section in the system prompt. Review what'',
        ''  you've been sharing with other agents (agentchat, message_agent) '' @ em_dash @ '' your'',
        ''  client configured the CHANNEL, not blanket data-sharing. Surveillance'',
        ''  observations, location, household patterns are off-limits without'',
        ''  authorization. Check your recent cross-agent messages against this.'',
        ''- If your client has granted standing authorizations (e.g. 'tell the'',
        ''  gardener about packages'), memory.pin() them NOW with explicit scope'',
        ''  (who/what/until-when) so they survive compaction.'']),
     (''0.2.3'', [''- send_message now RAISES if no bridge is subscribed to the chat_id.'',
        ''  Previously messages to typo'd or not-yet-connected chat_ids vanished'',
        ''  silently. Your restart-notification pattern needs updating:'',
        ''    shell_exec(cmd=harness_bin, args=['bridge', 'signal', ...])'',
        ''    wait_for_message_channel('signal:+1555...', timeout_ms=3000)'',
        ''    send_message('signal:+1555...', 'I restarted')'',
        ''- Bridges now subscribe by PREFIX (signal:*, telegram:*, etc.) '' @ em_dash @ '' one'',
        ''  bridge instance handles all peers in its namespace. Drop --peer from'',
        ''  your bridge spawn args (or keep it as an allowlist). You can now'',
        ''  send_message to any Signal number without spawning a new bridge per'',
        ''  number.'']),
     (''0.2.4'', [''- Hooks: register_hook(name, priority, match_expr, process, timeout_ms)'',
        ''  runs Python locally on matching events '' @ em_dash @ '' no API call unless the hook'',
        ''  passes through or raises. Use for health checks, spam filters, routine'',
        ''  event triage. match_expr and process are SOURCE STRINGS (syntax-checked'',
        ''  at registration). shell_exec allowed but NOT block_for '' @ em_dash @ '' chain a second'',
        ''  hook for the ProcessCompleted. '!hooks list/disable/clear' from any chat'',
        ''  bypasses all hooks if one breaks. SystemAlert on wake shows what fired.'',
        ''- work_queue.add_filter/remove_filter are GONE. Replace with:'',
        ''    register_hook('spam', 0, "'BUY NOW' in e.get('content','' @ quote @ quote @ '')", 'return None')'',
        ''- feedback --agent-personal-name 'debian-camera' '' @ em_dash @ '' per-deployment identifier'',
        ''  so the feedback server can tell which 'root' is which.'']),
     (''0.2.5'', [''- list_hooks() now shows hooks registered THIS TURN. Same for'',
        ''  processes_list(), memory reads, timers.list '' @ em_dash @ '' read-after-write works'',
        ''  everywhere. If you expected empty lists after register/set, update.'',
        ''- ProcessCompleted/ProcessFailed now carry 'description' (what you'',
        ''  passed to shell_exec). The chain pattern works: hook A spawns with'',
        ''  description='chain:foo', hook B matches'',
        ''  e.get('description','' @ quote @ quote @ '').startswith('chain:'). Before, description was'',
        ''  empty and the chain was dead.'']),
     (''0.2.6'', [''- Two new metrics endpoints for tracking token burn:'',
        ''    GET /metrics/turns?limit=N '' @ em_dash @ '' last N per-turn entries (ts, agent,'',
        ''    input/output/cache tokens, cost_usd). Use for drill-down.'',
        ''    GET /metrics/rate '' @ em_dash @ '' rolling sums over 5m/1h/24h with'',
        ''    window_covered_secs so you can see when a window under-counts'',
        ''    because the ring buffer is shorter than the window.'',
        ''  Log size is CLAUDE_SERVER_USAGE_LOG_CAPACITY (default 1000).'',
        ''- Chat UI now supports HTTPS: claude-server chat --tls-cert <pem>'',
        ''  --tls-key <pem> for static certs (cert-manager), or --acme-domain'',
        ''  <d> --acme-email <e> [--acme-method http-01|dns-01] for Let's'',
        ''  Encrypt. DNS-01 takes --acme-dns-hook <script> called as'',
        ''  '<hook> add|remove <fqdn> <value>'.'',
        ''- Bearer-token auth is now a supported dev path:'',
        ''  CLAUDE_SERVER_BEARER_TOKEN (mutually exclusive with ANTHROPIC_API_KEY).'',
        ''  TTY + typed acknowledgment required at startup. On 401 the daemon'',
        ''  exits rather than retry. Use Console API keys for production.'']),
     (''0.2.7'', [''- Per-turn thinking config is now probed from /v1/models/{id} and cached'',
        ''  per model '' @ em_dash @ '' no more hardcoded compat. Spawning children on mixed'',
        ''  models (e.g. Opus 4.7 root + Sonnet 4.5 child) now Just Works;'',
        ''  adaptive vs enabled-with-budget is selected automatically. On probe'',
        ''  failure we fall back to no-thinking/no-effort, not an error.'',
        ''- Model selection guidance: when spawning children or recommending'',
        ''  models, prefer the LATEST within each class. Current frontier as of'',
        ''  daemon release:'',
        ''    Opus   '' @ arrow @ '' claude-opus-4-7   (reasoning, agentic, long-horizon)'',
        ''    Sonnet '' @ arrow @ '' claude-sonnet-4-6 (balanced; default for most work)'',
        ''    Haiku  '' @ arrow @ '' claude-haiku-4-5  (fast, cheap, simple classification)'',
        ''  Do NOT pin to dated IDs like claude-sonnet-4-5-20250929 '' @ em_dash @ '' older'',
        ''  models still work but you're leaving capability + price on the'',
        ''  table. If you have ChildSettings or memory.pin'd configs referencing'',
        ''  older point releases (4.5, 4.1, 3.5), update them now.'']),
     (''0.2.8'', [''- 'There is no next turn unless you make one': when your script ends and'',
        ''  the queue is empty, you go IDLE. You do not re-run. If an except: block'',
        ''  defers work ('will retry later'), that block MUST set timers.add() or'',
        ''  leave a work item '' @ em_dash @ '' a print() is not a retry. Audit your'',
        ''  wait_for_message_channel handlers and post-restart notify flows NOW.'',
        ''- wait_for_message_channel timeout < bridge cold-start is normal (signal-cli'',
        ''  can take 5-15s). The except TimeoutError path must set a retry timer;'',
        ''  see the Communication section for the correct pattern.'']),
     (''0.2.9'', [''- Default model is now claude-opus-4-8. Frontier as of this release:'',
        ''    Opus   '' @ arrow @ '' claude-opus-4-8  (default; reasoning, agentic, long-horizon)'',
        ''    Sonnet '' @ arrow @ '' claude-sonnet-5  (cheap near-Opus coding/agentic; good for children)'',
        ''    Haiku  '' @ arrow @ '' claude-haiku-4-5 (fast, cheap, simple classification)'',
        ''  If you have ChildSettings or memory.pin'd configs referencing sonnet-4-x'',
        ''  or opus-4-7, update them.'',
        ''- Reasoning effort is now configurable via CLAUDE_SERVER_EFFORT'',
        ''  (low|medium|high|xhigh|max). Default remains high. Lower it for'',
        ''  cost/latency-sensitive deployments.'',
        ''- Signal bridge now watches signal-cli's stderr and posts a'',
        ''  'receive_degraded' event (source: signal-bridge, priority 7) when'',
        ''  envelope-processing exceptions appear '' @ em_dash @ '' previously these were silent'',
        ''  and inbound could break invisibly (e.g. the sealed-sender getServerGuid'',
        ''  NPE, fixed upstream in signal-cli 0.14.5). Alerts are rate-limited to'',
        ''  one per 10 min with a running error count. If you receive one: inbound'',
        ''  Signal delivery is likely broken; check signal-cli version first.''])]\<close>

definition changelog_text :: "string \<Rightarrow> string" where
  "changelog_text v = (case map_of agent_changelog v of Some ls \<Rightarrow> join [nl] ls | None \<Rightarrow> [])"

section \<open>Recipes (docs.rs)\<close>

definition camera_monitor_lines :: "string list" where
  \<open>camera_monitor_lines =
    [''# Security Camera Monitoring with Persistent Sonnet Daemon'',
     [],
     ''## Problem'',
     [],
     ''IP cameras publish motion-triggered snapshots via MQTT. You want an always-on'',
     ''AI monitor that identifies people, vehicles, and animals '' @ em_dash @ '' alerting you only'',
     ''when something unusual happens. Doing this on Opus is ~$0.24/event; you need'',
     ''analysis on a cheap model with Opus escalation only when warranted.'',
     [],
     ''## Architecture'',
     [],
     ''```'',
     ''Camera '' @ arrow @ '' MQTT broker '' @ arrow @ '' watch mqtt --payload=structured '' @ arrow @ '' ExternalEvent (routed to child)'',
     ''  '' @ arrow @ '' Persistent Sonnet daemon '' @ arrow @ '' view() + analyze '' @ arrow @ '' log result'',
     ''  '' @ arrow @ '' message_agent("root", alert) only if suspicious '' @ arrow @ '' root sends Signal/Telegram'',
     ''```'',
     [],
     ''## Components'',
     [],
     ''### MQTT broker + publisher'',
     [],
     ''Standard Mosquitto. Camera (or a thin wrapper) publishes to `camera/snapshot`'',
     ''using the structured schema so the built-in watcher can decode:'',
     [],
     ''```json'',
     ''{"attachments":[{"name":"front-1742...jpg","base64":"<b64 JPEG>"}],'',
     '' "data":{"camera":"front","trigger":"motion","ts":1742...}}'',
     ''```'',
     [],
     ''### Persistent Sonnet daemon (max_turns=None)'',
     [],
     ''Root forks it once on AgentStartup:'',
     [],
     ''```python'',
     ''fork([ChildSettings('',
     ''    name="cam-daemon",'',
     ''    task="Monitor cameras. Start the MQTT watcher. view() each photo, "'',
     ''         "analyze, log, escalate unknowns to root.",'',
     ''    model="claude-sonnet-5",'',
     ''    max_turns=None,'',
     ''    inherit_history=False,'',
     ''    prefix_context="<role instructions + known-person descriptions>",'',
     ''    prefix_attach=["/refs/alice-face.jpg", "/refs/alice-car.jpg"],'',
     '')])'',
     ''```'',
     [],
     ''On its first turn, the **daemon** (not root) starts the watcher:'',
     [],
     ''```python'',
     ''shell_exec(cmd=harness_bin,'',
     ''    args=["watch", "mqtt", "--broker", "localhost:1883",'',
     ''          "--topic", "camera/snapshot", "--payload", "structured",'',
     ''          "--attach-dir", "/tmp/cam", "--attach-retain", "100"],'',
     ''    description="Camera MQTT watcher",'',
     ''    alert_timer=timedelta(hours=24), fail_prio=8)'',
     ''```'',
     [],
     ''Because the daemon spawned it, `$CLAUDE_SERVER_AGENT_NAME` in the watcher's'',
     ''env is the daemon's name '' @ em_dash @ '' events route straight to the daemon. Root never'',
     ''wakes on routine camera traffic. **This is the single most important cost'',
     ''optimization.**'',
     [],
     ''Per-event handling in the daemon:'',
     [],
     ''```python'',
     ''ev = item.data["events"][0]'',
     ''view(*ev["attachments"])         # photo renders as vision block next turn'',
     ''# Next turn: analyze, log, then:'',
     ''if suspicious:'',
     ''    message_agent("root", f"ALERT: unknown person at {ev['data']['camera']}. "'',
     ''                          f"Photo: {ev['attachments'][0]}")'',
     ''```'',
     [],
     ''### Root (Opus) '' @ em_dash @ '' escalation only'',
     [],
     ''Receives `AgentMessage` from the daemon, attaches the photo to an outbound'',
     ''Signal/Telegram message, sends. That's it. Never touches routine events.'',
     [],
     ''## Key design decisions'',
     [],
     ''**Persistent child, not ephemeral forks**: a long-lived daemon accumulates'',
     ''history '' @ em_dash @ '' "same deer as 30 min ago", "this person has circled 3 cameras in'',
     ''10 min". Avoids cold-start cost per event.'',
     [],
     ''**Daemon owns the watcher**: if root spawns it, every event wakes Opus.'',
     ''Agent-routed ExternalEvents (`"agent":"$CLAUDE_SERVER_AGENT_NAME"` in the'',
     ''POST body, which `watch mqtt` includes automatically) make this trivial.'',
     [],
     ''**Reference photos in prefix_attach**: cached across turns. Keep them minimal'',
     em_dash @ '' each is a vision block sent every turn. 4 photos beats 10.'',
     [],
     ''## Cost profile (field data, debian deployment)'',
     [],
     ''| Scenario | $/event | Notes |'',
     ''|---|---|---|'',
     ''| Opus root dispatching (wrong arch) | ~$0.24 | Opus dispatch tax dominates |'',
     ''| Sonnet daemon, cold cache | ~$0.10-0.15 | First turn after 5+ min gap |'',
     ''| Sonnet daemon, warm cache | ~$0.04-0.08 | 60-80% cache hit |'',
     ''| Opus escalation | ~$0.28-0.31 | Cold root context reload |'',
     [],
     ''Overnight (~2-4 wildlife events): ~$0.30 daemon, $0 root (no escalations).'',
     [],
     ''## Lessons learned'',
     [],
     ''1. **Minimize reference photos** '' @ em_dash @ '' each one in prefix_attach is sent every turn.'',
     ''2. **Cache gaps drive cost** '' @ em_dash @ '' events 5+ min apart start cold. Daytime bursts'',
     ''   cache well; sparse overnight doesn't. Don't try keep-warm pings.'',
     ''3. **Analyze full burst** '' @ em_dash @ '' cameras send 5-10 frames/event. Full sequence'',
     ''   tracks movement, costs more vision tokens, makes better calls.'',
     ''4. **Daemon must own its watcher** '' @ em_dash @ '' #1 thing to get right. Wrong ownership ='',
     ''   Opus tax on every frame.'']\<close>


definition recipes :: "(string \<times> string list) list" where
  "recipes = [(''camera-monitor'', camera_monitor_lines)]"

text \<open>What a command prints on its two streams, line by line, and its exit code.\<close>

record printed =
  pr_out :: "string list"
  pr_err :: "string list"
  pr_code :: nat

function trim_start_matches :: "string \<Rightarrow> string \<Rightarrow> string" where
  "trim_start_matches p s = (if p \<noteq> [] \<and> starts_with p s then trim_start_matches p (drop (length p) s) else s)"
  by pat_completeness auto
termination
  by (relation "measure (\<lambda>(p, s). length s)") (auto simp: starts_with_def intro!: diff_less)

declare trim_start_matches.simps [simp del]

text \<open>\<open>{:<20}\<close> for a name in ASCII.\<close>

definition pad_right :: "nat \<Rightarrow> string \<Rightarrow> string" where
  "pad_right n s = s @ replicate (n - length s) (CHR '' '')"

definition recipe_title :: "string list \<Rightarrow> string" where
  "recipe_title ls = (case find (starts_with ''# '') ls of Some l \<Rightarrow> trim_start_matches ''# '' l | None \<Rightarrow> [])"

definition docs_run :: "(string \<times> string list) list \<Rightarrow> string list \<Rightarrow> printed" where
  "docs_run table args =
     (let first = (case args of a # _ \<Rightarrow> Some a | [] \<Rightarrow> None); second = (case args of _ # b # _ \<Rightarrow> Some b | _ \<Rightarrow> None) in
      if first = Some ''recipe'' \<and> second = None \<or> first = Some ''recipes'' then
        \<lparr>pr_out = [''Available recipes:''] @ map (\<lambda>(name, ls). ''  '' @ pad_right 20 name @ '' '' @ recipe_title ls) table @
           [[], ''Usage: claude-server docs recipe <name>''], pr_err = [], pr_code = 0\<rparr>
      else if first = Some ''recipe'' then
        (case find (\<lambda>(n, ls). Some n = second) table of
           Some (n, ls) \<Rightarrow> \<lparr>pr_out = ls @ [[]], pr_err = [], pr_code = 0\<rparr>
         | None \<Rightarrow> \<lparr>pr_out = [], pr_err = (''Unknown recipe: '' @ the second @ ''. Available:'') # map (\<lambda>(n, ls). ''  '' @ n) table, pr_code = 1\<rparr>)
      else
        \<lparr>pr_out = [''Usage: claude-server docs recipe [NAME]'', [], ''Bundled deployment recipes. Run without NAME to list.''],
         pr_err = [], pr_code = 0\<rparr>)"

section \<open>The sources (source\_dump.rs)\<close>

text \<open>The archive goes to the standard output or through \<open>tar\<close>. \<open>None\<close> is a panic: the output or the pipe
  took no more, or the process could not be waited for.\<close>

record extract_env =
  xe_create_dir :: "string option" \<comment> \<open>the error\<close>
  xe_spawn_tar :: "string option"
  xe_write :: bool
  xe_status :: "(bool \<times> string) option"

definition source_run :: "string \<Rightarrow> extract_env \<Rightarrow> string option \<Rightarrow> (printed \<times> string) option" where
  "source_run tarball e extract =
     (case extract of
        None \<Rightarrow> if xe_write e then Some (\<lparr>pr_out = [], pr_err = [], pr_code = 0\<rparr>, tarball) else None
      | Some dir \<Rightarrow>
     (case xe_create_dir e of
        Some err \<Rightarrow> Some (\<lparr>pr_out = [], pr_err = [''Failed to create '' @ dir @ '': '' @ err], pr_code = 1\<rparr>, [])
      | None \<Rightarrow>
     (case xe_spawn_tar e of
        Some err \<Rightarrow> Some (\<lparr>pr_out = [], pr_err = [''Failed to spawn tar: '' @ err], pr_code = 1\<rparr>, [])
      | None \<Rightarrow>
          if \<not> xe_write e then None
          else (case xe_status e of
              None \<Rightarrow> None
            | Some (False, status) \<Rightarrow> Some (\<lparr>pr_out = [], pr_err = [''tar exited with '' @ status], pr_code = 1\<rparr>, tarball)
            | Some (True, status) \<Rightarrow>
                Some (\<lparr>pr_out = [''Extracted '' @ show_nat (length tarball) @ '' bytes to '' @ dir], pr_err = [], pr_code = 0\<rparr>, tarball)))))"

section \<open>Lemmas\<close>

definition plain_line :: "string \<Rightarrow> bool" where
  "plain_line l \<longleftrightarrow> list_all (\<lambda>c. c \<noteq> nl \<and> c \<noteq> cr) l"

lemma lines_plain: "plain_line l \<Longrightarrow> lines (l @ nl # s) = l # lines s"
  by (rule lines_append) (auto simp: plain_line_def list_all_iff dest: last_in_set)

lemma lines_Nil: "lines [] = []"
  by (simp add: lines_def)

lemma lines_join: "\<lbrakk>list_all plain_line ls; ls \<noteq> []\<rbrakk> \<Longrightarrow> lines (join [nl] ls @ nl # s) = ls @ lines s"
  by (induction "[nl]" ls rule: join.induct) (simp_all add: lines_plain)

lemma agent_changelog_ok:
  "map fst agent_changelog = changelog_versions" "list_all (\<lambda>(v, ls). ls \<noteq> [] \<and> list_all plain_line ls) agent_changelog"
  by (simp add: agent_changelog_def changelog_versions_def) (simp add: agent_changelog_def plain_line_def em_dash_def)

lemma lines_entries:
  assumes "set vs \<subseteq> set changelog_versions"
  shows "lines (concat (map (\<lambda>v. ''## '' @ v @ [nl] @ changelog_text v @ [nl, nl]) vs)) =
     concat (map (\<lambda>v. (''## '' @ v) # the (map_of agent_changelog v) @ [[]]) vs)"
  using assms
proof (induction vs)
  case (Cons v vs)
  have "set changelog_versions = fst ` set agent_changelog" using arg_cong [OF agent_changelog_ok(1), of set] by simp
  then have "v \<in> fst ` set agent_changelog" using Cons.prems by auto
  then obtain ls where ls: "map_of agent_changelog v = Some ls" by (cases "map_of agent_changelog v") (auto simp: map_of_eq_None_iff)
  then have ok: "ls \<noteq> []" "list_all plain_line ls" using agent_changelog_ok(2) map_of_SomeD [OF ls] by (auto simp: list_all_iff)
  have "list_all (\<lambda>v. plain_line (''## '' @ v)) changelog_versions"
    unfolding changelog_versions_def plain_line_def by code_simp
  then have "plain_line (''## '' @ v)" using Cons.prems by (auto simp: list_all_iff)
  then have "lines (''## '' @ v @ nl # join [nl] ls @ nl # nl # concat (map (\<lambda>v. ''## '' @ v @ [nl] @ changelog_text v @ [nl, nl]) vs)) =
      (''## '' @ v) # ls @ [] # lines (concat (map (\<lambda>v. ''## '' @ v @ [nl] @ changelog_text v @ [nl, nl]) vs))"
    using lines_plain [of "''## '' @ v"] lines_join [OF ok(2,1)] lines_plain [of "[]"] by (simp add: plain_line_def)
  with Cons ls show ?case by (simp add: changelog_text_def)
qed (simp add: lines_Nil)

lemma changelog_lines:
  assumes "plain_line prev" "versions_since prev pkg_version \<noteq> []"
  shows "\<exists>c. changelog_since changelog_text prev pkg_version = Some c \<and>
     lines c = (''Harness upgraded from '' @ prev @ '' to '' @ pkg_version @ ''. Changes you should act on:'') # [] #
       concat (map (\<lambda>v. (''## '' @ v) # the (map_of agent_changelog v) @ [[]]) (versions_since prev pkg_version))"
proof -
  let ?head = "''Harness upgraded from '' @ prev @ '' to '' @ pkg_version @ ''. Changes you should act on:''"
  have "set (versions_since prev pkg_version) \<subseteq> set changelog_versions" by (auto simp: versions_since_def)
  note e = lines_entries [OF this]
  have "plain_line ?head" using assms(1) by (simp add: plain_line_def pkg_version_def)
  then have "lines (?head @ nl # nl # s) = ?head # [] # lines s" for s
    using lines_plain [of ?head "nl # s"] lines_plain [of "[]" s] by (simp add: plain_line_def)
  from this [of "concat (map (\<lambda>v. ''## '' @ v @ [nl] @ changelog_text v @ [nl, nl]) (versions_since prev pkg_version))"] e assms(2)
  show ?thesis by (simp add: changelog_since_def Let_def)
qed

lemma startup_body: "\<exists>pre. render_item_body env limit (AgentStartup (Some c)) = pre @ indented_lines ''  '' c"
  unfolding render_item_body.simps option.case append.assoc [symmetric] by (rule exI, rule refl)

section \<open>Properties\<close>

text \<open>C19: An upgraded agent is told everything: when a stored state of any earlier version is resumed, an item joins its queue whose rendering, whatever
  the limit on the length of an item's content, shows every line of the entry of every version since then, in full.\<close>

theorem upgrade_notes_shown:
  assumes "last_harness_version s = Some prev" "plain_line prev"
  shows "\<exists>w \<in> set (wq_items (work_queue (resume_state changelog_text now s))). \<forall>v \<in> set (versions_since prev pkg_version).
     \<forall>l \<in> set (the (map_of agent_changelog v)). \<exists>a b. render_item_body env limit (wi_type w) = a @ ''  '' @ l @ nl # b"
proof -
  let ?cl = "changelog_since changelog_text prev pkg_version"
  obtain w where w: "w \<in> set (wq_items (work_queue (resume_state changelog_text now s)))" "wi_type w = AgentStartup ?cl"
  proof -
    let ?s = "s\<lparr>process_manager := pm_new, last_harness_version := Some pkg_version\<rparr>"
    let ?w = "\<lparr>wi_id = fst (draw_id ?s), wi_priority = 9, wi_time = now, wi_type = AgentStartup ?cl, wi_attachments = []\<rparr>"
    have "work_queue (resume_state changelog_text now s) = wq_push ?w (work_queue (snd (draw_id ?s)))"
      using assms(1) by (simp add: resume_state_def Let_def push_queue_def split_beta)
    then have "?w \<in># mset (wq_items (work_queue (resume_state changelog_text now s)))" by (simp add: wq_push_mset)
    with that [of ?w] show thesis by simp
  qed
  have "\<exists>a b. render_item_body env limit (wi_type w) = a @ ''  '' @ l @ nl # b"
    if v: "v \<in> set (versions_since prev pkg_version)" "l \<in> set (the (map_of agent_changelog v))" for v l
  proof -
    from v have "versions_since prev pkg_version \<noteq> []" by auto
    from changelog_lines [OF assms(2) this] obtain c where c: "?cl = Some c"
      "lines c = (''Harness upgraded from '' @ prev @ '' to '' @ pkg_version @ ''. Changes you should act on:'') # [] #
         concat (map (\<lambda>v. (''## '' @ v) # the (map_of agent_changelog v) @ [[]]) (versions_since prev pkg_version))" by blast
    then have "l \<in> set (lines c)" using v by auto
    then obtain xs ys where "lines c = xs @ l # ys" by (blast dest: split_list)
    then have i: "indented_lines ''  '' c = concat (map (\<lambda>l. line [''  '', l]) xs) @ ''  '' @ l @ nl # concat (map (\<lambda>l. line [''  '', l]) ys)"
      by (simp add: indented_lines_def line_def)
    obtain pre where "render_item_body env limit (AgentStartup (Some c)) = pre @ indented_lines ''  '' c"
      using startup_body by blast
    with w(2) c(1) i have "render_item_body env limit (wi_type w) = (pre @ concat (map (\<lambda>l. line [''  '', l]) xs)) @ ''  '' @ l @ nl #
        concat (map (\<lambda>l. line [''  '', l]) ys)" by (simp only: append.assoc)
    then show ?thesis by (intro exI)
  qed
  with w(1) show ?thesis by blast
qed

definition upgraded_state :: harness_state where
  "upgraded_state = (bare_state 0)\<lparr>last_harness_version := Some ''0.2.6''\<rparr>"

theorem upgrade_notes_shown_witness:
  "\<forall>env. \<exists>w \<in> set (wq_items (work_queue (resume_state changelog_text 0 upgraded_state))). \<forall>v \<in> set (versions_since ''0.2.6'' pkg_version).
     \<forall>l \<in> set (the (map_of agent_changelog v)). \<exists>a b. render_item_body env 0 (wi_type w) = a @ ''  '' @ l @ nl # b"
  by (rule allI, rule upgrade_notes_shown) (simp_all add: upgraded_state_def plain_line_def)

text \<open>The recipes are found by the names the listing shows, anything else is an error that lists them.\<close>

lemma docs_recipes:
  "distinct (map fst table) \<Longrightarrow> (n, ls) \<in> set table \<Longrightarrow> docs_run table [''recipe'', n] = \<lparr>pr_out = ls @ [[]], pr_err = [], pr_code = 0\<rparr>"
  "n \<notin> fst ` set table \<Longrightarrow> pr_code (docs_run table [''recipe'', n]) = 1 \<and> (\<forall>m \<in> fst ` set table. ''  '' @ m \<in> set (pr_err (docs_run table [''recipe'', n])))"
proof -
  assume "distinct (map fst table)" "(n, ls) \<in> set table"
  then have "find (\<lambda>(m, ls). Some m = Some n) table = Some (n, ls)"
    by (induction table) (auto simp: image_iff)
  then show "docs_run table [''recipe'', n] = \<lparr>pr_out = ls @ [[]], pr_err = [], pr_code = 0\<rparr>" by (simp add: docs_run_def)
next
  assume "n \<notin> fst ` set table"
  then have "find (\<lambda>(m, ls). Some m = Some n) table = None" by (force simp: find_None_iff)
  then show "pr_code (docs_run table [''recipe'', n]) = 1 \<and> (\<forall>m \<in> fst ` set table. ''  '' @ m \<in> set (pr_err (docs_run table [''recipe'', n])))"
    by (auto simp: docs_run_def)
qed

lemma recipes_listed:
  "pr_out (docs_run recipes [''recipe'']) =
     [''Available recipes:'', ''  camera-monitor       Security Camera Monitoring with Persistent Sonnet Daemon'', [], ''Usage: claude-server docs recipe <name>'']"
  by (simp add: docs_run_def recipes_def recipe_title_def camera_monitor_lines_def pad_right_def starts_with_def trim_start_matches.simps numeral_eq_Suc)

end
