(* ===== verification/Commands.thy ===== *)
theory Commands
  imports Routes Embedded_Texts Tls Bridge_Sessions
begin

text \<open>
  The commands of the binary (\<open>main\<close> of src/src/main.rs and the \<open>run\<close> functions it calls): what
  each prints and the code it exits with, the client that reports feedback (\<open>run\_client\<close> of
  src/src/feedback.rs) with the request as the server reads it, how the web chat and the two
  other servers start, and what asks the daemon to stop. The loops behind the commands are in
  their own theories; here they are the result they end with. \<open>None\<close> is a panic.
\<close>

section \<open>The feedback client\<close>

record feedback_args =
  fa_summary :: string
  fa_details :: "string option"
  fa_repro :: "string option"
  fa_personal_name :: "string option"
  fa_url :: string
  fa_with_api_trace :: bool

text \<open>The environment: two variables, what a GET for JSON gives within its time, and a POST: the status of the answer, or the
  error with its causes.\<close>

record feedback_client_env =
  ce_event_url :: "string option"
  ce_agent_name :: "string option"
  ce_get_json :: "string \<Rightarrow> json option"
  ce_post :: "string \<Rightarrow> json \<Rightarrow> (string \<times> string list) + nat"
  ce_status_text :: "nat \<Rightarrow> string"

definition feedback_trace :: "feedback_client_env \<Rightarrow> feedback_args \<Rightarrow> json option" where
  "feedback_trace e a = (if fa_with_api_trace a then ce_get_json e (trace_url (ce_event_url e)) else None)"

definition feedback_body :: "feedback_client_env \<Rightarrow> feedback_args \<Rightarrow> json" where
  "feedback_body e a = JObj
     [(''summary'', JStr (fa_summary a)), (''details'', opt_str (fa_details a)), (''repro'', opt_str (fa_repro a)),
      (''harness_version'', JStr pkg_version), (''agent_name'', opt_str (ce_agent_name e)),
      (''agent_personal_name'', opt_str (fa_personal_name a)),
      (''api_trace'', case feedback_trace e a of Some t \<Rightarrow> t | None \<Rightarrow> JNull)]"

definition feedback_outcome :: "(nat \<Rightarrow> string) \<Rightarrow> string \<Rightarrow> (string \<times> string list) + nat \<Rightarrow> printed" where
  "feedback_outcome status_text url r =
     (case r of
        Inr status \<Rightarrow>
          if 200 \<le> status \<and> status < 300 then \<lparr>pr_out = [''Feedback sent to '' @ url], pr_err = [], pr_code = 0\<rparr>
          else \<lparr>pr_out = [], pr_err = [''Feedback server returned '' @ status_text status @ '': '' @ url], pr_code = 1\<rparr>
      | Inl (err, causes) \<Rightarrow>
          \<lparr>pr_out = [], pr_err = (''Failed to send feedback to '' @ url @ '': '' @ err) # map (\<lambda>c. ''  caused by: '' @ c) causes, pr_code = 1\<rparr>)"

definition run_client :: "feedback_client_env \<Rightarrow> feedback_args \<Rightarrow> printed" where
  "run_client e a = feedback_outcome (ce_status_text e) (fa_url a) (ce_post e (fa_url a) (feedback_body e a))"

section \<open>The request, as the server reads it\<close>

definition json_field :: "json option \<Rightarrow> json option" where
  "json_field f = (case f of Some JNull \<Rightarrow> None | _ \<Rightarrow> f)"

definition feedback_fields ::
  "json option \<Rightarrow> json option \<Rightarrow> json option \<Rightarrow> json option \<Rightarrow> json option \<Rightarrow> json option \<Rightarrow> json option \<Rightarrow> feedback_req option" where
  "feedback_fields summary details repro version agent personal trace =
     (case (string_field summary, opt_string_field details, opt_string_field repro, opt_string_field version, opt_string_field agent,
        opt_string_field personal) of
        (Some s, Some d, Some r, Some v, Some a, Some p) \<Rightarrow>
          Some \<lparr>fq_summary = s, fq_details = d, fq_repro = r, fq_harness_version = v, fq_agent_name = a, fq_agent_personal_name = p,
            fq_api_trace = json_field trace\<rparr>
      | _ \<Rightarrow> None)"

fun parse_feedback_req :: "json \<Rightarrow> feedback_req option" where
  "parse_feedback_req (JObj m) =
     (if known_once [''summary'', ''details'', ''repro'', ''harness_version'', ''agent_name'', ''agent_personal_name'', ''api_trace''] m
      then feedback_fields (map_of m ''summary'') (map_of m ''details'') (map_of m ''repro'') (map_of m ''harness_version'')
        (map_of m ''agent_name'') (map_of m ''agent_personal_name'') (map_of m ''api_trace'')
      else None)"
| "parse_feedback_req (JArr [s, d, r, v, a]) = feedback_fields (Some s) (Some d) (Some r) (Some v) (Some a) None None"
| "parse_feedback_req (JArr [s, d, r, v, a, p]) = feedback_fields (Some s) (Some d) (Some r) (Some v) (Some a) (Some p) None"
| "parse_feedback_req (JArr [s, d, r, v, a, p, t]) = feedback_fields (Some s) (Some d) (Some r) (Some v) (Some a) (Some p) (Some t)"
| "parse_feedback_req _ = None"

text \<open>A body longer than axum's limit never reaches the handler.\<close>

definition post_feedback ::
  "nat \<Rightarrow> feedback_env \<Rightarrow> time \<Rightarrow> string \<Rightarrow> bool \<Rightarrow> string \<Rightarrow> json \<Rightarrow> feedback_server \<Rightarrow> (nat + json) \<times> feedback_server" where
  "post_feedback body_limit e now ts stored ip body s =
     (if body_limit < length (fe_print e body) then (Inl 413, s)
      else case parse_feedback_req body of
        None \<Rightarrow> (Inl 422, s)
      | Some req \<Rightarrow> handle_post e now ts stored ip req s)"

definition status_of :: "nat + json \<Rightarrow> nat" where
  "status_of r = (case r of Inl status \<Rightarrow> status | Inr j \<Rightarrow> 200)"

section \<open>The feedback server\<close>

record server_env =
  se_open_db :: "(string, feedback_db) sum" \<comment> \<open>the tables are made, or the error\<close>
  se_valid_addr :: "string \<Rightarrow> bool"
  se_bind :: bool
  se_tls :: "string \<Rightarrow> string \<Rightarrow> bool" \<comment> \<open>certificate and key build an acceptor\<close>

definition run_server :: "server_env \<Rightarrow> string \<Rightarrow> string option \<Rightarrow> string option \<times> string option \<Rightarrow> (string list \<times> bool \<times> feedback_server) option" where
  "run_server e listen admin_token tls =
     (case se_open_db e of
        Inl err \<Rightarrow> None
      | Inr db \<Rightarrow>
          if \<not> se_valid_addr e listen \<or> \<not> se_bind e then None
          else
            let banner =
              [''Feedback server listening on '' @ (if fst tls \<noteq> None then ''https'' else ''http'') @ ''://'' @ listen,
               ''  POST /feedback '' @ em_dash @ '' public, rate-limited ('' @ show_nat rate_limit_per_min @ ''/min/IP)'',
               ''  GET  /feedback '' @ em_dash @ '' '' @
                 (if admin_token \<noteq> None then ''admin-only (Bearer token)'' else ''disabled (no admin token set)'')];
              server = \<lparr>fs_db = db, fs_admin_token = admin_token, fs_rate_limiter = []\<rparr>
            in case tls of
                 (Some cert, Some key) \<Rightarrow> if se_tls e cert key then Some (banner, True, server) else None
               | _ \<Rightarrow> Some (banner, False, server))"

section \<open>The web chat\<close>

text \<open>How serving ends: with TLS, an error or never (\<open>Inr\<close>); without, the error of the bind.\<close>

definition run_chat_server :: "tls_args \<Rightarrow> string \<Rightarrow> string \<Rightarrow> string + unit \<Rightarrow> string option \<Rightarrow> printed" where
  "run_chat_server tls api_url addr served bind_err =
     (case validate tls of
        Inl e \<Rightarrow> \<lparr>pr_out = [], pr_err = [''error: '' @ e], pr_code = 2\<rparr>
      | Inr _ \<Rightarrow>
          let scheme = (if is_enabled tls then ''https'' else ''http'');
              out = [''Chat UI running at '' @ scheme @ ''://'' @ addr, ''Proxying /api '' @ arrow @ '' '' @ chat_backend api_url, [],
                ''Open your browser to '' @ scheme @ ''://'' @ addr]
          in if is_enabled tls then
               (case served of
                  Inl e \<Rightarrow> \<lparr>pr_out = out, pr_err = [''TLS server error: '' @ e], pr_code = 1\<rparr>
                | Inr _ \<Rightarrow> \<lparr>pr_out = out, pr_err = [], pr_code = 0\<rparr>)
             else (case bind_err of
                  Some e \<Rightarrow> \<lparr>pr_out = out, pr_err = [''Failed to bind to '' @ addr @ '': '' @ e], pr_code = 1\<rparr>
                | None \<Rightarrow> \<lparr>pr_out = out, pr_err = [], pr_code = 0\<rparr>))"

text \<open>With TLS (\<open>serve\<close> of src/src/tls.rs): the material, the configuration made of it, and from when on it is renewed.\<close>

definition tls_serve ::
  "(string + cert_material) option \<Rightarrow> (string \<Rightarrow> string \<Rightarrow> string + unit) \<Rightarrow> tls_args \<Rightarrow> time \<Rightarrow> string + unit \<Rightarrow> (renewal option \<times> (string + unit)) option" where
  "tls_serve material from_pem a now served =
     (case material of
        None \<Rightarrow> None
      | Some (Inl e) \<Rightarrow> Some (None, Inl e)
      | Some (Inr m) \<Rightarrow>
     (case from_pem (cm_cert m) (cm_key m) of
        Inl e \<Rightarrow> Some (None, Inl (''build rustls config: '' @ e))
      | Inr _ \<Rightarrow>
          Some (if tl_domains a \<noteq> [] then Some \<lparr>rn_now = now, rn_not_after = cm_not_after m, rn_served = m\<rparr> else None,
            map_sum (\<lambda>e. ''axum-server serve: '' @ e) id served)))"

section \<open>Bridges, watchers, the webhook proxy\<close>

definition run_async :: "string \<Rightarrow> string + unit \<Rightarrow> printed" where
  "run_async tag r =
     (case r of
        Inl e \<Rightarrow> \<lparr>pr_out = [], pr_err = [''['' @ tag @ ''] error: '' @ e], pr_code = 1\<rparr>
      | Inr _ \<Rightarrow> \<lparr>pr_out = [], pr_err = [], pr_code = 0\<rparr>)"

datatype bridge_cmd = Stdio | Signal | Telegram | Slack | Discord | Email | Agentchat

fun bridge_tag :: "bridge_cmd \<Rightarrow> string" where
  "bridge_tag Stdio = ''stdio bridge''"
| "bridge_tag Signal = ''signal bridge''"
| "bridge_tag Telegram = ''telegram bridge''"
| "bridge_tag Slack = ''slack bridge''"
| "bridge_tag Discord = ''discord bridge''"
| "bridge_tag Email = ''email bridge''"
| "bridge_tag Agentchat = ''agentchat bridge''"

datatype watch_cmd = Watch_Fs | Watch_Mqtt | Watch_Imap

definition webhook_banner :: "string \<Rightarrow> string option \<Rightarrow> string option \<Rightarrow> string option \<Rightarrow> string list" where
  "webhook_banner addr github_secret slack_secret generic_token =
     (let enabled = (\<lambda>s. case s of Some x \<Rightarrow> ''enabled'' | None \<Rightarrow> ''disabled (no secret configured)'') in
      [''Webhook proxy listening on '' @ addr, ''  /github  '' @ em_dash @ '' '' @ enabled github_secret,
       ''  /slack   '' @ em_dash @ '' '' @ enabled slack_secret, ''  /generic '' @ em_dash @ '' '' @ enabled generic_token])"

section \<open>main\<close>

datatype cmd =
    Chat tls_args string string \<comment> \<open>the backend, the address\<close>
  | Source "string option"
  | Bridge bridge_cmd
  | Feedback feedback_args
  | Watch watch_cmd
  | Webhook_Proxy
  | Docs "string list"

record main_env =
  me_chat :: "(string + unit) \<times> string option"
  me_tarball :: string
  me_extract :: extract_env
  me_bridge :: "bridge_cmd \<Rightarrow> string + unit"
  me_feedback :: feedback_client_env
  me_watch :: "watch_cmd \<Rightarrow> string + unit"
  me_webhook :: "string + unit"
  me_daemon :: "string + unit"

definition main :: "main_env \<Rightarrow> cmd option \<Rightarrow> printed option" where
  "main e c =
     (case c of
        Some (Chat tls api_url addr) \<Rightarrow> Some (run_chat_server tls api_url addr (fst (me_chat e)) (snd (me_chat e)))
      | Some (Source extract) \<Rightarrow> map_option fst (source_run (me_tarball e) (me_extract e) extract)
      | Some (Bridge b) \<Rightarrow> Some (run_async (bridge_tag b) (me_bridge e b))
      | Some (Feedback a) \<Rightarrow> Some (run_client (me_feedback e) a)
      | Some (Watch w) \<Rightarrow> Some (run_async ''watch'' (me_watch e w))
      | Some Webhook_Proxy \<Rightarrow> Some (run_async ''webhook-proxy'' (me_webhook e))
      | Some (Docs args) \<Rightarrow> Some (docs_run recipes args)
      | None \<Rightarrow>
          Some (case me_daemon e of
            Inl err \<Rightarrow> \<lparr>pr_out = [], pr_err = [''Error: '' @ err], pr_code = 1\<rparr>
          | Inr _ \<Rightarrow> \<lparr>pr_out = [], pr_err = [], pr_code = 0\<rparr>))"

section \<open>Stopping the daemon\<close>

text \<open>What asks for a shutdown: Ctrl-C, the end of the local chat's input, \<open>POST /shutdown\<close>. The second Ctrl-C ends the process.\<close>

datatype stop_event = Ctrl_C | Stdin_End | Shutdown_Request

record stopping =
  sp_shutdown :: bool
  sp_interrupted :: bool
  sp_exit :: "nat option"

definition not_stopping :: stopping where
  "not_stopping = \<lparr>sp_shutdown = False, sp_interrupted = False, sp_exit = None\<rparr>"

definition stop_step :: "stop_event \<Rightarrow> stopping \<Rightarrow> stopping" where
  "stop_step ev s =
     (if sp_exit s \<noteq> None then s
      else case ev of
        Ctrl_C \<Rightarrow> if sp_interrupted s then s\<lparr>sp_exit := Some 130\<rparr> else s\<lparr>sp_shutdown := True, sp_interrupted := True\<rparr>
      | _ \<Rightarrow> s\<lparr>sp_shutdown := True\<rparr>)"

text \<open>The local chat is a subscriber for as long as the daemon runs.\<close>

definition local_registration :: "bool \<Rightarrow> subscriber_inner \<Rightarrow> subscriber_inner" where
  "local_registration with_chat r = (if with_chat then snd (subs_register local_chat_id r) else r)"

section \<open>Lemmas\<close>

definition report_of :: "feedback_client_env \<Rightarrow> feedback_args \<Rightarrow> feedback_req" where
  "report_of ce a =
     \<lparr>fq_summary = fa_summary a, fq_details = fa_details a, fq_repro = fa_repro a, fq_harness_version = Some pkg_version,
      fq_agent_name = ce_agent_name ce, fq_agent_personal_name = fa_personal_name a, fq_api_trace = json_field (feedback_trace ce a)\<rparr>"

lemma parse_feedback_body: "parse_feedback_req (feedback_body ce a) = Some (report_of ce a)"
  by (cases "feedback_trace ce a")
    (simp_all add: feedback_body_def known_once_def feedback_fields_def report_of_def json_field_def)

text \<open>A report that is stored is the newest row, and no row had its id before.\<close>

lemma handle_post_row:
  assumes "handle_post e now ts stored ip req s = (Inr j, s')" "reports_ok (fs_db s)"
  shows "\<exists>row. fd_rows (fs_db s') = fd_rows (fs_db s) @ [row] \<and> fr_req row = req \<and> fr_trace_json row = map_option (fe_print e) (fq_api_trace req)
    \<and> fr_id row = fd_last_rowid (fs_db s) + 1 \<and> fs_admin_token s' = fs_admin_token s \<and> (\<forall>r \<in> set (fd_rows (fs_db s)). fr_id r \<noteq> fr_id row)"
  using assms by (fastforce simp: handle_post_def Let_def reports_ok_def split: prod.splits if_splits)

lemma check_admin_token: "fs_admin_token s' = fs_admin_token s \<Longrightarrow> check_admin s' hs = check_admin s hs"
  by (simp add: check_admin_def)

lemma find_last: "\<lbrakk>\<forall>x \<in> set xs. \<not> P x; P y\<rbrakk> \<Longrightarrow> find P (xs @ [y]) = Some y"
  by (induction xs) auto

lemma stored_trace:
  assumes "handle_post e now ts stored ip req s = (Inr j, s')" "reports_ok (fs_db s)" "check_admin s hs = None"
    and "\<forall>t. fq_api_trace req = Some t \<longrightarrow> fe_parse e (fe_print e t) = Some t"
  shows "handle_get_trace e hs (int (fd_last_rowid (fs_db s) + 1)) s' = (case fq_api_trace req of Some t \<Rightarrow> Inr t | None \<Rightarrow> Inl 404)"
proof -
  obtain row where row: "fd_rows (fs_db s') = fd_rows (fs_db s) @ [row]" "fr_trace_json row = map_option (fe_print e) (fq_api_trace req)"
    "fr_id row = fd_last_rowid (fs_db s) + 1" "fs_admin_token s' = fs_admin_token s" "\<forall>r \<in> set (fd_rows (fs_db s)). fr_id r \<noteq> fr_id row"
    using handle_post_row [OF assms(1,2)] by blast
  have "find (\<lambda>r. int (fr_id r) = int (fd_last_rowid (fs_db s) + 1)) (fd_rows (fs_db s')) = Some row"
    unfolding row(1) by (rule find_last) (use row(3,5) in auto)
  moreover have "check_admin s' hs = None" using check_admin_token [OF row(4)] assms(3) by simp
  ultimately show ?thesis using row(2) assms(4) by (cases "fq_api_trace req") (simp_all add: handle_get_trace_def)
qed

lemma handle_post_answer:
  "handle_post e now ts stored ip req s = (ans, s') \<Longrightarrow>
     (\<exists>j. ans = Inr j) = (stored \<and> fst (rate_check now ip (fs_rate_limiter s))) \<and>
     ((\<exists>j. ans = Inr j) \<or> fs_db s' = fs_db s \<and> ans \<in> {Inl 429, Inl 500})"
  by (auto simp: handle_post_def Let_def split: prod.splits if_splits)

lemma post_feedback_answer:
  assumes "post_feedback body_limit e now ts stored ip (feedback_body ce a) s = (ans, s')"
  shows "(\<exists>j. ans = Inr j) = (length (fe_print e (feedback_body ce a)) \<le> body_limit \<and> stored \<and> fst (rate_check now ip (fs_rate_limiter s)))"
    "(\<exists>j. ans = Inr j) \<or> fs_db s' = fs_db s \<and> ans \<in> {Inl 413, Inl 429, Inl 500}"
    "ans = Inr j \<Longrightarrow> handle_post e now ts stored ip (report_of ce a) s = (Inr j, s')"
  using assms handle_post_answer [of e now ts stored ip "report_of ce a" s ans s']
  by (auto simp: post_feedback_def parse_feedback_body split: if_splits)



text \<open>Requests to stop.\<close>

lemma stop_steps:
  "(sp_shutdown (fold stop_step evs not_stopping) \<longleftrightarrow> evs \<noteq> []) \<and>
   (sp_interrupted (fold stop_step evs not_stopping) \<longleftrightarrow> 1 \<le> count_list evs Ctrl_C) \<and>
   sp_exit (fold stop_step evs not_stopping) = (if 2 \<le> count_list evs Ctrl_C then Some 130 else None)"
proof (induction evs rule: rev_induct)
  case (snoc ev evs)
  obtain a b c where s: "fold stop_step evs not_stopping = \<lparr>sp_shutdown = a, sp_interrupted = b, sp_exit = c\<rparr>"
    by (cases "fold stop_step evs not_stopping")
  from snoc.IH show ?case unfolding fold_append comp_apply s by (cases ev; cases b) (auto simp: stop_step_def)
qed (simp add: not_stopping_def)

section \<open>Properties\<close>


text \<open>The run of the witness: a daemon that serves two traces, a server that has had one report.\<close>

definition sample_report :: feedback_args where
  "sample_report = \<lparr>fa_summary = ''slow'', fa_details = None, fa_repro = Some ''wait'', fa_personal_name = None, fa_url = ''https://f/feedback'',
     fa_with_api_trace = True\<rparr>"

definition sample_trace_print :: "json \<Rightarrow> string" where
  "sample_trace_print j = (if j = JArr [] then ''[]'' else ''{}'')"

definition sample_reports :: feedback_env where
  "sample_reports = \<lparr>fe_sha256_hex = id, fe_parse = (\<lambda>s. if s = ''[]'' then Some (JArr []) else None), fe_print = sample_trace_print\<rparr>"

definition sample_reporter :: feedback_client_env where
  "sample_reporter = \<lparr>ce_event_url = Some ''http://127.0.0.1:4000/event'', ce_agent_name = Some ''root'',
     ce_get_json = (\<lambda>url. if url = ''http://127.0.0.1:4000/api-trace'' then Some (JArr []) else None),
     ce_post = (\<lambda>url body. Inr 200), ce_status_text = show_nat\<rparr>"

definition sample_collector :: feedback_server where
  "sample_collector = \<lparr>fs_db = \<lparr>fd_rows = [], fd_last_rowid = 4, fd_users = []\<rparr>, fs_admin_token = Some ''t'', fs_rate_limiter = []\<rparr>"


text \<open>A command that fails says so: it exits with 0 exactly when it has nothing on stderr, otherwise with 1, except that the web chat refuses
  its TLS arguments, and nothing else, with 2, before it listens or prints anything.\<close>

theorem commands_fail_loudly:
  "\<forall>p. main e c = Some p \<longrightarrow> (pr_code p = 0 \<longleftrightarrow> pr_err p = []) \<and> pr_code p \<le> 2 \<and>
     (pr_code p = 2 \<longleftrightarrow> (\<exists>tls api_url addr err. c = Some (Chat tls api_url addr) \<and> validate tls = Inl err \<and> pr_out p = [] \<and> pr_err p = [''error: '' @ err]))"
proof (intro allI impI)
  fix p assume p: "main e c = Some p"
  show "(pr_code p = 0 \<longleftrightarrow> pr_err p = []) \<and> pr_code p \<le> 2 \<and>
     (pr_code p = 2 \<longleftrightarrow> (\<exists>tls api_url addr err. c = Some (Chat tls api_url addr) \<and> validate tls = Inl err \<and> pr_out p = [] \<and> pr_err p = [''error: '' @ err]))"
  proof (cases c)
    case None
    with p show ?thesis by (auto simp: main_def split: sum.splits)
  next
    case (Some x)
    show ?thesis
    proof (cases x)
      case (Chat tls api_url addr)
      with p Some show ?thesis
        by (cases "validate tls") (auto simp: main_def run_chat_server_def Let_def split: if_splits sum.splits option.splits)
    next
      case (Source dir)
      with p Some show ?thesis
        by (auto simp: main_def source_run_def split: option.splits if_splits prod.splits bool.splits)
    next
      case (Docs args)
      with p Some show ?thesis
        by (auto simp: main_def docs_run_def Let_def split: list.splits option.splits if_splits)
    next
      case (Feedback a)
      with p Some show ?thesis by (auto simp: main_def run_client_def feedback_outcome_def split: sum.splits if_splits)
    qed (use p Some in \<open>auto simp: main_def run_async_def split: sum.splits\<close>)
  qed
qed

definition sample_main :: main_env where
  "sample_main = \<lparr>me_chat = (Inr (), None), me_tarball = [], me_extract = \<lparr>xe_create_dir = None, xe_spawn_tar = None, xe_write = True, xe_status = None\<rparr>,
     me_bridge = (\<lambda>b. Inl ''no token''), me_feedback = sample_reporter, me_watch = (\<lambda>w. Inr ()), me_webhook = Inr (), me_daemon = Inr ()\<rparr>"

theorem commands_fail_loudly_witness:
  "pr_code (run_async ''slack bridge'' (Inl ''no token'')) \<noteq> 0"
proof -
  have m: "main sample_main (Some (Bridge Slack)) = Some (run_async ''slack bridge'' (Inl ''no token''))"
    by (simp add: main_def sample_main_def)
  have "pr_err (run_async ''slack bridge'' (Inl ''no token'')) \<noteq> []" by (simp add: run_async_def)
  with commands_fail_loudly [of sample_main "Some (Bridge Slack)", THEN spec, THEN mp, OF m] show ?thesis by simp
qed

text \<open>A stop is never lost and never forced by accident: after any requests in any order, the turn in progress has been told to stop exactly when
  there was one, and the process is ended at once exactly when Ctrl-C came twice.\<close>

theorem stop_requests_exact:
  "(sp_shutdown (fold stop_step evs not_stopping) \<longleftrightarrow> evs \<noteq> []) \<and>
   sp_exit (fold stop_step evs not_stopping) = (if 2 \<le> count_list evs Ctrl_C then Some 130 else None)"
  using stop_steps [of evs] by simp

text \<open>While the local chat is there its messages have a receiver.\<close>

lemma local_chat_reachable: "would_reach local_chat_id (local_registration True r)"
proof -
  have "guard_of local_chat_id = \<lparr>sg_key = local_chat_id, sg_is_prefix = False\<rparr>" by code_simp
  then show ?thesis using count_up_key [of local_chat_id "si_exact r"]
    by (simp add: would_reach_def local_registration_def subs_register_def map_of_eq_None_iff)
qed

text \<open>A certificate that was obtained is renewed while it is served, one that was given is not.\<close>

lemma served_and_renewed:
  assumes "tls_serve (serve_material env read a t0 cache) from_pem a now served = Some (r, Inr u)"
  shows "r = None \<longleftrightarrow> tl_domains a = []"
  using assms by (auto simp: tls_serve_def split: option.splits sum.splits if_splits)

end
