(* ===== verification/Api_Clients.thy ===== *)
theory Api_Clients
  imports Api_Client Config
begin

text \<open>
  Clients of the API and the cache of model capabilities they share (\<open>ApiClient::new\<close>,
  \<open>new\_with\_prompt\<close>, \<open>with\_trace\<close> of src/src/api\_client.rs and \<open>ModelCapabilityCache\<close> of
  src/src/model\_capabilities.rs): the caches are a store and a client has the address of one, as a
  child's client has its parent's. The network is a function of a URL and its headers.
\<close>

section \<open>Requests\<close>

definition auth_headers :: "auth_credential \<Rightarrow> (string \<times> string) list" where
  "auth_headers a =
     (case a of
        ApiKey k \<Rightarrow> [(''x-api-key'', k)]
      | Bearer token \<Rightarrow> [(''authorization'', ''Bearer '' @ token), (''anthropic-beta'', ''oauth-2025-04-20'')])"

definition message_headers :: "auth_credential \<Rightarrow> (string \<times> string) list" where
  "message_headers a = [(''anthropic-version'', ''2023-06-01''), (''content-type'', ''application/json'')] @ auth_headers a"

definition messages_url :: "config \<Rightarrow> string" where
  "messages_url c = c_api_base_url c @ ''/v1/messages''"

text \<open>An answer: its status, its text and the JSON it is, if any.\<close>

type_synonym get_json = "string \<Rightarrow> (string \<times> string) list \<Rightarrow> string + nat \<times> string \<times> json option"

definition model_url :: "config \<Rightarrow> string \<Rightarrow> string" where
  "model_url c model = c_api_base_url c @ ''/v1/models/'' @ model"

definition fetch_capabilities :: "get_json \<Rightarrow> (nat \<Rightarrow> string) \<Rightarrow> config \<Rightarrow> string \<Rightarrow> string + json" where
  "fetch_capabilities net status_text c model =
     (case net (model_url c model) ((''anthropic-version'', ''2023-06-01'') # auth_headers (c_auth c)) of
        Inl e \<Rightarrow> Inl e
      | Inr (status, text, parsed) \<Rightarrow>
          if \<not> (200 \<le> status \<and> status < 300) then Inl (''GET '' @ model_url c model @ '' returned '' @ status_text status @ '': '' @ text)
          else (case parsed of None \<Rightarrow> Inl ''error decoding response body'' | Some body \<Rightarrow> Inr body))"

section \<open>Clients\<close>

record api_client =
  cl_config :: config
  cl_prompt :: string
  cl_traced :: bool
  cl_capabilities :: nat \<comment> \<open>the address of its cache\<close>

type_synonym cap_store = "(string, model_capabilities) hmap list"

text \<open>\<open>None\<close>: the file of the prompt cannot be read.\<close>

definition client_new :: "(string \<Rightarrow> string option) \<Rightarrow> config \<Rightarrow> cap_store \<Rightarrow> (api_client \<times> cap_store) option" where
  "client_new read c w =
     map_option (\<lambda>p. (\<lparr>cl_config = c, cl_prompt = p, cl_traced = False, cl_capabilities = length w\<rparr>, w @ [[]])) (load_system_prompt read c)"

definition client_with_prompt :: "config \<Rightarrow> string \<Rightarrow> nat \<Rightarrow> api_client" where
  "client_with_prompt c prompt caps = \<lparr>cl_config = c, cl_prompt = prompt, cl_traced = False, cl_capabilities = caps\<rparr>"

definition client_with_trace :: "api_client \<Rightarrow> api_client" where
  "client_with_trace cl = cl\<lparr>cl_traced := True\<rparr>"

definition capability_cache :: "api_client \<Rightarrow> nat" where
  "capability_cache cl = cl_capabilities cl"

text \<open>A child's client: its own configuration, the prompt of the file (empty when it cannot be read), the parent's cache.\<close>

definition child_client :: "(string \<Rightarrow> string option) \<Rightarrow> config \<Rightarrow> api_client \<Rightarrow> api_client" where
  "child_client read c parent =
     client_with_prompt c (case load_system_prompt read (cl_config parent) of Some p \<Rightarrow> p | None \<Rightarrow> []) (capability_cache parent)"

text \<open>What a client learns of its model before a request, whether it had to ask, and the store then.\<close>

definition client_caps :: "get_json \<Rightarrow> (nat \<Rightarrow> string) \<Rightarrow> api_client \<Rightarrow> cap_store \<Rightarrow> (model_capabilities \<times> bool) \<times> cap_store" where
  "client_caps net status_text cl w =
     (let cache = w ! cl_capabilities cl; model = c_model (cl_config cl);
          (caps, cache') = caps_get (fetch_capabilities net status_text (cl_config cl)) model cache
      in ((caps, map_of cache model = None), w[cl_capabilities cl := cache']))"

fun caps_calls :: "(nat \<Rightarrow> string) \<Rightarrow> (api_client \<times> get_json) list \<Rightarrow> cap_store \<Rightarrow> (model_capabilities \<times> bool) list \<times> cap_store" where
  "caps_calls status_text [] w = ([], w)"
| "caps_calls status_text ((cl, net) # cs) w =
     (let (r, w) = client_caps net status_text cl w; (rs, w) = caps_calls status_text cs w in (r # rs, w))"

section \<open>Lemmas\<close>

text \<open>What a cache knows it keeps.\<close>

lemma caps_get_keeps: "map_of cache m = Some c \<Longrightarrow> map_of (snd (caps_get fetch model cache)) m = Some c"
  by (auto simp: caps_get_def update_conv' split: option.split sum.split)

lemma client_caps_keeps:
  assumes "k < length w" "map_of (w ! k) m = Some c"
  shows "map_of (snd (client_caps net st cl w) ! k) m = Some c" "length (snd (client_caps net st cl w)) = length w"
  using assms caps_get_keeps [OF assms(2)] by (cases "cl_capabilities cl = k"; auto simp: client_caps_def Let_def split_beta)+

lemma client_caps_length [simp]: "length (snd (client_caps net st cl w)) = length w"
  by (simp add: client_caps_def Let_def split_beta)

lemma client_caps_known:
  "map_of (w ! cl_capabilities cl) (c_model (cl_config cl)) = Some c \<Longrightarrow> fst (client_caps net st cl w) = (c, False)"
  by (simp add: client_caps_def caps_get_def)

lemma caps_calls_known:
  assumes "k < length w" "map_of (w ! k) m = Some c" "j < length cs" "cl_capabilities (fst (cs ! j)) = k" "c_model (cl_config (fst (cs ! j))) = m"
  shows "fst (caps_calls st cs w) ! j = (c, False)"
  using assms
proof (induction cs arbitrary: w j)
  case (Cons x cs)
  obtain cl net where x: "x = (cl, net)" by fastforce
  show ?case
  proof (cases j)
    case 0
    with Cons.prems x client_caps_known [of w cl c net st] show ?thesis by (simp add: Let_def split_beta)
  next
    case (Suc i)
    with Cons.prems x client_caps_keeps [OF Cons.prems(1,2), of net st cl] Cons.IH [of "snd (client_caps net st cl w)" i]
    show ?thesis by (simp add: Let_def split_beta)
  qed
qed simp

text \<open>A call that was answered leaves what it learned; one that was not left the fallback.\<close>

lemma client_caps_learns:
  assumes "cl_capabilities cl < length w" "fst (client_caps net st cl w) = (c, asked)"
  shows "map_of (snd (client_caps net st cl w) ! cl_capabilities cl) (c_model (cl_config cl)) = Some c \<or>
    asked \<and> c = caps_fallback \<and> (\<exists>e. fetch_capabilities net st (cl_config cl) (c_model (cl_config cl)) = Inl e)"
  using assms by (auto simp: client_caps_def caps_get_def Let_def update_conv' split: option.splits sum.splits)

lemma caps_calls_length [simp]: "length (fst (caps_calls st cs w)) = length cs"
proof (induction cs arbitrary: w)
  case (Cons x cs)
  then show ?case by (cases x) (simp add: Let_def split_beta)
qed simp

text \<open>Only the root agent's client is given the trace.\<close>

lemma children_untraced: "\<not> cl_traced (child_client read c (client_with_trace parent))"
  by (simp add: child_client_def client_with_prompt_def)

section \<open>Properties\<close>

text \<open>What one client has learned of a model no client that shares its cache asks again: in any order of calls by a parent, its children and
  theirs, once the API has answered for a model, or the answer was already there, every later call for that model gets the same
  capabilities without a request; only after a probe that failed is another one made.\<close>

theorem capabilities_asked_once:
  assumes "\<forall>x \<in> set cs. cl_capabilities (fst x) = k" "k < length w" "i < j" "j < length cs"
    and "c_model (cl_config (fst (cs ! i))) = c_model (cl_config (fst (cs ! j)))"
    and "\<forall>e. fetch_capabilities (snd (cs ! i)) st (cl_config (fst (cs ! i))) (c_model (cl_config (fst (cs ! i)))) \<noteq> Inl e \<or> \<not> snd (fst (caps_calls st cs w) ! i)"
  shows "fst (caps_calls st cs w) ! j = (fst (fst (caps_calls st cs w) ! i), False)"
  using assms
proof (induction cs arbitrary: w i j)
  case (Cons x cs)
  obtain cl net where x: "x = (cl, net)" by fastforce
  let ?w = "snd (client_caps net st cl w)"
  obtain c asked where first: "fst (client_caps net st cl w) = (c, asked)" by fastforce
  obtain j' where j: "j = Suc j'" using Cons.prems(3) by (cases j) auto
  have k: "cl_capabilities cl = k" "k < length ?w" using Cons.prems(1,2) x by auto
  show ?case
  proof (cases i)
    case 0
    have known: "map_of (?w ! k) (c_model (cl_config cl)) = Some c"
      using client_caps_learns [of cl w net st c asked] first k Cons.prems(2,6) x 0 by (auto simp: Let_def split_beta)
    have "cs ! j' \<in> set cs" using Cons.prems(4) j by simp
    then have "cl_capabilities (fst (cs ! j')) = k" using Cons.prems(1) by simp
    with caps_calls_known [OF k(2) known, of j' cs] Cons.prems(4,5) x j 0
    have "fst (caps_calls st cs ?w) ! j' = (c, False)" by simp
    with x j 0 first show ?thesis by (simp add: Let_def split_beta)
  next
    case (Suc i')
    have "fst (caps_calls st cs ?w) ! j' = (fst (fst (caps_calls st cs ?w) ! i'), False)"
    proof (rule Cons.IH)
      show "\<forall>x \<in> set cs. cl_capabilities (fst x) = k" using Cons.prems(1) by simp
    qed (use Cons.prems x j Suc k in \<open>simp_all add: Let_def split_beta\<close>)
    with x j Suc show ?thesis by (simp add: Let_def split_beta)
  qed
qed simp

text \<open>A parent and its child with the same model, on a network that answers once.\<close>

definition probing :: "config \<Rightarrow> (api_client \<times> get_json) list" where
  "probing c =
     (let parent = client_with_trace (client_with_prompt c ''p'' 0) in
      [(parent, \<lambda>url hs. Inr (200, [], Some (JObj []))), (child_client (\<lambda>p. None) c parent, \<lambda>url hs. Inl ''down'')])"

theorem capabilities_asked_once_witness:
  "fst (caps_calls show_nat (probing c) [[]]) ! 1 = (\<lparr>mc_thinking = TNone, mc_supports_effort = False\<rparr>, False)"
proof -
  have "fst (caps_calls show_nat (probing c) [[]]) ! 1 = (fst (fst (caps_calls show_nat (probing c) [[]]) ! 0), False)"
    by (rule capabilities_asked_once [where k = 0])
      (simp_all add: probing_def Let_def client_with_trace_def client_with_prompt_def child_client_def capability_cache_def fetch_capabilities_def)
  moreover have "parse_capabilities (JObj []) = \<lparr>mc_thinking = TNone, mc_supports_effort = False\<rparr>" by code_simp
  ultimately show ?thesis
    by (simp add: probing_def Let_def client_with_trace_def client_with_prompt_def client_caps_def caps_get_def fetch_capabilities_def split_beta)
qed

text \<open>One credential with every request, and the beta header only with a bearer token.\<close>

lemma one_credential:
  "length (filter (\<lambda>(h, v). h \<in> {''x-api-key'', ''authorization''}) (message_headers a)) = 1"
  "''anthropic-beta'' \<in> fst ` set (message_headers a) \<longleftrightarrow> is_bearer a"
  by (cases a; simp add: message_headers_def auth_headers_def)+

end
