(* ===== verification/Api_Wire.thy ===== *)
theory Api_Wire
  imports Api_Client Http_Requests
begin

text \<open>
  The API types on the wire (their serde derives in src/src/types.rs): how a request is written as
  JSON, and how messages and answers are read. serde reads a struct from an object, ignoring
  fields it does not know, and from an array by position; a tag is the field \<open>type\<close>, or the first element.
\<close>

section \<open>Writing\<close>

definition skip_none :: "string \<Rightarrow> ('a \<Rightarrow> json) \<Rightarrow> 'a option \<Rightarrow> (string \<times> json) list" where
  "skip_none key f x = (case x of Some y \<Rightarrow> [(key, f y)] | None \<Rightarrow> [])"

definition cache_control_json :: "string \<Rightarrow> json" where
  "cache_control_json t = JObj [(''type'', JStr t)]"

fun block_json :: "content_block \<Rightarrow> json" where
  "block_json (BThinking t) = JObj [(''type'', JStr ''thinking''), (''thinking'', JStr t)]"
| "block_json (BText t cc) = JObj ([(''type'', JStr ''text''), (''text'', JStr t)] @ skip_none ''cache_control'' cache_control_json cc)"
| "block_json (BToolUse i name input) =
     JObj [(''type'', JStr ''tool_use''), (''id'', JStr i), (''name'', JStr name), (''input'', input)]"
| "block_json (BToolResult i content is_error) =
     JObj ([(''type'', JStr ''tool_result''), (''tool_use_id'', JStr i), (''content'', JStr content)] @ skip_none ''is_error'' JBool is_error)"
| "block_json (BImage s m d cc) =
     JObj ([(''type'', JStr ''image''), (''source'', JObj [(''type'', JStr s), (''media_type'', JStr m), (''data'', JStr d)])] @
       skip_none ''cache_control'' cache_control_json cc)"

definition message_json :: "string \<times> content_block list \<Rightarrow> json" where
  "message_json m = JObj [(''role'', JStr (fst m)), (''content'', JArr (map block_json (snd m)))]"

definition system_json :: "system_block \<Rightarrow> json" where
  "system_json b =
     JObj ([(''type'', JStr (sb_type b)), (''text'', JStr (sb_text b))] @ skip_none ''cache_control'' cache_control_json (sb_cache_control b))"

definition tool_json :: "tool_definition \<Rightarrow> json" where
  "tool_json t = JObj [(''name'', JStr (td_name t)), (''description'', JStr (td_description t)), (''input_schema'', td_input_schema t)]"

fun thinking_json :: "thinking_config \<Rightarrow> json" where
  "thinking_json ThinkAdaptive = JObj [(''type'', JStr ''adaptive'')]"
| "thinking_json (ThinkEnabled n) = JObj [(''type'', JStr ''enabled''), (''budget_tokens'', JInt (int n))]"

definition request_json :: "api_request \<Rightarrow> json" where
  "request_json r =
     JObj ([(''model'', JStr (rq_model r)), (''max_tokens'', JInt (int (rq_max_tokens r))), (''system'', JArr (map system_json (rq_system r))),
         (''tools'', JArr (map tool_json (rq_tools r))), (''messages'', JArr (map message_json (rq_messages r)))] @
       skip_none ''thinking'' thinking_json (rq_thinking r) @
       skip_none ''output_config'' (\<lambda>e. JObj [(''effort'', JStr e)]) (rq_output_config r))"

section \<open>Reading\<close>

text \<open>An optional field: null, or absent where it may be, is \<open>None\<close>; a value of the wrong kind is an error.\<close>

definition optional :: "(json \<Rightarrow> 'a option) \<Rightarrow> json option \<Rightarrow> 'a option option" where
  "optional f x = (case x of None \<Rightarrow> Some None | Some JNull \<Rightarrow> Some None | Some j \<Rightarrow> map_option Some (f j))"

fun decode_cache_control :: "json \<Rightarrow> string option" where
  "decode_cache_control (JObj m) = string_field (map_of m ''type'')"
| "decode_cache_control (JArr [t]) = as_str t"
| "decode_cache_control j = None"

definition image_source :: "json option \<Rightarrow> json option \<Rightarrow> json option \<Rightarrow> (string \<times> string \<times> string) option" where
  "image_source t m d =
     (case (string_field t, string_field m, string_field d) of (Some t, Some m, Some d) \<Rightarrow> Some (t, m, d) | _ \<Rightarrow> None)"

fun decode_source :: "json \<Rightarrow> (string \<times> string \<times> string) option" where
  "decode_source (JObj m) = image_source (map_of m ''type'') (map_of m ''media_type'') (map_of m ''data'')"
| "decode_source (JArr [t, m, d]) = image_source (Some t) (Some m) (Some d)"
| "decode_source j = None"

definition text_block :: "json option \<Rightarrow> json option \<Rightarrow> content_block option" where
  "text_block t cc =
     (case (string_field t, optional decode_cache_control cc) of (Some t, Some cc) \<Rightarrow> Some (BText t cc) | _ \<Rightarrow> None)"

definition tool_use_block :: "json option \<Rightarrow> json option \<Rightarrow> json option \<Rightarrow> content_block option" where
  "tool_use_block i name input =
     (case (string_field i, string_field name, input) of (Some i, Some n, Some j) \<Rightarrow> Some (BToolUse i n j) | _ \<Rightarrow> None)"

definition tool_result_block :: "json option \<Rightarrow> json option \<Rightarrow> json option \<Rightarrow> content_block option" where
  "tool_result_block i content is_error =
     (case (string_field i, string_field content, optional as_bool is_error) of
        (Some i, Some c, Some e) \<Rightarrow> Some (BToolResult i c e) | _ \<Rightarrow> None)"

definition image_block :: "json option \<Rightarrow> json option \<Rightarrow> content_block option" where
  "image_block source cc =
     (case (Option.bind source decode_source, optional decode_cache_control cc) of
        (Some (t, m, d), Some cc) \<Rightarrow> Some (BImage t m d cc) | _ \<Rightarrow> None)"

definition block_of_fields :: "string \<Rightarrow> (string, json) hmap \<Rightarrow> content_block option" where
  "block_of_fields tag m =
     (if tag = ''thinking'' then map_option BThinking (string_field (map_of m ''thinking''))
      else if tag = ''text'' then text_block (map_of m ''text'') (map_of m ''cache_control'')
      else if tag = ''tool_use'' then tool_use_block (map_of m ''id'') (map_of m ''name'') (map_of m ''input'')
      else if tag = ''tool_result'' then tool_result_block (map_of m ''tool_use_id'') (map_of m ''content'') (map_of m ''is_error'')
      else if tag = ''image'' then image_block (map_of m ''source'') (map_of m ''cache_control'')
      else None)"

definition block_of_elements :: "string \<Rightarrow> json list \<Rightarrow> content_block option" where
  "block_of_elements tag xs =
     (case xs of
        [t] \<Rightarrow> if tag = ''thinking'' then map_option BThinking (as_str t) else if tag = ''text'' then text_block (Some t) None
          else if tag = ''image'' then image_block (Some t) None else None
      | [t, cc] \<Rightarrow> if tag = ''text'' then text_block (Some t) (Some cc) else if tag = ''image'' then image_block (Some t) (Some cc) else None
      | [x, y, z] \<Rightarrow> if tag = ''tool_use'' then tool_use_block (Some x) (Some y) (Some z)
          else if tag = ''tool_result'' then tool_result_block (Some x) (Some y) (Some z) else None
      | _ \<Rightarrow> None)"

fun decode_block :: "json \<Rightarrow> content_block option" where
  "decode_block (JObj m) = Option.bind (string_field (map_of m ''type'')) (\<lambda>tag. block_of_fields tag m)"
| "decode_block (JArr (JStr tag # xs)) = block_of_elements tag xs"
| "decode_block j = None"

text \<open>An untagged enum takes the first of its variants that fits.\<close>

datatype message_content = Plain string | Blocks "content_block list"

fun decode_content :: "json \<Rightarrow> message_content option" where
  "decode_content (JStr s) = Some (Plain s)"
| "decode_content (JArr js) = map_option Blocks (those (map decode_block js))"
| "decode_content j = None"

definition message_of :: "json option \<Rightarrow> json option \<Rightarrow> (string \<times> message_content) option" where
  "message_of role content =
     (case (string_field role, Option.bind content decode_content) of (Some r, Some c) \<Rightarrow> Some (r, c) | _ \<Rightarrow> None)"

fun decode_message :: "json \<Rightarrow> (string \<times> message_content) option" where
  "decode_message (JObj m) = message_of (map_of m ''role'') (map_of m ''content'')"
| "decode_message (JArr [r, c]) = message_of (Some r) (Some c)"
| "decode_message j = None"

definition count_field :: "json option \<Rightarrow> nat option" where
  "count_field x = Option.bind x as_u64"

definition default_count :: "json option \<Rightarrow> nat option" where
  "default_count x = (case x of None \<Rightarrow> Some 0 | Some j \<Rightarrow> as_u64 j)"

definition usage_fields :: "json option \<Rightarrow> json option \<Rightarrow> json option \<Rightarrow> json option \<Rightarrow> api_usage option" where
  "usage_fields i out creation cached =
     (case (count_field i, count_field out, default_count creation, default_count cached) of
        (Some i, Some out, Some c, Some r) \<Rightarrow> Some \<lparr>u_input_tokens = i, u_output_tokens = out, u_cache_creation = c, u_cache_read = r\<rparr>
      | _ \<Rightarrow> None)"

fun decode_usage :: "json \<Rightarrow> api_usage option" where
  "decode_usage (JObj m) = usage_fields (map_of m ''input_tokens'') (map_of m ''output_tokens'') (map_of m ''cache_creation_input_tokens'')
     (map_of m ''cache_read_input_tokens'')"
| "decode_usage (JArr [i, out]) = usage_fields (Some i) (Some out) None None"
| "decode_usage (JArr [i, out, c]) = usage_fields (Some i) (Some out) (Some c) None"
| "decode_usage (JArr [i, out, c, r]) = usage_fields (Some i) (Some out) (Some c) (Some r)"
| "decode_usage j = None"

fun decode_blocks :: "json option \<Rightarrow> content_block list option" where
  "decode_blocks (Some (JArr js)) = those (map decode_block js)"
| "decode_blocks j = None"

definition response_fields :: "json option \<Rightarrow> json option \<Rightarrow> json option \<Rightarrow> api_response option" where
  "response_fields content stop_reason usage =
     (case (decode_blocks content, string_field stop_reason, Option.bind usage decode_usage) of
        (Some bs, Some s, Some u) \<Rightarrow> Some \<lparr>rsp_content = bs, rsp_stop_reason = s, rsp_usage = u\<rparr>
      | _ \<Rightarrow> None)"

fun decode_fields :: "json \<Rightarrow> api_response option" where
  "decode_fields (JObj m) = response_fields (map_of m ''content'') (map_of m ''stop_reason'') (map_of m ''usage'')"
| "decode_fields (JArr [c, s, u]) = response_fields (Some c) (Some s) (Some u)"
| "decode_fields j = None"

definition decode_response :: "json \<Rightarrow> string + api_response" where
  "decode_response raw = (case decode_fields raw of Some r \<Rightarrow> Inr r | None \<Rightarrow> Inl ''Failed to decode API response'')"

section \<open>Lemmas\<close>

lemma decode_cache_control_json [simp]: "decode_cache_control (cache_control_json t) = Some t"
  by (simp add: cache_control_json_def string_field_def)

lemma optional_simps [simp]: "optional f None = Some None" "optional decode_cache_control (Some (cache_control_json t)) = Some (Some t)"
  "optional as_bool (Some (JBool b)) = Some (Some b)"
  by (simp_all add: optional_def cache_control_json_def string_field_def)

lemma map_of_skip_none [simp]: "map_of (skip_none key f x) k = (if k = key then map_option f x else None)"
  by (simp add: skip_none_def split: option.split)

lemma decode_block_json [simp]: "decode_block (block_json b) = Some b"
proof (cases b)
  case (BText t cc)
  then show ?thesis by (cases cc) (simp_all add: block_of_fields_def text_block_def)
next
  case (BToolResult i c e)
  then show ?thesis by (cases e) (simp_all add: block_of_fields_def tool_result_block_def)
next
  case (BImage s m d cc)
  then show ?thesis by (cases cc) (simp_all add: block_of_fields_def image_block_def image_source_def)
qed (simp_all add: block_of_fields_def tool_use_block_def)

lemma those_decode [simp]: "those (map (decode_block \<circ> block_json) bs) = Some bs"
  by (induction bs) simp_all

lemma decode_message_json: "decode_message (message_json m) = Some (fst m, Blocks (snd m))"
  by (simp add: message_json_def message_of_def)

lemma those_None: "those xs = None \<longleftrightarrow> None \<in> set xs"
  by (induction xs) (auto split: option.splits)

text \<open>The kinds of block the code knows.\<close>

definition known_kinds :: "string list" where
  "known_kinds = [''thinking'', ''text'', ''tool_use'', ''tool_result'', ''image'']"

lemma unknown_block: "\<lbrakk>map_of m ''type'' = Some (JStr kind); kind \<notin> set known_kinds\<rbrakk> \<Longrightarrow> decode_block (JObj m) = None"
  by (simp add: block_of_fields_def known_kinds_def)

section \<open>Properties\<close>

text \<open>What is sent is what was built: from the JSON of any request its messages are read back exactly, every block with its text, its
  image or its tool call and its cache control, and so are the model and the limit; the thinking and effort
  fields are there exactly when the request has them.\<close>

theorem request_reads_back:
  "map_option (map decode_message) (case json_get ''messages'' (request_json r) of Some (JArr ms) \<Rightarrow> Some ms | _ \<Rightarrow> None) =
     Some (map (\<lambda>(role, bs). Some (role, Blocks bs)) (rq_messages r))
   \<and> json_get ''model'' (request_json r) = Some (JStr (rq_model r))
   \<and> json_get ''max_tokens'' (request_json r) = Some (JInt (int (rq_max_tokens r)))
   \<and> json_get ''thinking'' (request_json r) = map_option thinking_json (rq_thinking r)
   \<and> json_get ''output_config'' (request_json r) = map_option (\<lambda>e. JObj [(''effort'', JStr e)]) (rq_output_config r)"
  by (simp add: request_json_def map_add_def decode_message_json case_prod_beta split: option.split)


definition sample_answer :: "json list \<Rightarrow> (string, json) hmap" where
  "sample_answer js = [(''id'', JStr ''msg_1''), (''content'', JArr js), (''stop_reason'', JStr ''tool_use''),
     (''usage'', JObj ([(''input_tokens'', JInt (int 10)), (''output_tokens'', JInt (int 5)), (''cache_creation_input_tokens'', JInt (int 0)),
        (''cache_read_input_tokens'', JInt (int 2))] @ [(''service_tier'', JStr ''standard'')]))]"

definition run_code :: content_block where
  "run_code = BToolUse ''t1'' ''execute'' (JObj [(''code'', JStr ''done()'')])"


end
