(* ===== verification/Python_Http.thy ===== *)
theory Python_Http
  imports Script_Executor
begin

text \<open>
  The \<open>http\<close> helper of the scripts' preamble (Python text in src/src/python.rs): a curl process, by
  \<open>shell\_exec\<close>. Keyword arguments other than those of \<open>http\<close> go on to \<open>shell\_exec\<close>.
\<close>

text \<open>\<open>str.upper\<close>, on ASCII.\<close>

definition upper_byte :: "char \<Rightarrow> char" where
  "upper_byte c = (if (97::nat) \<le> of_char c \<and> of_char c \<le> (122::nat) then char_of (of_char c - (32::nat)) else c)"

datatype http_body = Text_Body string | Json_Body json

definition http_args :: "(json \<Rightarrow> string) \<Rightarrow> string \<Rightarrow> string \<Rightarrow> (string \<times> string) list \<Rightarrow> http_body option \<Rightarrow> string list" where
  "http_args dumps method url headers body =
     [''-sS'', ''-X'', map upper_byte method, url, ''-w'', nl # ''%{http_code}''] @
     concat (map (\<lambda>(k, v). [''-H'', k @ '': '' @ v]) headers) @
     (case body of None \<Rightarrow> [] | Some (Text_Body s) \<Rightarrow> [''-d'', s] | Some (Json_Body j) \<Rightarrow> [''-d'', dumps j])"

text \<open>\<open>block\_for or timedelta(seconds=3)\<close>: no time at all is false, too.\<close>

definition http_block :: "nat option \<Rightarrow> nat" where
  "http_block block_for = (case block_for of None \<Rightarrow> 3000 | Some ms \<Rightarrow> if ms = 0 then 3000 else ms)"

definition http ::
  "(json \<Rightarrow> string) \<Rightarrow> py_ctx \<Rightarrow> string \<Rightarrow> string \<Rightarrow> (string \<times> string) list \<Rightarrow> http_body option \<Rightarrow> nat option \<Rightarrow>
   (string, string) hmap \<Rightarrow> nat option \<Rightarrow> u8 \<Rightarrow> u8 \<Rightarrow> bool \<Rightarrow> py_txn \<Rightarrow> py_result" where
  "http dumps c method url headers body block_for env alert_timer success_prio fail_prio interactive =
     shell_exec c ''curl'' (http_args dumps method url headers body) env (''HTTP '' @ map upper_byte method @ '' '' @ url)
       alert_timer success_prio fail_prio (Some (http_block block_for)) interactive"

text \<open>It always blocks, and in a hook it could not be used.\<close>

lemma http_blocks: "0 < http_block block_for"
  by (simp add: http_block_def split: option.split)

lemma http_zero: "http_block (Some 0) = 3000"
  by (simp add: http_block_def)

text \<open>A call in a turn starts one process, whatever the request is; each header and the body is an argument of its own.\<close>

lemma http_args_separate:
  "length (http_args dumps method url headers body) = 6 + 2 * length headers + (if body = None then 0 else 2)"
  "(k, v) \<in> set headers \<Longrightarrow> k @ '': '' @ v \<in> set (http_args dumps method url headers body)"
proof -
  have "length (concat (map (\<lambda>(k, v). [''-H'', k @ '': '' @ v]) headers)) = 2 * length headers"
    by (induction headers) auto
  then show "length (http_args dumps method url headers body) = 6 + 2 * length headers + (if body = None then 0 else 2)"
    by (simp add: http_args_def split: option.split http_body.split)
qed (force simp: http_args_def)

lemma http_starts_curl:
  assumes "\<not> px_hook_mode c"
  shows "\<exists>p t'. http dumps c method url headers body block_for env al sp fp ia t = returns (VStr (aid (ps_id p))) t' \<and>
     ef_process_starts (tx_effects t') = ef_process_starts (tx_effects t) @ [p] \<and> ps_cmd p = ''curl'' \<and>
     ps_args p = http_args dumps method url headers body \<and> ps_block_for_ms p = Some (http_block block_for)"
proof -
  obtain i t1 where i: "tx_next_id t = (i, t1)" by fastforce
  then have "tx_effects t1 = tx_effects t" by (auto simp: tx_next_id_def Let_def split: prod.splits)
  with assms i show ?thesis
    by (simp add: http_def shell_exec_def Let_def with_effects_def with_state_def returns_def)
qed

end
