(* ===== verification/Unit_Tests.thy ===== *)
theory Unit_Tests
  imports Embedded_Texts Telegram Watchers Api_Wire
begin

text \<open>
  The repository's own unit tests, on the model: what they give to a function and what they assert
  of its result. A test of a script has the script as the calls the interpreter makes of it,
  with an assertion that fails or an error that is not caught ending it as in Python. Left out
  are the tests that read real files, wait for real time or build states of kilobytes.
\<close>

section \<open>Scripts (python.rs)\<close>

text \<open>A statement: an error is raised to the end of the script.\<close>

definition stmt :: "py_call \<Rightarrow> (py_value \<Rightarrow> script) \<Rightarrow> script" where
  "stmt q k = Call q (\<lambda>r. case r of Inl (PyErr cls msg) \<Rightarrow> Raise (cls @ '': '' @ msg) | Inr v \<Rightarrow> k v)"

definition check :: "bool \<Rightarrow> script \<Rightarrow> script" where
  "check b k = (if b then k else Raise ''AssertionError'')"

abbreviation (input) ends :: script where "ends \<equiv> End ReturnsNone None"

definition test_ctx :: "(string, string) hmap \<Rightarrow> py_ctx" where
  "test_ctx pinned = \<lparr>px_is_compaction = False, px_process_outputs = [], px_child_depth = 1, px_pinned = pinned,
     px_subscribers = None, px_runtime = False, px_waits = (\<lambda>chat ms. []), px_is_file = (\<lambda>p. p = ''/tmp/test-attachment.txt''),
     px_compile = (\<lambda>src file mode. if src = ''e.type =='' \<or> src = ''def __hook():'' @ nl # ''    return return'' then Some ''SyntaxError'' else None), px_format_utc = (\<lambda>t. []), px_now = 0,
     px_utc_range = (- (2 ^ 62), 2 ^ 62), px_hook_mode = False\<rparr>"

definition fresh_state :: harness_state where
  "fresh_state = hs_new 200000 16384"

definition run_test :: "script \<Rightarrow> harness_state \<Rightarrow> (execution_result \<Rightarrow> bool) \<Rightarrow> bool" where
  "run_test sc s asserts = (case execute_with_timeout 0 (test_ctx []) (\<lambda>code. sc) ''script'' s of Some r \<Rightarrow> asserts r | None \<Rightarrow> False)"

definition committed :: "(harness_state \<Rightarrow> bool) \<Rightarrow> execution_result \<Rightarrow> bool" where
  "committed P r = (\<not> er_is_error r \<and> (case er_committed r of Some s \<Rightarrow> P s | None \<Rightarrow> False))"

lemma first_id: "next_id id_generator_new = (AgentId ''0000'', \<lparr>counter = 1\<rparr>)"
  by code_simp

lemma wrapped:
  "wrap_body ''return None'' = ''    return None''" "wrap_body ''return return'' = ''    return return''" "wrap_body ''return e'' = ''    return e''"
  by code_simp+

lemmas test_defs = wrapped str_contains_def run_test_def committed_def stmt_def check_def execute_with_timeout_def execute_inner_def thread_of_def committed_run_def
  failed_run_def method_defs test_ctx_def fresh_state_def nul_def reassemble_def hs_new_def begin_txn_def draw_id_def first_id
  with_state_def with_effects_def returns_def no_effects_def put_hook_def quoted_def pm_add_def pm_new_def from_std_def

definition basic_print :: script where
  "basic_print = stmt (Print ''hello world'') (\<lambda>_. ends)"

lemma test_basic_print: "run_test basic_print fresh_state (\<lambda>r. \<not> er_is_error r \<and> er_stdout r = ''hello world'')"
  by (simp add: basic_print_def test_defs)

definition memory_operations :: script where
  "memory_operations =
     stmt (MemGetItem ''key1'') (\<lambda>v. check (v = VJson (JStr ''val1'')) (
     stmt (MemSetItem ''key2'' (Inr (JStr ''val2''))) (\<lambda>_.
     stmt (Print ''ok'') (\<lambda>_. ends))))"

lemma test_memory_operations:
  "run_test memory_operations (fresh_state\<lparr>memory := [(''key1'', JStr ''val1'')]\<rparr>) (\<lambda>r. er_stdout r = ''ok'' \<and>
     committed (\<lambda>s. map_of (memory s) ''key2'' = Some (JStr ''val2'') \<and> map_of (memory s) ''key1'' = Some (JStr ''val1'')) r)"
  by (simp add: memory_operations_def test_defs)

definition timer_add :: script where
  "timer_add = stmt (TimerAdd (Some 30) None 6 ''test timer'') (\<lambda>v. case v of VStr tid \<Rightarrow> stmt (Print tid) (\<lambda>_. ends) | _ \<Rightarrow> Raise ''TypeError'')"

lemma test_timer_add_returns_id:
  "run_test timer_add fresh_state (\<lambda>r. er_stdout r \<noteq> [] \<and> committed (\<lambda>s. length (tm_timers (timer_manager s)) = 1) r)"
  by (simp add: timer_add_def test_defs build_timer_schedule_def rearm_def tm_add_def tm_new_def)

definition memory_priority :: script where
  "memory_priority =
     stmt (MemSetItem ''key1'' (Inr (JStr ''value1''))) (\<lambda>_.
     stmt (MemGetPriority ''key1'') (\<lambda>v. check (v = VNat 5) (
     stmt (MemSet ''key2'' (Inr (JStr ''value2'')) 8) (\<lambda>_.
     stmt (MemGetPriority ''key2'') (\<lambda>v. check (v = VNat 8) (
     stmt (MemSetPriority ''key1'' 3) (\<lambda>_.
     stmt (MemGetPriority ''key1'') (\<lambda>v. check (v = VNat 3) (
     stmt (Print ''all passed'') (\<lambda>_. ends))))))))))"

lemma test_memory_priority:
  "run_test memory_priority fresh_state (\<lambda>r. er_stdout r = ''all passed'' \<and>
     committed (\<lambda>s. length (memory s) = 2 \<and> map_of (memory_priorities s) ''key1'' = Some 3 \<and> map_of (memory_priorities s) ''key2'' = Some 8) r)"
  by (simp add: memory_priority_def test_defs)

lemma test_error_handling:
  "run_test (Raise ''NameError: name undefined_variable is not defined'') fresh_state
     (\<lambda>r. er_is_error r \<and> str_contains ''NameError'' (er_error_text r) \<and> er_committed r = None)"
  by (simp add: test_defs starts_with_def)

definition shell_exec_id :: script where
  "shell_exec_id =
     stmt (ShellExec ''echo'' [''hello''] [] [] None 7 8 None False) (\<lambda>v. case v of
       VStr pid \<Rightarrow> stmt (Print pid) (\<lambda>_. stmt (MemSetItem ''my_pid'' (Inr (JStr pid))) (\<lambda>_. ends))
     | _ \<Rightarrow> Raise ''TypeError'')"

lemma test_shell_exec_returns_id:
  "run_test shell_exec_id fresh_state (\<lambda>r. length (ef_process_starts (er_effects r)) = 1 \<and>
     committed (\<lambda>s. length (memory s) = 1 \<and> length (pm_processes (process_manager s)) = 1) r)"
  by (simp add: shell_exec_id_def test_defs)

lemma test_send_message:
  "run_test (stmt (SendMessage ''chat1'' ''Hello from Claude!'' [] None) (\<lambda>_. ends)) fresh_state
     (\<lambda>r. \<not> er_is_error r \<and> map om_chat_id (ef_messages (er_effects r)) = [''chat1''])"
  by (simp add: test_defs)

definition child_settings :: "string \<Rightarrow> string \<Rightarrow> fork_child" where
  "child_settings nm task = \<lparr>fc_name = nm, fc_task = task, fc_model = None, fc_max_turns = Some 20, fc_can_compact = True,
     fc_inherit_history = True, fc_attach = [], fc_prefix_context = None, fc_prefix_attach = []\<rparr>"

definition fork_two :: script where
  "fork_two =
     stmt (Fork [(child_settings ''test-runner'' ''Write tests'')\<lparr>fc_model := Some ''claude-sonnet-4-5-20250929'', fc_max_turns := Some 10\<rparr>,
       child_settings ''linter'' ''Run linting'']) (\<lambda>_. stmt (Print ''forked'') (\<lambda>_. ends))"

lemma test_fork:
  "run_test fork_two fresh_state (\<lambda>r. \<not> er_is_error r \<and> er_stdout r = ''forked'' \<and> 
     map (map (\<lambda>c. (fc_name c, fc_task c, fc_model c, fc_max_turns c, fc_can_compact c, fc_attach c))) (ef_fork_requests (er_effects r)) =
       [[(''test-runner'', ''Write tests'', Some ''claude-sonnet-4-5-20250929'', Some 10, True, []), (''linter'', ''Run linting'', None, Some 20, True, [])]])"
  by (simp add: fork_two_def fork_settings_def child_settings_def new_child_def test_defs)

lemma test_fork_rejects_root_name:
  "run_test (stmt (Fork [child_settings ''root'' ''impersonate'']) (\<lambda>_. ends)) fresh_state
     (\<lambda>r. er_is_error r \<and> str_contains ''reserved'' (er_error_text r))"
  by (simp add: child_settings_def new_child_def test_defs starts_with_def)

lemma test_view:
  "run_test (stmt (ViewPaths [''/tmp/test-attachment.txt'']) (\<lambda>_. stmt (Print ''ok'') (\<lambda>_. ends))) fresh_state
     (\<lambda>r. \<not> er_is_error r \<and> er_stdout r = ''ok'' \<and> ef_view_paths (er_effects r) = [''/tmp/test-attachment.txt''])"
  by (simp add: test_defs)

lemma test_view_file_not_found:
  "run_test (stmt (ViewPaths [''/nonexistent/path/xyz.jpg'']) (\<lambda>_. ends)) fresh_state
     (\<lambda>r. er_is_error r \<and> str_contains ''FileNotFoundError'' (er_error_text r))"
  by (simp add: test_defs starts_with_def)

lemma test_request_compaction:
  "run_test (stmt RequestCompaction (\<lambda>_. ends)) fresh_state (\<lambda>r. \<not> er_is_error r \<and> ef_compaction_requested (er_effects r))"
  by (simp add: test_defs)

lemma test_message_agent:
  "run_test (stmt (MessageAgent ''sibling-a'' ''check the API status'' 6) (\<lambda>_. stmt (MessageAgent ''sibling-b'' ''done with my part'' 9) (\<lambda>_. ends)))
     fresh_state (\<lambda>r. \<not> er_is_error r \<and> length (ef_agent_messages (er_effects r)) = 2)"
  by (simp add: test_defs)

lemma test_done_with_result:
  "run_test (stmt (DoneCall [(''verdict'', Inr (JStr ''all clear'')), (''details'', Inr (JObj [(''camera'', JStr ''front''), (''count'', JInt 5)]))]) (\<lambda>_. ends))
     fresh_state (\<lambda>r. \<not> er_is_error r \<and> ef_done_called (er_effects r) \<and> map_of (ef_done_result (er_effects r)) ''verdict'' = Some (JStr ''all clear'') \<and>
       map_of (ef_done_result (er_effects r)) ''details'' = Some (JObj [(''camera'', JStr ''front''), (''count'', JInt 5)]))"
  by (simp add: test_defs)

lemma test_done_no_args:
  "run_test (stmt (DoneCall []) (\<lambda>_. ends)) fresh_state (\<lambda>r. \<not> er_is_error r \<and> ef_done_called (er_effects r) \<and> ef_done_result (er_effects r) = [])"
  by (simp add: test_defs)

lemma test_register_hook_syntax_validation:
  "run_test (stmt (RegisterHook ''h'' 5 ''e.type =='' ''return None'' 3000) (\<lambda>_. ends)) fresh_state
     (\<lambda>r. er_is_error r \<and> str_contains ''match_expr'' (er_error_text r))"
  "run_test (stmt (RegisterHook ''h'' 5 ''True'' ''return return'' 3000) (\<lambda>_. ends)) fresh_state
     (\<lambda>r. er_is_error r \<and> str_contains ''process'' (er_error_text r))"
  "run_test (stmt (RegisterHook ''h'' 5 ''True'' ''return None'' 3000) (\<lambda>_. ends)) fresh_state
     (committed (\<lambda>s. map (\<lambda>h. (hook_name h, hook_priority h)) (hooks s) = [(''h'', 5)]))"
  by (simp_all add: test_defs starts_with_def)

definition timer_match :: string where
  "timer_match = ''e['' @ quoted ''type'' @ ''] == '' @ quoted ''TimerFired''"

definition hooks_visible :: script where
  "hooks_visible =
     stmt (RegisterHook ''first'' 5 ''True'' ''return None'' 3000) (\<lambda>_.
     stmt (RegisterHook ''second'' 10 timer_match ''return e'' 3000) (\<lambda>_.
     stmt ListHooks (\<lambda>v. check (v = VHooks [(''second'', 10, timer_match), (''first'', 5, ''True'')]) (
     stmt (RemoveHook ''first'') (\<lambda>_.
     stmt ListHooks (\<lambda>v. check (v = VHooks [(''second'', 10, timer_match)]) (
     stmt (Print ''ok'') (\<lambda>_. ends))))))))"

lemma test_list_hooks_same_turn_visibility:
  "run_test hooks_visible fresh_state (\<lambda>r. er_stdout r = ''ok'' \<and> committed (\<lambda>s. map hook_name (hooks s) = [''second'']) r)"
  by (simp add: hooks_visible_def timer_match_def test_defs)

section \<open>The other tests\<close>

lemma test_subscriber_registry_would_reach:
  "\<not> would_reach ''signal:+1555'' subs_new"
  "would_reach ''signal:+1555'' (snd (subs_register ''signal:+1555'' subs_new))"
  "\<not> would_reach ''signal:+1999'' (snd (subs_register ''signal:+1555'' subs_new))"
  "would_reach ''telegram:anything'' (snd (subs_register ''telegram:*'' (snd (subs_register ''signal:+1555'' subs_new))))"
  "\<not> would_reach ''telegraph:x'' (snd (subs_register ''telegram:*'' (snd (subs_register ''signal:+1555'' subs_new))))"
  by code_simp+

lemma test_subscriber_registry_refcount:
  "let (g1, r) = subs_register ''signal:*'' subs_new; (g2, r) = subs_register ''signal:*'' r; r1 = the (guard_drop g1 r) in
     would_reach ''signal:+1'' r \<and> would_reach ''signal:+1'' r1 \<and> \<not> would_reach ''signal:+1'' (the (guard_drop g2 r1))"
  by code_simp

lemma test_chunk_passthrough: "chunk_for_telegram ''short message'' = Some [''short message'']"
  by code_simp

definition ascii_alphanumeric :: "string \<Rightarrow> bool" where
  "ascii_alphanumeric c \<longleftrightarrow> length c = 1 \<and> hd c \<in> set ''abcdefghijklmnopqrstuvwxyzABCDEFGHIJKLMNOPQRSTUVWXYZ0123456789''"

lemma test_sanitize_name:
  "sanitize_name ascii_alphanumeric ''front-door.jpg'' = ''front-door.jpg''" "sanitize_name ascii_alphanumeric ''../../etc/passwd'' = ''_.._etc_passwd''"
  "sanitize_name ascii_alphanumeric ''/abs/path.bin'' = ''_abs_path.bin''" "sanitize_name ascii_alphanumeric ''...'' = ''attachment.bin''" "sanitize_name ascii_alphanumeric ''a b.jpg'' = ''a_b.jpg''"
  by code_simp+

lemma test_sniff_image_media_type:
  "sniff_image_media_type ''foo.jpg'' = Some ''image/jpeg''" "sniff_image_media_type ''foo.JPEG'' = Some ''image/jpeg''"
  "sniff_image_media_type ''foo.webp'' = Some ''image/webp''" "sniff_image_media_type ''foo.json'' = None" "sniff_image_media_type ''foo'' = None"
  by code_simp+

definition capabilities_body :: "bool \<Rightarrow> bool \<Rightarrow> bool \<Rightarrow> json" where
  "capabilities_body enabled adaptive effort =
     JObj [(''capabilities'', JObj [(''thinking'', JObj [(''supported'', JBool True),
       (''types'', JObj [(''enabled'', JObj [(''supported'', JBool enabled)]), (''adaptive'', JObj [(''supported'', JBool adaptive)])])]),
       (''effort'', JObj [(''supported'', JBool effort)])])]"

lemma test_parse_capabilities:
  "parse_capabilities (capabilities_body False True True) = \<lparr>mc_thinking = TAdaptive, mc_supports_effort = True\<rparr>"
  "parse_capabilities (capabilities_body True False False) = \<lparr>mc_thinking = TEnabled, mc_supports_effort = False\<rparr>"
  "mc_thinking (parse_capabilities (capabilities_body True True True)) = TAdaptive"
  "parse_capabilities (JObj [(''capabilities'', JObj [])]) = \<lparr>mc_thinking = TNone, mc_supports_effort = False\<rparr>"
  by code_simp+

lemma test_content_block_cache_control_serialization:
  "block_json (BText ''hello'' (Some ''ephemeral'')) =
     JObj [(''type'', JStr ''text''), (''text'', JStr ''hello''), (''cache_control'', JObj [(''type'', JStr ''ephemeral'')])]"
  "block_json (BText ''hello'' None) = JObj [(''type'', JStr ''text''), (''text'', JStr ''hello'')]"
  by (simp_all add: skip_none_def cache_control_json_def)

lemmas version_defs = parse_ver_def parse_uint_def radix_value_def digit_val_def is_digit_def Let_def versions_since_def changelog_versions_def

lemma test_parse_ver:
  "parse_ver ''0.2.1'' = (0, 2, 1)" "parse_ver ''1.10.0'' = (1, 10, 0)" "ver_le (parse_ver ''0.2.0'') (parse_ver ''0.10.0'')"
  "parse_ver ''unknown'' = (0, 0, 0)" "parse_ver [] = (0, 0, 0)"
  by (simp_all add: version_defs)

lemma test_changelog_since:
  "versions_since ''0.1.0'' ''0.2.1'' = [''0.2.0'', ''0.2.1'']" "versions_since ''0.2.0'' ''0.2.1'' = [''0.2.1'']"
  "changelog_since changelog_text ''0.2.1'' ''0.2.1'' = None" "versions_since ''unknown'' ''0.2.1'' = [''0.2.0'', ''0.2.1'']"
  by (simp_all add: version_defs changelog_since_def)

lemma test_trunc_multibyte_boundary:
  "length (trunc (replicate 118 (CHR ''a'') @ arrow @ ''bbb'') 120) = 118" "length (trunc (replicate 118 (CHR ''a'') @ arrow @ ''bbb'') 119) = 118"
  "length (trunc (replicate 118 (CHR ''a'') @ arrow @ ''bbb'') 121) = 121" "trunc ''short'' 100 = ''short''" "trunc [] 0 = []"
  by code_simp+


end
