(* ===== verification/Spec2Isabelle.thy ===== *)
theory Spec2Isabelle
  imports Daemon Turn_Dump Webhook_Proxy Agent_Chat Mail_Bridge Local_Clients Tls Http_Requests
    Tls_Listener Watch_Sources Bridge_Sessions Commands Api_Clients Api_Wire Python_Http Unit_Tests
begin

text \<open>
  A model of claude-server (src/src), a long-running harness around a language model: events
  from chats, processes, timers and other agents become items of a work queue; as long as the
  queue is not empty the agent takes turns. A turn renders the agent's state into a context,
  sends it to the API, runs the Python script of the answer against a copy of the state, and,
  if the script succeeds, commits the copy and carries out the effects it asked for. Children
  are forked agents of the same kind. A daemon keeps the state in a database; bridges, watchers
  and a webhook proxy are separate processes that speak HTTP with it.

  \<^bold>\<open>Parts.\<close> The theories follow the source files.

  \<^item> \<open>Prelude\<close> holds the types the components share and the lemmas on lists, options and
    association lists; \<open>Rust_Str\<close> the operations of Rust's strings on their UTF-8 bytes.
  \<^item> \<open>Ids\<close>, \<open>Keyed_Store\<close>, \<open>Work_Queue\<close>, \<open>History\<close>, \<open>Timers\<close> model the parts of \<open>HarnessState\<close>
    (types.rs): the id generator, the queue, the event history with its edit window and cache
    split points, the timers. The locale \<open>keyed_store\<close> is the contract of the collections that
    are searched by id, interpreted on each of them.
  \<^item> \<open>Processes\<close> (process.rs and \<open>ProcessManager\<close>): the tasks of the process supervisor as a
    transition system over all interleavings.
  \<^item> \<open>State\<close>, \<open>Registry\<close>, \<open>Usage\<close> (types.rs): the state with its hooks, and what of it survives
    being stored; names of agents and their channels; usage log and API trace.
  \<^item> \<open>Renderer\<close> (renderer.rs) and \<open>Api_Client\<close> (api\_client.rs, model\_capabilities.rs): from a
    state to the context, from the context to a request, and the retry loop; \<open>Api_Clients\<close>: the
    clients of parents and children and the cache they share; \<open>Api_Wire\<close> (types.rs): the JSON of
    requests and answers.
  \<^item> \<open>Py_Objects\<close>, \<open>Python_Api\<close>, \<open>Script_Executor\<close> (python.rs): the objects a script sees, every
    method it can call as an operation on the transaction of the turn, and the executors of
    scripts and hooks with commit, rollback and timeout. The locale \<open>script_invariant\<close> says what
    it takes for a relation to hold along every script; its interpretations carry the
    properties of committed states. \<open>Python_Http\<close> is the \<open>http\<close> helper of the preamble.
    \<open>Unit_Tests\<close> replays the repository's own unit tests on the model.
  \<^item> \<open>Compaction\<close> (compaction.rs) and \<open>Agent_State\<close>, \<open>Agent_Events\<close>, \<open>Side_Effects\<close>, \<open>Agent_Run\<close>
    (agent\_loop.rs): the fields of \<open>AgentLoop\<close>, what an event does, what a commit does, a turn
    and the rounds of the loop.
  \<^item> \<open>Http_Server\<close>, \<open>Http_Requests\<close> (http\_server.rs): subscriptions, the streams, the handlers and
    the bodies they take.
  \<^item> \<open>Database\<close> (db.rs), \<open>Config\<close> (config.rs), \<open>Daemon\<close> (main.rs, core\_loop.rs): the tables, the
    environment, and the run of the daemon from its start to the final save; \<open>Embedded_Texts\<close>
    (main.rs, docs.rs, source\_dump.rs): the texts in the binary and the commands that print
    them; \<open>Commands\<close> (main.rs, feedback.rs, chat.rs, tls.rs): \<open>main\<close> and the outcome of every
    command, the feedback client, the start of the servers, requests to stop.
  \<^item> \<open>Routes\<close>: the routers of the four HTTP servers and the URLs their clients build.
  \<^item> \<open>Webhook_Proxy\<close> (webhook\_proxy.rs): who can post through the public ingress.
  \<^item> \<open>Turn_Dump\<close> (core\_loop.rs): the dump of a turn for debugging.
  \<^item> \<open>Bridge_Relay\<close> (bridges/mod.rs): the loop between a chat service and the daemon;
    \<open>Telegram\<close>, \<open>Chat_Services\<close> (slack.rs, discord.rs, signal.rs), \<open>Mail_Bridge\<close> (email.rs) and
    \<open>Agent_Chat\<close> (agentchat.rs): the services, each with what it hands on and what it sends;
    \<open>Bridge_Sessions\<close>: their connections and reconnects, with the locale \<open>bridge_session\<close> for what
    every bridge promises of its messages, interpreted on each of the five readers.
  \<^item> \<open>Local_Clients\<close> (main.rs, bridges/stdio.rs, chat.rs): the chat in the daemon's terminal, the
    same over HTTP, and the proxy of the web chat.
  \<^item> \<open>Watchers\<close> (watchers/): the debouncer all watchers share, the attachments of MQTT messages,
    mailboxes and file events; \<open>Watch_Sources\<close>: the sessions of the three sources around it.
  \<^item> \<open>Feedback_Server\<close> (feedback.rs): the collection server, its reports and its chat, whose
    connections interleave in a step relation.
  \<^item> \<open>Tls\<close> (tls.rs): arguments, the ACME order with its DNS hook, the cache, renewal;
    \<open>Tls_Listener\<close> (feedback.rs, tls.rs): the listener whose handshakes run beside its accept loop, as a
    step relation, certificates and trusted roots, the http-01 responder.

  \<^bold>\<open>Conventions.\<close> A \<open>String\<close> is the list of its bytes; an operation that panics off a character
  boundary gives \<open>None\<close>. \<open>u8\<close> and \<open>u64\<close> are words where they wrap around, counters whose bound
  is never near are \<open>nat\<close>. Times are integers of nanoseconds, read once per step. A
  \<open>HashMap\<close> is an association list. \<open>f64\<close> is its 64 bits, its operations a parameter. A panic
  is \<open>None\<close> of the outermost option, an error \<open>Inl\<close> of a sum. Code that is not here is a
  parameter: the Python interpreter is a function from the text of a script to the calls it
  makes, in turn a function of their results; SQLite, JSON, base64, HMAC, the operating
  system and the network are functions or inputs of a step, each with what the code relies on
  as a named hypothesis of the property that needs it.

  \<^bold>\<open>Properties.\<close> The main ones: each completion is reported once (\<open>Processes\<close>); the cached
  part of a context only grows (\<open>Renderer\<close>) and all of it is in the request (\<open>Api_Client\<close>); a turn
  is all or nothing and what it commits is in order (\<open>Script_Executor\<close>); the loop keeps its
  invariant and its limits whatever happens (\<open>Agent_Run\<close>, \<open>Side_Effects\<close>); the daemon can be
  killed at any time and resumes what it stored (\<open>Daemon\<close>); what is broadcast reaches a bridge
  unchanged (\<open>Bridge_Relay\<close>), and a bridge hands on what it acknowledged (\<open>Chat_Services\<close>). Where two
  programs talk to each other the property runs over both models: the daemon's stream and the
  relay, the daemon's terminal and the stdio bridge (\<open>Local_Clients\<close>), the chat server and its
  client (\<open>Agent_Chat\<close>), the renderer and the dump (\<open>Turn_Dump\<close>). The last section of this
  theory goes all the way: from a peer's message over a bridge and the daemon into the agent's
  queue, and from a committed message of a script to the calls of Telegram's API. Some properties state what the code does where that is not what it
  means to do; they are named as findings in the manifest.

  \<^bold>\<open>Bounds.\<close> The loops of the program that have no end (\<open>AgentLoop::run\<close>, the relays, the watchers) run over a
  list of inputs, one per round, of any length; there is no other fuel. The retry loop of the
  API client has its measure, and the loops over strings terminate by length.

  \<^bold>\<open>Not modelled.\<close> Log lines, HTML pages, the framing axum gives a stream (a hypothesis where it
  matters), command-line parsing, X.509 and the handshakes of TLS, the protocols of libraries
  (MQTT, IMAP, SMTP, MIME, web sockets), the build script and the sockets: each is I/O around a
  library, with no state of the program's own.
\<close>

section \<open>Across components\<close>

subsection \<open>What is posted is understood\<close>

text \<open>C30: Clients and daemon agree on the bodies: what a bridge, the stdio client, the chat of agents, the Signal watchdog, a watcher or
  the webhook proxy posts is accepted by the daemon's parser, with every field arriving as it was sent, the
  priority in range and the agent it is meant for.\<close>

theorem clients_are_understood:
  "parse_message_request (inbound_body user msg) =
     Some \<lparr>mq_chat_id = Some (in_chat_id msg), mq_user = user, mq_content = in_text msg,
       mq_attachments = in_attachments msg, mq_message_ref = in_message_ref msg\<rparr>
   \<and> map_option parse_message_request (stdio_post l) =
     (if trim l = [] then None
      else Some (Some \<lparr>mq_chat_id = Some ''local'', mq_user = ''local'', mq_content = trim l, mq_attachments = [], mq_message_ref = None\<rparr>))
   \<and> parse_event_request (batch_event agent msgs) =
     Some \<lparr>eq_source = ''agentchat'', eq_event_type = ''batch'', eq_data = JObj [(''messages'', JArr msgs)], eq_priority = Some 7, eq_agent = Some agent\<rparr>
   \<and> map_option (\<lambda>q. (eq_source q, eq_priority q, eq_agent q)) (parse_event_request (alert_body agent_var account l n hint)) =
     Some (''signal-bridge'', Some 7, agent_var)
   \<and> parse_event_request (batch_body c source agent_var events) =
     Some \<lparr>eq_source = source, eq_event_type = ''batch'',
       eq_data = JObj [(''count'', JInt (int (length events))), (''events'', JArr events)], eq_priority = Some (wc_priority c), eq_agent = agent_var\<rparr>
   \<and> parse_event_request (event_body source ty data prio) =
     Some \<lparr>eq_source = source, eq_event_type = ty, eq_data = data, eq_priority = Some prio, eq_agent = None\<rparr>"
proof (intro conjI)
  show "map_option parse_message_request (stdio_post l) =
     (if trim l = [] then None
      else Some (Some \<lparr>mq_chat_id = Some ''local'', mq_user = ''local'', mq_content = trim l, mq_attachments = [], mq_message_ref = None\<rparr>))"
    by (simp add: stdio_post_def known_once_def message_fields_def local_chat_id_def)
  show "parse_event_request (batch_body c source agent_var events) =
     Some \<lparr>eq_source = source, eq_event_type = ''batch'',
       eq_data = JObj [(''count'', JInt (int (length events))), (''events'', JArr events)], eq_priority = Some (wc_priority c), eq_agent = agent_var\<rparr>"
    by (simp add: batch_body_def known_once_def event_fields_def flip: opt_str_def)
qed (simp_all add: batch_event_def alert_body_def event_body_def known_once_def event_fields_def)

subsection \<open>From a peer to the queue\<close>

text \<open>What the posts of a bridge send to the root agent.\<close>

definition daemon_events :: "nat \<Rightarrow> nat \<Rightarrow> json list \<Rightarrow> harness_event list" where
  "daemon_events root_tx nanos bodies = concat (map (\<lambda>b. map snd (snd (post_message root_tx True nanos b))) bodies)"

definition user_item :: "string \<Rightarrow> inbound \<Rightarrow> work_item_type \<times> string list \<times> u8" where
  "user_item user msg = (UserMessage (in_chat_id msg) user (in_text msg) (in_message_ref msg), in_attachments msg, 9)"

definition item_content :: "work_item \<Rightarrow> work_item_type \<times> string list \<times> u8" where
  "item_content w = (wi_type w, wi_attachments w, wi_priority w)"

definition plain_message :: "inbound \<Rightarrow> bool" where
  "plain_message msg \<longleftrightarrow> strip_prefix ''!hooks '' (in_text msg) = None"

lemma daemon_events_inbound:
  "daemon_events root_tx nanos (map (inbound_body user) msgs) =
     map (\<lambda>msg. HEUserMessage (in_chat_id msg) user (in_text msg) (in_attachments msg) (in_message_ref msg)) msgs"
  by (induction msgs) (simp_all add: daemon_events_def post_message_def handle_message_def Let_def)

lemma user_message_pushed:
  assumes "hooks (al_state a) = []" "plain_message msg"
  shows "\<exists>a' w. apply_event env (HEUserMessage (in_chat_id msg) user (in_text msg) (in_attachments msg) (in_message_ref msg)) a = Some a' \<and>
     work_queue (al_state a') = wq_push w (work_queue (al_state a)) \<and> hooks (al_state a') = [] \<and> item_content w = user_item user msg"
proof -
  obtain i b where d: "al_draw a = (i, b)" by (cases "al_draw a")
  let ?w = "new_item env i 9 (UserMessage (in_chat_id msg) user (in_text msg) (in_message_ref msg)) (in_attachments msg)"
  have s: "work_queue (al_state b) = work_queue (al_state a)" "hooks (al_state b) = []" using al_draw_state [OF d] assms by simp_all
  have "apply_event env (HEUserMessage (in_chat_id msg) user (in_text msg) (in_attachments msg) (in_message_ref msg)) a = Some (al_push ?w b)"
    using assms s by (simp add: push_new_def d push_item_def plain_message_def) (simp add: new_item_def plain_message_def)
  moreover have "item_content ?w = user_item user msg" by (simp add: new_item_def item_content_def user_item_def)
  ultimately show ?thesis using s by (intro exI [of _ "al_push ?w b"] exI [of _ ?w]) (simp add: push_queue_def)
qed

lemma user_messages_pushed:
  assumes "hooks (al_state a) = []" "list_all plain_message msgs"
  shows "\<exists>a' ws. drain_events env (map (\<lambda>msg. HEUserMessage (in_chat_id msg) user (in_text msg) (in_attachments msg) (in_message_ref msg)) msgs) a = Some a' \<and>
     work_queue (al_state a') = fold wq_push ws (work_queue (al_state a)) \<and> map item_content ws = map (user_item user) msgs"
  using assms
proof (induction msgs arbitrary: a)
  case Nil
  then show ?case by (intro exI [of _ a] exI [of _ "[]"]) (simp add: drain_events_def)
next
  case (Cons msg msgs)
  then obtain b w where b: "apply_event env (HEUserMessage (in_chat_id msg) user (in_text msg) (in_attachments msg) (in_message_ref msg)) a = Some b"
    "work_queue (al_state b) = wq_push w (work_queue (al_state a))" "hooks (al_state b) = []" "item_content w = user_item user msg"
    using user_message_pushed [of a msg env user] by auto
  from Cons.IH [OF b(3)] Cons.prems(2) obtain a' ws where
    "drain_events env (map (\<lambda>msg. HEUserMessage (in_chat_id msg) user (in_text msg) (in_attachments msg) (in_message_ref msg)) msgs) b = Some a'"
    "work_queue (al_state a') = fold wq_push ws (work_queue (al_state b))" "map item_content ws = map (user_item user) msgs" by auto
  with b show ?case by (intro exI [of _ a'] exI [of _ "w # ws"]) (simp add: drain_events_def)
qed



subsection \<open>From the agent to Telegram\<close>

definition broadcasts :: "agent_output list \<Rightarrow> broadcast_msg list" where
  "broadcasts = List.map_filter (\<lambda>x. case x of OBroadcast m \<Rightarrow> Some m | _ \<Rightarrow> None)"

definition message_of :: "agent_env \<Rightarrow> outbound_message \<Rightarrow> broadcast_msg" where
  "message_of env m =
     BMessage (om_chat_id m) (om_content m) (om_attachments m)
       (int (ax_message_id env (om_chat_id m) (om_content m) (om_attachments m))) (ax_created_at env) (om_react_to m)"

definition telegram_recipient :: "string \<Rightarrow> int option" where
  "telegram_recipient chat = Option.bind (strip_prefix ''telegram:'' chat) parse_i64"

text \<open>All that is sent to a recipient, and all that the agent said to it.\<close>

definition texts_to :: "int \<Rightarrow> telegram_call list \<Rightarrow> string" where
  "texts_to r = concat \<circ> List.map_filter (\<lambda>c. case c of Send_Message r' t \<Rightarrow> if r' = r then Some t else None | _ \<Rightarrow> None)"

definition said_to :: "int \<Rightarrow> outbound_message list \<Rightarrow> string" where
  "said_to r ms = concat (map om_content (filter (\<lambda>m. telegram_recipient (om_chat_id m) = Some r) ms))"

definition telegram_calls :: "(string \<Rightarrow> string option) \<Rightarrow> outbound list \<Rightarrow> telegram_call list" where
  "telegram_calls read outs = concat (map (\<lambda>out. case telegram_outbound (\<lambda>calls. True) read out of Some (r, calls) \<Rightarrow> calls | None \<Rightarrow> []) outs)"

lemma broadcasts_simps [simp]:
  "broadcasts [] = []" "broadcasts (xs @ ys) = broadcasts xs @ broadcasts ys" "broadcasts (OBroadcast m # xs) = m # broadcasts xs" "broadcasts (OSaveMessage x y z # xs) = broadcasts xs"
  by (simp_all add: broadcasts_def map_filter_simps map_filter_append)

lemma broadcasts_delivered:
  "al_broadcasts a \<Longrightarrow> broadcasts (al_out (fold (deliver_message env) ms a)) = broadcasts (al_out a) @ map (message_of env) ms"
  by (induction ms arbitrary: a) (simp_all add: deliver_message_def al_broadcast_def emit_def message_of_def)

lemma texts_to_simps [simp]: "texts_to r [] = []" "texts_to r (xs @ ys) = texts_to r xs @ texts_to r ys"
  by (simp_all add: texts_to_def map_filter_simps map_filter_append)

lemma texts_to_messages: "texts_to r (map (Send_Message r') cs) = (if r' = r then concat cs else [])"
  by (cases "r' = r"; induction cs) (simp_all add: texts_to_def map_filter_simps)

lemma concat_nonempty: "concat (filter (\<lambda>c. c \<noteq> []) cs) = concat cs"
  by (induction cs) auto

lemma outbound_texts:
  assumes "utf8_ok (out_content out)" "out_attachments out = []"
  shows "texts_to r (case telegram_outbound (\<lambda>calls. True) read out of Some (res, calls) \<Rightarrow> calls | None \<Rightarrow> []) =
     (if telegram_recipient (out_chat_id out) = Some r then out_content out else [])"
proof -
  obtain cs where cs: "chunk_for_telegram (out_content out) = Some cs" "concat cs = out_content out"
    using chunks_fit [OF assms(1)] by blast
  show ?thesis
  proof (cases "telegram_recipient (out_chat_id out)")
    case None
    then show ?thesis by (simp add: telegram_outbound_def telegram_recipient_def)
  next
    case (Some r')
    then have "Option.bind (strip_prefix ''telegram:'' (out_chat_id out)) parse_i64 = Some r'" by (simp add: telegram_recipient_def)
    with Some cs assms(2) show ?thesis
      by (simp add: telegram_outbound_def send_chunks_all texts_to_messages concat_nonempty)
  qed
qed

lemma texts_to_calls:
  assumes "\<forall>out \<in> set outs. utf8_ok (out_content out) \<and> out_attachments out = []"
  shows "texts_to r (telegram_calls read outs) = concat (map out_content (filter (\<lambda>out. telegram_recipient (out_chat_id out) = Some r) outs))"
  using assms by (induction outs) (simp_all add: telegram_calls_def outbound_texts)

lemma delivered_messages:
  "concat (map (delivered ''telegram:*'') (map (message_of env) ms)) =
     map (\<lambda>m. \<lparr>out_chat_id = om_chat_id m, out_content = om_content m, out_attachments = om_attachments m, out_react_to = om_react_to m\<rparr>)
       (filter (\<lambda>m. starts_with ''telegram:'' (om_chat_id m)) ms)"
  by (induction ms) (simp_all add: delivered_def message_of_def sse_passes_def strip_suffix_char_def ends_with_char_def)


definition sample_saying :: "outbound_message list" where
  "sample_saying = [\<lparr>om_chat_id = ''telegram:7'', om_content = ''hi'', om_attachments = [], om_react_to = None\<rparr>]"


subsection \<open>Bridges keep chats apart\<close>

text \<open>C39: No bridge sends anything to a chat it was not asked to: over any messages, every call the Telegram, Slack, Discord, email and Signal
  bridges make, whatever of it fails, goes to the chat that the message it is made for names after the bridge's own prefix; a message with
  another prefix causes no call.\<close>

theorem bridges_keep_chats_apart:
  "(\<forall>call \<in> set (concat (map (telegram_handle ok read) outs)). \<exists>out \<in> set outs. \<exists>c. out_chat_id out = ''telegram:'' @ c \<and> telegram_goes_to call c)
   \<and> (\<forall>call \<in> set (concat (map (\<lambda>out. snd (slack_outbound api read out)) outs)). \<exists>out \<in> set outs. \<exists>c. out_chat_id out = ''slack:'' @ c \<and> slack_goes_to call c)
   \<and> (\<forall>r \<in> set (concat (map (\<lambda>out. snd (discord_outbound read post out)) outs)). \<exists>out \<in> set outs. out_chat_id out = ''discord:'' @ dr_channel r)
   \<and> (\<forall>m \<in> set (concat (map (email_handle addr read user) outs)). \<exists>out \<in> set outs. out_chat_id out = ''email:'' @ og_to m)
   \<and> (\<forall>req \<in> set (concat (map (\<lambda>out. signal_writer wr i [out] []) outs)). \<exists>out \<in> set outs. \<exists>c. out_chat_id out = ''signal:'' @ c \<and> signal_goes_to req c)"
  using telegram_bridge.calls_addressed slack_bridge.calls_addressed discord_bridge.calls_addressed
    email_bridge.calls_addressed signal_bridge.calls_addressed
  by (intro conjI ballI) (blast | metis)+

theorem bridges_keep_chats_apart_witness:
  "\<exists>r. r \<in> set (concat (map (\<lambda>out. snd (discord_outbound (\<lambda>p. None) (\<lambda>r. Some 200) out))
     [\<lparr>out_chat_id = ''discord:5'', out_content = ''hi'', out_attachments = [], out_react_to = None\<rparr>])) \<and>
     ''discord:5'' = ''discord:'' @ dr_channel r"
proof -
  let ?out = "\<lparr>out_chat_id = ''discord:5'', out_content = ''hi'', out_attachments = [], out_react_to = None\<rparr>"
  have "snd (discord_outbound (\<lambda>p. None) (\<lambda>r. Some 200) ?out) \<noteq> []"
    by (simp add: discord_outbound_def strip_prefix_def starts_with_def Let_def)
  then have "hd (snd (discord_outbound (\<lambda>p. None) (\<lambda>r. Some 200) ?out)) \<in> set (snd (discord_outbound (\<lambda>p. None) (\<lambda>r. Some 200) ?out))"
    by (rule hd_in_set)
  then obtain r where r: "r \<in> set (concat (map (\<lambda>out. snd (discord_outbound (\<lambda>p. None) (\<lambda>r. Some 200) out)) [?out]))"
    by auto
  with bridges_keep_chats_apart [of "\<lambda>calls. True" "\<lambda>p. None" "[?out]" "\<lambda>calls. None" "\<lambda>r. Some 200" "\<lambda>a. True" "''u''" "\<lambda>w. True" 1]
  have "\<exists>out \<in> set [?out]. out_chat_id out = ''discord:'' @ dr_channel r" by blast
  with r show ?thesis by auto
qed

end
